(* ===== verification/Prelude.thy ===== *)
theory Prelude
  imports Main "HOL-Library.Word"
begin

text \<open>
  Shared vocabulary of the development: bytes and the C view of them, cursors into a byte
  buffer, the four possible outcomes of a parsing routine (a value, the return codes -1 and -2,
  or a memory fault), and the rule collections the component theories use.

  A buffer is the list of the bytes between \<^verbatim>\<open>buf_start\<close> and \<^verbatim>\<open>buf_end\<close>, a \<^verbatim>\<open>char *\<close>
  into it is an offset. Reading at or past the end is the outcome \<open>PFault\<close>, so that memory
  safety is a theorem about the definitions and not an assumption built into them.
\<close>

named_theorems pres_iff \<open>when a sequenced parsing step has a given outcome\<close>
named_theorems cursor \<open>how far a parsing step moves the cursor\<close>
named_theorems ext_intros \<open>appending bytes to the buffer keeps a definite outcome\<close>

section \<open>Bytes\<close>

type_synonym bytes = "char list"

abbreviation (input) CR :: char where "CR \<equiv> CHR 0x0D"
abbreviation (input) LF :: char where "LF \<equiv> CHR 0x0A"
abbreviation (input) SP :: char where "SP \<equiv> CHR 0x20"
abbreviation (input) HT :: char where "HT \<equiv> CHR 0x09"
abbreviation (input) NUL :: char where "NUL \<equiv> CHR 0x00"

text \<open>The value of a byte read as \<^verbatim>\<open>unsigned char\<close>, and as the signed \<^verbatim>\<open>char\<close> of the target.\<close>

definition uchar :: "char \<Rightarrow> nat" where
  "uchar c = of_char c"

definition schar :: "char \<Rightarrow> int" where
  "schar c = (if uchar c < 128 then int (uchar c) else int (uchar c) - 256)"

lemma uchar_less: "uchar c < 256"
  by (simp add: uchar_def)

lemma uchar_inject [simp]: "uchar c = uchar d \<longleftrightarrow> c = d"
  by (simp add: uchar_def)

definition blank :: "char \<Rightarrow> bool" where
  "blank c \<longleftrightarrow> c = SP \<or> c = HT"

section \<open>Outcomes of a parsing routine\<close>

text \<open>\<open>PBad\<close> is the return code -1, \<open>PPartial\<close> the return code -2.\<close>

datatype 'a pres = PRet 'a | PBad | PPartial | PFault

primrec pbind :: "'a pres \<Rightarrow> ('a \<Rightarrow> 'b pres) \<Rightarrow> 'b pres" where
  "pbind (PRet x) f = f x"
| "pbind PBad f = PBad"
| "pbind PPartial f = PPartial"
| "pbind PFault f = PFault"

lemma pbind_cong [fundef_cong]:
  "m = m' \<Longrightarrow> (\<And>x. m' = PRet x \<Longrightarrow> f x = g x) \<Longrightarrow> pbind m f = pbind m' g"
  by (cases m') auto

lemma pbind_PRet_iff [pres_iff]: "pbind m f = PRet y \<longleftrightarrow> (\<exists>x. m = PRet x \<and> f x = PRet y)"
  by (cases m) auto

lemma pbind_PFault_iff [pres_iff]: "pbind m f = PFault \<longleftrightarrow> m = PFault \<or> (\<exists>x. m = PRet x \<and> f x = PFault)"
  by (cases m) auto

lemma pbind_PBad_iff [pres_iff]: "pbind m f = PBad \<longleftrightarrow> m = PBad \<or> (\<exists>x. m = PRet x \<and> f x = PBad)"
  by (cases m) auto

lemma pbind_assoc: "pbind (pbind m f) g = pbind m (\<lambda>x. pbind (f x) g)"
  by (cases m) auto

text \<open>
  A routine that also writes through out-parameters returns the final contents of those
  together with its outcome; they are written on the failing paths too.
\<close>

definition sbind :: "'s \<times> 'a pres \<Rightarrow> ('s \<Rightarrow> 'a \<Rightarrow> 's \<times> 'b pres) \<Rightarrow> 's \<times> 'b pres" where
  "sbind m f = (case m of (s, r) \<Rightarrow>
     (case r of PRet x \<Rightarrow> f s x | PBad \<Rightarrow> (s, PBad) | PPartial \<Rightarrow> (s, PPartial) | PFault \<Rightarrow> (s, PFault)))"

lemma sbind_simps [simp]:
  "sbind (s, PRet x) f = f s x"
  "sbind (s, PBad) f = (s, PBad)"
  "sbind (s, PPartial) f = (s, PPartial)"
  "sbind (s, PFault) f = (s, PFault)"
  by (simp_all add: sbind_def)

lemma sbind_cong [fundef_cong]:
  "m = m' \<Longrightarrow> (\<And>s x. m' = (s, PRet x) \<Longrightarrow> f s x = g s x) \<Longrightarrow> sbind m f = sbind m' g"
  by (auto simp: sbind_def split: prod.split pres.split)

lemma sbind_PRet_iff [pres_iff]:
  "sbind m f = (t, PRet y) \<longleftrightarrow> (\<exists>s x. m = (s, PRet x) \<and> f s x = (t, PRet y))"
  by (auto simp: sbind_def split: prod.splits pres.splits)

lemma sbind_PFault_iff [pres_iff]:
  "sbind m f = (t, PFault) \<longleftrightarrow> m = (t, PFault) \<or> (\<exists>s x. m = (s, PRet x) \<and> f s x = (t, PFault))"
  by (auto simp: sbind_def split: prod.splits pres.splits)

lemma snd_sbind_PRet_iff [pres_iff]:
  "snd (sbind m f) = PRet y \<longleftrightarrow> (\<exists>s x. m = (s, PRet x) \<and> snd (f s x) = PRet y)"
  by (auto simp: sbind_def split: prod.splits pres.splits)

lemma snd_sbind_PFault_iff [pres_iff]:
  "snd (sbind m f) = PFault \<longleftrightarrow> snd m = PFault \<or> (\<exists>s x. m = (s, PRet x) \<and> snd (f s x) = PFault)"
  by (auto simp: sbind_def split: prod.splits pres.splits)

section \<open>Cursor primitives\<close>

definition peek :: "bytes \<Rightarrow> nat \<Rightarrow> char pres" where
  "peek b i = (if i < length b then PRet (b ! i) else PFault)"

lemma peek_PRet_iff [pres_iff]: "peek b i = PRet c \<longleftrightarrow> i < length b \<and> c = b ! i"
  by (auto simp: peek_def)

lemma peek_PFault_iff [pres_iff]: "peek b i = PFault \<longleftrightarrow> length b \<le> i"
  by (auto simp: peek_def)

lemma peek_not_PBad [simp]: "peek b i \<noteq> PBad" "peek b i \<noteq> PPartial"
  by (auto simp: peek_def)

lemma peek_eq [simp]: "i < length b \<Longrightarrow> peek b i = PRet (b ! i)"
  by (simp add: peek_def)

text \<open>Induction along a cursor that moves one byte at a time towards the end of the buffer.\<close>

lemma cursor_induct [case_names step]:
  assumes step: "\<And>i. (i < length b \<Longrightarrow> P (Suc i)) \<Longrightarrow> P i"
  shows "P i"
proof (induction "length b - i" arbitrary: i rule: less_induct)
  case less
  show ?case
  proof (rule step)
    assume "i < length b"
    then have "length b - Suc i < length b - i" by simp
    then show "P (Suc i)" by (rule less.hyps)
  qed
qed

text \<open>The same for a cursor that may jump ahead.\<close>

lemma cursor_jump_induct [case_names step]:
  assumes step: "\<And>i. (\<And>j. i < length b \<Longrightarrow> i < j \<Longrightarrow> P j) \<Longrightarrow> P i"
  shows "P i"
proof (induction "length b - i" arbitrary: i rule: less_induct)
  case less
  show ?case
  proof (rule step)
    fix j
    assume "i < length b" and "i < j"
    then have "length b - j < length b - i" by simp
    then show "P j" by (rule less.hyps)
  qed
qed

section \<open>More bytes never change a definite outcome\<close>

text \<open>
  \<open>ext r r'\<close>: the outcome \<open>r\<close> on a buffer allows the outcome \<open>r'\<close> on a longer one.
  Only "incomplete" (and a read past the end, shown never to happen) may change.
\<close>

definition ext :: "'a pres \<Rightarrow> 'a pres \<Rightarrow> bool" where
  "ext r r' \<longleftrightarrow> r = PPartial \<or> r = PFault \<or> r' = r"

definition ext2 :: "'s \<times> 'a pres \<Rightarrow> 's \<times> 'a pres \<Rightarrow> bool" where
  "ext2 p p' \<longleftrightarrow> snd p = PPartial \<or> snd p = PFault \<or> p' = p"

lemma ext_refl [simp, intro]: "ext r r"
  by (simp add: ext_def)

lemma ext2_refl [simp, intro]: "ext2 p p"
  by (simp add: ext2_def)

lemma ext_PPartial [simp, intro]: "ext PPartial r"
  by (simp add: ext_def)

lemma ext_PFault [simp, intro]: "ext PFault r"
  by (simp add: ext_def)

lemma ext2_PPartial [simp, intro]: "ext2 (s, PPartial) p"
  by (simp add: ext2_def)

lemma ext2_pair [ext_intros]: "ext r r' \<Longrightarrow> ext2 (s, r) (s, r')"
  by (auto simp: ext_def ext2_def)

lemma ext_pbind [ext_intros]:
  assumes "ext m m'" and "\<And>x. m = PRet x \<Longrightarrow> ext (f x) (g x)"
  shows "ext (pbind m f) (pbind m' g)"
  using assms by (cases m) (auto simp: ext_def)

lemma ext2_sbind [ext_intros]:
  assumes "ext2 m m'" and "\<And>s x. m = (s, PRet x) \<Longrightarrow> ext2 (f s x) (g s x)"
  shows "ext2 (sbind m f) (sbind m' g)"
  using assms by (cases m; cases "snd m") (auto simp: ext2_def)

lemma ext_peek [ext_intros]: "ext (peek b i) (peek (b @ c) i)"
  by (auto simp: peek_def ext_def nth_append)

lemma ext_if [ext_intros]: "(P \<Longrightarrow> ext r r') \<Longrightarrow> (\<not> P \<Longrightarrow> ext q q') \<Longrightarrow> ext (if P then r else q) (if P then r' else q')"
  by simp

lemma ext2_if [ext_intros]: "(P \<Longrightarrow> ext2 r r') \<Longrightarrow> (\<not> P \<Longrightarrow> ext2 q q') \<Longrightarrow> ext2 (if P then r else q) (if P then r' else q')"
  by simp

section \<open>Slices of a buffer\<close>

text \<open>The bytes a \<^verbatim>\<open>(pointer, length)\<close> pair denotes.\<close>

definition bslice :: "bytes \<Rightarrow> nat \<Rightarrow> nat \<Rightarrow> bytes" where
  "bslice b i n = take n (drop i b)"

lemma length_bslice: "i + n \<le> length b \<Longrightarrow> length (bslice b i n) = n"
  by (simp add: bslice_def)

lemma bslice_append_left [simp]: "i + n \<le> length b \<Longrightarrow> bslice (b @ c) i n = bslice b i n"
  by (simp add: bslice_def)

lemma bslice_at [simp]: "bslice (xs @ ys @ zs) (length xs) (length ys) = ys"
  by (simp add: bslice_def)

lemma nth_bslice: "i + n \<le> length b \<Longrightarrow> k < n \<Longrightarrow> bslice b i n ! k = b ! (i + k)"
  by (simp add: bslice_def)

lemma set_bsliceI: "(\<And>k. i \<le> k \<Longrightarrow> k < i + n \<Longrightarrow> P (b ! k)) \<Longrightarrow> i + n \<le> length b \<Longrightarrow> \<forall>c \<in> set (bslice b i n). P c"
  by (auto simp: in_set_conv_nth nth_bslice length_bslice)

lemma nth_not_in: "x \<notin> set xs \<Longrightarrow> i < length xs \<Longrightarrow> xs ! i \<noteq> x"
  using nth_mem by metis

end
