(* ===== verification/PicoParser.thy ===== *)
theory PicoParser
  imports Prelude
begin

text \<open>
  The request half of \<^verbatim>\<open>srclib/picohttpparser.c\<close>: the macros, the token and line scanners,
  the header loop, \<^verbatim>\<open>phr_parse_request\<close> and \<^verbatim>\<open>phr_parse_headers\<close>, as the Makefile builds them
  (no \<^verbatim>\<open>-msse4.2\<close>, so the portable branches of \<^verbatim>\<open>findchar_fast\<close> and \<^verbatim>\<open>get_token_to_eol\<close>; the
  others are in \<open>PicoSSE\<close>).

  A routine takes the buffer \<open>b\<close> and the cursor \<open>i\<close> and returns an outcome; a token is an
  offset and a length; the out-parameters that outlive a call are the record \<open>phr_out\<close>.
\<close>

section \<open>Macros and character classes\<close>

definition IS_PRINTABLE_ASCII :: "char \<Rightarrow> bool" where
  "IS_PRINTABLE_ASCII c \<longleftrightarrow> (word_of_nat (uchar c) - 32 :: 32 word) < 95"

definition CHECK_EOF :: "bytes \<Rightarrow> nat \<Rightarrow> unit pres" where
  "CHECK_EOF b i =
     (if i = length b then PPartial
      else if i < length b then PRet ()
      else PFault)"

definition EXPECT_CHAR_NO_CHECK :: "bytes \<Rightarrow> nat \<Rightarrow> char \<Rightarrow> nat pres" where
  "EXPECT_CHAR_NO_CHECK b i ch = pbind (peek b i) (\<lambda>c. if c \<noteq> ch then PBad else PRet (i + 1))"

definition EXPECT_CHAR :: "bytes \<Rightarrow> nat \<Rightarrow> char \<Rightarrow> nat pres" where
  "EXPECT_CHAR b i ch = pbind (CHECK_EOF b i) (\<lambda>_. EXPECT_CHAR_NO_CHECK b i ch)"

definition token_char_map :: "nat list" where
  "token_char_map =
    [0,0,0,0,0,0,0,0,0,0,0,0,0,0,0,0,0,0,0,0,0,0,0,0,0,0,0,0,0,0,0,0,
     0,1,0,1,1,1,1,1,0,0,1,1,0,1,1,0,1,1,1,1,1,1,1,1,1,1,0,0,0,0,0,0,
     0,1,1,1,1,1,1,1,1,1,1,1,1,1,1,1,1,1,1,1,1,1,1,1,1,1,1,0,0,0,1,1,
     1,1,1,1,1,1,1,1,1,1,1,1,1,1,1,1,1,1,1,1,1,1,1,1,1,1,1,0,1,0,1,0,
     0,0,0,0,0,0,0,0,0,0,0,0,0,0,0,0,0,0,0,0,0,0,0,0,0,0,0,0,0,0,0,0,
     0,0,0,0,0,0,0,0,0,0,0,0,0,0,0,0,0,0,0,0,0,0,0,0,0,0,0,0,0,0,0,0,
     0,0,0,0,0,0,0,0,0,0,0,0,0,0,0,0,0,0,0,0,0,0,0,0,0,0,0,0,0,0,0,0,
     0,0,0,0,0,0,0,0,0,0,0,0,0,0,0,0,0,0,0,0,0,0,0,0,0,0,0,0,0,0,0,0]"

definition token_char :: "char \<Rightarrow> bool" where
  "token_char c \<longleftrightarrow> token_char_map ! uchar c \<noteq> 0"

text \<open>The portable \<^verbatim>\<open>findchar_fast\<close>: leaves the cursor where it is and reports nothing found.\<close>

definition findchar_fast :: "bytes \<Rightarrow> nat \<Rightarrow> nat \<times> bool" where
  "findchar_fast b i = (i, False)"

section \<open>ADVANCE_TOKEN, get_token_to_eol, is_complete\<close>

function advance_token_loop :: "bytes \<Rightarrow> nat \<Rightarrow> nat pres" where
  "advance_token_loop b i =
     pbind (peek b i) (\<lambda>c.
       if c = SP then PRet i
       else if \<not> IS_PRINTABLE_ASCII c \<and> (uchar c < 32 \<or> c = CHR 0x7F) then PBad
       else pbind (CHECK_EOF b (i + 1)) (\<lambda>_. advance_token_loop b (i + 1)))"
  by pat_completeness auto
termination
  by (relation "measure (\<lambda>(b, i). length b - i)") (auto simp: pres_iff)

definition ADVANCE_TOKEN :: "bytes \<Rightarrow> nat \<Rightarrow> (nat \<times> nat \<times> nat) pres" where
  "ADVANCE_TOKEN b i =
     (let tok_start = i; (i, found2) = findchar_fast b i
      in pbind (if \<not> found2 then CHECK_EOF b i else PRet ()) (\<lambda>_.
         pbind (advance_token_loop b i) (\<lambda>i. PRet (tok_start, i - tok_start, i))))"

text \<open>The condition under which the line scanner jumps to \<^verbatim>\<open>FOUND_CTL\<close>.\<close>

definition found_ctl :: "char \<Rightarrow> bool" where
  "found_ctl c \<longleftrightarrow> (uchar c < 32 \<and> c \<noteq> HT) \<or> c = CHR 0x7F"

text \<open>
  The unrolled scan: \<open>k\<close> copies of \<^verbatim>\<open>DOIT\<close>. \<open>(True, j)\<close> is the jump to \<^verbatim>\<open>NonPrintable\<close>
  at \<open>j\<close>, \<open>(False, j)\<close> the fall-through at \<open>j\<close>.
\<close>

fun doit :: "bytes \<Rightarrow> nat \<Rightarrow> nat \<Rightarrow> (bool \<times> nat) pres" where
  "doit b i 0 = PRet (False, i)"
| "doit b i (Suc k) = pbind (peek b i) (\<lambda>c.
     if \<not> IS_PRINTABLE_ASCII c then PRet (True, i) else doit b (i + 1) k)"

lemma doit_cursor [cursor]: "doit b i k = PRet (np, j) \<Longrightarrow> i \<le> j \<and> (\<not> np \<longrightarrow> j = i + k) \<and> (i \<le> length b \<longrightarrow> j \<le> length b) \<and> (np \<longrightarrow> j < length b)"
  by (induction b i k rule: doit.induct) (fastforce simp: pres_iff split: if_splits)+

text \<open>The \<^verbatim>\<open>while (buf_end - buf >= 8)\<close> loop; \<open>(True, j)\<close> is the jump to \<^verbatim>\<open>FOUND_CTL\<close>.\<close>

function scan_by_8 :: "bytes \<Rightarrow> nat \<Rightarrow> (bool \<times> nat) pres" where
  "scan_by_8 b i =
     (if i + 8 \<le> length b then
        pbind (doit b i 8) (\<lambda>(non_printable, j).
          if \<not> non_printable then scan_by_8 b j
          else pbind (peek b j) (\<lambda>c.
            if found_ctl c then PRet (True, j) else scan_by_8 b (j + 1)))
      else PRet (False, i))"
  by pat_completeness auto
termination
  by (relation "measure (\<lambda>(b, i). length b - i)") (auto dest!: doit_cursor simp: pres_iff)

function scan_by_1 :: "bytes \<Rightarrow> nat \<Rightarrow> nat pres" where
  "scan_by_1 b i =
     pbind (CHECK_EOF b i) (\<lambda>_.
     pbind (peek b i) (\<lambda>c.
       if \<not> IS_PRINTABLE_ASCII c \<and> found_ctl c then PRet i else scan_by_1 b (i + 1)))"
  by pat_completeness auto
termination
  by (relation "measure (\<lambda>(b, i). length b - i)") (auto simp: pres_iff)

definition get_token_to_eol :: "bytes \<Rightarrow> nat \<Rightarrow> (nat \<times> nat \<times> nat) pres" where
  "get_token_to_eol b i =
     (let token_start = i in
      pbind (scan_by_8 b i) (\<lambda>(found, j).
      pbind (if found then PRet j else scan_by_1 b j) (\<lambda>i.
      pbind (peek b i) (\<lambda>c.
        if c = CR then
          pbind (EXPECT_CHAR b (i + 1) LF) (\<lambda>j. PRet (token_start, j - 2 - token_start, j))
        else if c = LF then PRet (token_start, i - token_start, i + 1)
        else PBad))))"

function is_complete_loop :: "bytes \<Rightarrow> nat \<Rightarrow> nat \<Rightarrow> nat pres" where
  "is_complete_loop b i ret_cnt =
     pbind (CHECK_EOF b i) (\<lambda>_.
     pbind (peek b i) (\<lambda>c.
     pbind (if c = CR then
              pbind (CHECK_EOF b (i + 1)) (\<lambda>_.
              pbind (EXPECT_CHAR b (i + 1) LF) (\<lambda>j. PRet (j, ret_cnt + 1)))
            else if c = LF then PRet (i + 1, ret_cnt + 1)
            else PRet (i + 1, 0)) (\<lambda>(j, cnt).
       if cnt = 2 then PRet j else is_complete_loop b j cnt)))"
  by pat_completeness auto
termination
  by (relation "measure (\<lambda>(b, i, n). length b - i)")
     (auto simp: pres_iff EXPECT_CHAR_def EXPECT_CHAR_NO_CHECK_def CHECK_EOF_def split: if_splits)

definition is_complete :: "bytes \<Rightarrow> nat \<Rightarrow> nat pres" where
  "is_complete b last_len = is_complete_loop b (if last_len < 3 then 0 else last_len - 3) 0"

section \<open>parse_token, parse_http_version\<close>

function parse_token_loop :: "bytes \<Rightarrow> nat \<Rightarrow> char \<Rightarrow> nat pres" where
  "parse_token_loop b i next_char =
     pbind (peek b i) (\<lambda>c.
       if c = next_char then PRet i
       else if \<not> token_char c then PBad
       else pbind (CHECK_EOF b (i + 1)) (\<lambda>_. parse_token_loop b (i + 1) next_char))"
  by pat_completeness auto
termination
  by (relation "measure (\<lambda>(b, i, n). length b - i)") (auto simp: pres_iff)

definition parse_token :: "bytes \<Rightarrow> nat \<Rightarrow> char \<Rightarrow> (nat \<times> nat \<times> nat) pres" where
  "parse_token b i next_char =
     (let buf_start = i; (i, found) = findchar_fast b i
      in pbind (if \<not> found then CHECK_EOF b i else PRet ()) (\<lambda>_.
         pbind (parse_token_loop b i next_char) (\<lambda>i. PRet (buf_start, i - buf_start, i))))"

definition PARSE_INT :: "bytes \<Rightarrow> nat \<Rightarrow> int \<Rightarrow> (int \<times> nat) pres" where
  "PARSE_INT b i mul =
     pbind (peek b i) (\<lambda>c.
       if schar c < 48 \<or> 57 < schar c then PBad else PRet (mul * (schar c - 48), i + 1))"

definition parse_http_version :: "bytes \<Rightarrow> nat \<Rightarrow> (int \<times> nat) pres" where
  "parse_http_version b i =
     (if length b < i + 9 then PPartial
      else pbind (EXPECT_CHAR_NO_CHECK b i (CHR ''H'')) (\<lambda>i.
           pbind (EXPECT_CHAR_NO_CHECK b i (CHR ''T'')) (\<lambda>i.
           pbind (EXPECT_CHAR_NO_CHECK b i (CHR ''T'')) (\<lambda>i.
           pbind (EXPECT_CHAR_NO_CHECK b i (CHR ''P'')) (\<lambda>i.
           pbind (EXPECT_CHAR_NO_CHECK b i (CHR ''/'')) (\<lambda>i.
           pbind (EXPECT_CHAR_NO_CHECK b i (CHR ''1'')) (\<lambda>i.
           pbind (EXPECT_CHAR_NO_CHECK b i (CHR ''.'')) (\<lambda>i.
             PARSE_INT b i 1))))))))"

section \<open>The header loop\<close>

text \<open>\<open>None\<close> is the null pointer; \<open>Some i\<close> points at offset \<open>i\<close> of the buffer.\<close>

record phr_header =
  h_name :: "nat option"
  h_name_len :: nat
  h_value :: "nat option"
  h_value_len :: nat

record phr_out =
  o_method :: "nat option"
  o_method_len :: nat
  o_path :: "nat option"
  o_path_len :: nat
  o_minor_version :: int
  o_headers :: "phr_header list"
  o_num_headers :: nat

text \<open>\<^verbatim>\<open>headers[*num_headers]\<close> is assigned; an index outside the caller's array is a fault.\<close>

definition set_header :: "phr_out \<Rightarrow> (phr_header \<Rightarrow> phr_header) \<Rightarrow> phr_out \<times> unit pres" where
  "set_header out f =
     (let n = o_num_headers out in
      if n < length (o_headers out)
      then (out\<lparr>o_headers := (o_headers out)[n := f (o_headers out ! n)]\<rparr>, PRet ())
      else (out, PFault))"

function skip_blanks :: "bytes \<Rightarrow> nat \<Rightarrow> nat pres" where
  "skip_blanks b i =
     pbind (CHECK_EOF b i) (\<lambda>_.
     pbind (peek b i) (\<lambda>c. if \<not> blank c then PRet i else skip_blanks b (i + 1)))"
  by pat_completeness auto
termination
  by (relation "measure (\<lambda>(b, i). length b - i)") (auto simp: pres_iff)

definition parse_header_name :: "bytes \<Rightarrow> nat \<Rightarrow> phr_out \<Rightarrow> phr_out \<times> nat pres" where
  "parse_header_name b i out =
     sbind (out, peek b i) (\<lambda>out c.
       if \<not> (o_num_headers out \<noteq> 0 \<and> blank c) then
         sbind (out, parse_token b i (CHR '':'')) (\<lambda>out (name, name_len, j).
         sbind (set_header out (\<lambda>h. h\<lparr>h_name := Some name, h_name_len := name_len\<rparr>)) (\<lambda>out _.
           if name_len = 0 then (out, PBad) else (out, skip_blanks b (j + 1))))
       else
         sbind (set_header out (\<lambda>h. h\<lparr>h_name := None, h_name_len := 0\<rparr>)) (\<lambda>out _. (out, PRet i)))"

text \<open>The trailing-blank loop: \<^verbatim>\<open>value_end\<close> is \<open>v + n\<close>; the result is \<^verbatim>\<open>value_end - value\<close>.\<close>

fun trim_value :: "bytes \<Rightarrow> nat \<Rightarrow> nat \<Rightarrow> nat pres" where
  "trim_value b v 0 = PRet 0"
| "trim_value b v (Suc n) =
     pbind (peek b (v + n)) (\<lambda>c. if \<not> blank c then PRet (Suc n) else trim_value b v n)"

definition parse_header_value :: "bytes \<Rightarrow> nat \<Rightarrow> phr_out \<Rightarrow> phr_out \<times> nat pres" where
  "parse_header_value b i out =
     sbind (out, get_token_to_eol b i) (\<lambda>out (v, value_len, j).
     sbind (out, trim_value b v value_len) (\<lambda>out n.
     sbind (set_header out (\<lambda>h. h\<lparr>h_value := Some v, h_value_len := n\<rparr>)) (\<lambda>out _. (out, PRet j))))"

lemma CHECK_EOF_PRet_iff [pres_iff]: "CHECK_EOF b i = PRet u \<longleftrightarrow> i < length b"
  by (auto simp: CHECK_EOF_def)

lemma CHECK_EOF_PFault_iff [pres_iff]: "CHECK_EOF b i = PFault \<longleftrightarrow> length b < i"
  by (auto simp: CHECK_EOF_def)

lemma CHECK_EOF_not_PBad [simp]: "CHECK_EOF b i \<noteq> PBad"
  by (auto simp: CHECK_EOF_def)

lemma EXPECT_CHAR_NO_CHECK_PRet_iff [pres_iff]:
  "EXPECT_CHAR_NO_CHECK b i ch = PRet j \<longleftrightarrow> i < length b \<and> b ! i = ch \<and> j = i + 1"
  by (auto simp: EXPECT_CHAR_NO_CHECK_def pres_iff)

lemma EXPECT_CHAR_PRet_iff [pres_iff]:
  "EXPECT_CHAR b i ch = PRet j \<longleftrightarrow> i < length b \<and> b ! i = ch \<and> j = i + 1"
  by (auto simp: EXPECT_CHAR_def pres_iff)

lemma EXPECT_CHAR_PFault_iff [pres_iff]: "EXPECT_CHAR b i ch = PFault \<longleftrightarrow> length b < i"
  by (auto simp: EXPECT_CHAR_def EXPECT_CHAR_NO_CHECK_def pres_iff split: if_splits)

declare advance_token_loop.simps [simp del] scan_by_8.simps [simp del] scan_by_1.simps [simp del]
  is_complete_loop.simps [simp del] parse_token_loop.simps [simp del] skip_blanks.simps [simp del]

lemma parse_token_loop_cursor [cursor]: "parse_token_loop b i ch = PRet j \<Longrightarrow> i \<le> j \<and> j < length b"
proof (induction i rule: cursor_induct [of b])
  case (step i)
  then show ?case
    by (subst (asm) (2) parse_token_loop.simps) (auto simp: pres_iff split: if_splits)
qed

lemma skip_blanks_cursor [cursor]: "skip_blanks b i = PRet j \<Longrightarrow> i \<le> j \<and> j < length b"
proof (induction i rule: cursor_induct [of b])
  case (step i)
  then show ?case
    by (subst (asm) (2) skip_blanks.simps) (auto simp: pres_iff split: if_splits)
qed

lemma scan_by_1_cursor [cursor]: "scan_by_1 b i = PRet j \<Longrightarrow> i \<le> j \<and> j < length b"
proof (induction i rule: cursor_induct [of b])
  case (step i)
  then show ?case
    by (subst (asm) (2) scan_by_1.simps) (auto simp: pres_iff split: if_splits)
qed

lemma scan_by_8_cursor [cursor]: "scan_by_8 b i = PRet (f, j) \<Longrightarrow> i \<le> j \<and> (f \<longrightarrow> j < length b)"
proof (induction i rule: cursor_jump_induct [of b])
  case (step i)
  show ?case
  proof (cases "i + 8 \<le> length b")
    case True
    with step.prems obtain np k where k: "doit b i 8 = PRet (np, k)"
      and rest: "(if \<not> np then scan_by_8 b k else
            pbind (peek b k) (\<lambda>c. if found_ctl c then PRet (True, k) else scan_by_8 b (k + 1))) = PRet (f, j)"
      by (subst (asm) scan_by_8.simps) (auto simp: pres_iff)
    have "i \<le> k" "\<not> np \<Longrightarrow> k = i + 8" "np \<Longrightarrow> k < length b"
      using doit_cursor [OF k] by auto
    with rest True step.IH [of k] step.IH [of "k + 1"] show ?thesis
      by (auto simp: pres_iff split: if_splits)
  next
    case False
    with step.prems show ?thesis by (subst (asm) scan_by_8.simps) auto
  qed
qed

lemma get_token_to_eol_cursor [cursor]:
  "get_token_to_eol b i = PRet (v, n, j) \<Longrightarrow> v = i \<and> i + n < j \<and> j \<le> length b"
  by (auto simp: get_token_to_eol_def pres_iff Let_def dest!: scan_by_8_cursor scan_by_1_cursor split: if_splits prod.splits)

lemma set_header_PRet [pres_iff]:
  "set_header out f = (out', PRet u) \<longleftrightarrow>
     o_num_headers out < length (o_headers out) \<and>
     out' = out\<lparr>o_headers := (o_headers out)[o_num_headers out := f (o_headers out ! o_num_headers out)]\<rparr>"
  by (auto simp: set_header_def Let_def)

lemma parse_token_cursor [cursor]:
  "parse_token b i ch = PRet (t, n, j) \<Longrightarrow> t = i \<and> j = i + n \<and> j < length b"
  by (auto simp: parse_token_def findchar_fast_def pres_iff dest!: parse_token_loop_cursor)

lemma parse_header_name_cursor [cursor]:
  "parse_header_name b i out = (out', PRet j) \<Longrightarrow> i \<le> j \<and> j < length b"
  by (fastforce simp: parse_header_name_def pres_iff dest!: parse_token_cursor skip_blanks_cursor split: if_splits prod.splits)

lemma parse_header_value_cursor [cursor]:
  "parse_header_value b i out = (out', PRet j) \<Longrightarrow> i < j \<and> j \<le> length b"
  by (auto simp: parse_header_value_def pres_iff dest!: get_token_to_eol_cursor split: prod.splits)

function parse_headers :: "bytes \<Rightarrow> nat \<Rightarrow> phr_out \<Rightarrow> nat \<Rightarrow> phr_out \<times> nat pres" where
  "parse_headers b i out max_headers =
     sbind (out, CHECK_EOF b i) (\<lambda>out _.
     sbind (out, peek b i) (\<lambda>out c.
       if c = CR then (out, EXPECT_CHAR b (i + 1) LF)
       else if c = LF then (out, PRet (i + 1))
       else if o_num_headers out = max_headers then (out, PBad)
       else
         sbind (parse_header_name b i out) (\<lambda>out i.
         sbind (parse_header_value b i out) (\<lambda>out i.
           parse_headers b i (out\<lparr>o_num_headers := o_num_headers out + 1\<rparr>) max_headers))))"
  by pat_completeness auto
termination
  by (relation "measure (\<lambda>(b, i, out, m). length b - i)")
     (auto simp: pres_iff dest!: parse_header_name_cursor parse_header_value_cursor)

declare parse_headers.simps [simp del]

section \<open>parse_request, phr_parse_request, phr_parse_headers\<close>

definition skip_empty_line :: "bytes \<Rightarrow> nat \<Rightarrow> nat pres" where
  "skip_empty_line b i =
     pbind (CHECK_EOF b i) (\<lambda>_.
     pbind (peek b i) (\<lambda>c.
       if c = CR then EXPECT_CHAR b (i + 1) LF
       else if c = LF then PRet (i + 1)
       else PRet i))"

text \<open>The loop \<^verbatim>\<open>do { ++buf; CHECK_EOF(); } while (*buf == ' ')\<close>.\<close>

function skip_spaces :: "bytes \<Rightarrow> nat \<Rightarrow> nat pres" where
  "skip_spaces b i =
     pbind (CHECK_EOF b (i + 1)) (\<lambda>_.
     pbind (peek b (i + 1)) (\<lambda>c. if c = SP then skip_spaces b (i + 1) else PRet (i + 1)))"
  by pat_completeness auto
termination
  by (relation "measure (\<lambda>(b, i). length b - i)") (auto simp: pres_iff)

definition end_of_request_line :: "bytes \<Rightarrow> nat \<Rightarrow> nat pres" where
  "end_of_request_line b i =
     pbind (peek b i) (\<lambda>c.
       if c = CR then EXPECT_CHAR b (i + 1) LF
       else if c = LF then PRet (i + 1)
       else PBad)"

definition parse_request :: "bytes \<Rightarrow> nat \<Rightarrow> phr_out \<Rightarrow> nat \<Rightarrow> phr_out \<times> nat pres" where
  "parse_request b i out max_headers =
     sbind (out, skip_empty_line b i) (\<lambda>out i.
     sbind (out, parse_token b i SP) (\<lambda>out (method, method_len, i).
     let out = out\<lparr>o_method := Some method, o_method_len := method_len\<rparr> in
     sbind (out, skip_spaces b i) (\<lambda>out i.
     sbind (out, ADVANCE_TOKEN b i) (\<lambda>out (path, path_len, i).
     let out = out\<lparr>o_path := Some path, o_path_len := path_len\<rparr> in
     sbind (out, skip_spaces b i) (\<lambda>out i.
       if o_method_len out = 0 \<or> o_path_len out = 0 then (out, PBad)
       else
         sbind (out, parse_http_version b i) (\<lambda>out (minor_version, i).
         let out = out\<lparr>o_minor_version := minor_version\<rparr> in
         sbind (out, end_of_request_line b i) (\<lambda>out i.
           parse_headers b i out max_headers)))))))"

definition phr_parse_request :: "bytes \<Rightarrow> phr_out \<Rightarrow> nat \<Rightarrow> phr_out \<times> nat pres" where
  "phr_parse_request b out last_len =
     (let max_headers = o_num_headers out;
          out = out\<lparr>o_method := None, o_method_len := 0, o_path := None, o_path_len := 0,
                    o_minor_version := -1, o_num_headers := 0\<rparr>
      in sbind (out, if last_len \<noteq> 0 then is_complete b last_len else PRet 0) (\<lambda>out _.
           parse_request b 0 out max_headers))"

definition phr_parse_headers :: "bytes \<Rightarrow> phr_out \<Rightarrow> nat \<Rightarrow> phr_out \<times> nat pres" where
  "phr_parse_headers b out last_len =
     (let max_headers = o_num_headers out;
          out = out\<lparr>o_num_headers := 0\<rparr>
      in sbind (out, if last_len \<noteq> 0 then is_complete b last_len else PRet 0) (\<lambda>out _.
           parse_headers b 0 out max_headers))"

declare skip_spaces.simps [simp del]

end
