(* ===== verification/PicoSafety.thy ===== *)
theory PicoSafety
  imports PicoParser
begin

text \<open>
  Memory safety and progress of the request parser: started inside the buffer, no routine
  reads outside \<open>[buf, buf_end)\<close> or writes outside the caller's header array, and a routine that
  succeeds leaves the cursor inside the buffer. All loops are total functions.
\<close>

named_theorems no_fault \<open>routines that never read outside the buffer\<close>

section \<open>Scanners\<close>

lemma IS_PRINTABLE_ASCII_iff: "IS_PRINTABLE_ASCII c \<longleftrightarrow> 32 \<le> uchar c \<and> uchar c < 127"
proof -
  have u: "unat (word_of_nat (uchar c) :: 32 word) = uchar c"
    using uchar_less [of c] by (simp add: unat_of_nat take_bit_nat_eq_self)
  show ?thesis
  proof (cases "32 \<le> uchar c")
    case True
    then have "(32 :: 32 word) \<le> word_of_nat (uchar c)"
      using u by (simp add: word_le_nat_alt)
    then have "unat (word_of_nat (uchar c) - 32 :: 32 word) = uchar c - 32"
      using u by (simp add: unat_sub)
    with True show ?thesis
      by (simp add: IS_PRINTABLE_ASCII_def word_less_nat_alt) arith
  next
    case False
    have "unat (word_of_nat (uchar c) - 32 :: 32 word) = (2 ^ 32 + uchar c - 32) mod 2 ^ 32"
      using u False by (simp add: unat_sub_if')
    with False show ?thesis
      by (simp add: IS_PRINTABLE_ASCII_def word_less_nat_alt)
  qed
qed

lemma found_ctl_not_printable [simp]: "found_ctl c \<Longrightarrow> \<not> IS_PRINTABLE_ASCII c"
  by (auto simp: found_ctl_def IS_PRINTABLE_ASCII_iff uchar_def)

lemma advance_token_loop_cursor [cursor]: "advance_token_loop b i = PRet j \<Longrightarrow> i \<le> j \<and> j < length b \<and> b ! j = SP"
proof (induction i rule: cursor_induct [of b])
  case (step i)
  then show ?case
    by (subst (asm) (2) advance_token_loop.simps) (auto simp: pres_iff split: if_splits)
qed

lemma ADVANCE_TOKEN_cursor [cursor]:
  "ADVANCE_TOKEN b i = PRet (t, n, j) \<Longrightarrow> t = i \<and> j = i + n \<and> j < length b"
  by (auto simp: ADVANCE_TOKEN_def findchar_fast_def pres_iff dest!: advance_token_loop_cursor)

lemma skip_spaces_cursor [cursor]: "skip_spaces b i = PRet j \<Longrightarrow> i < j \<and> j < length b"
proof (induction i rule: cursor_induct [of b])
  case (step i)
  then show ?case
    by (subst (asm) (2) skip_spaces.simps) (auto simp: pres_iff split: if_splits)
qed

lemma skip_empty_line_cursor [cursor]: "skip_empty_line b i = PRet j \<Longrightarrow> i \<le> j \<and> j \<le> length b"
  by (auto simp: skip_empty_line_def pres_iff split: if_splits)

lemma end_of_request_line_cursor [cursor]: "end_of_request_line b i = PRet j \<Longrightarrow> i < j \<and> j \<le> length b"
  by (auto simp: end_of_request_line_def pres_iff split: if_splits)

lemma parse_http_version_cursor [cursor]: "parse_http_version b i = PRet (v, j) \<Longrightarrow> j = i + 8 \<and> j < length b"
  by (auto simp: parse_http_version_def PARSE_INT_def pres_iff split: if_splits)

lemma advance_token_loop_no_fault [no_fault]: "i < length b \<Longrightarrow> advance_token_loop b i \<noteq> PFault"
proof (induction i rule: cursor_induct [of b])
  case (step i)
  then show ?case
    by (subst advance_token_loop.simps) (auto simp: pres_iff)
qed

lemma parse_token_loop_no_fault [no_fault]: "i < length b \<Longrightarrow> parse_token_loop b i ch \<noteq> PFault"
proof (induction i rule: cursor_induct [of b])
  case (step i)
  then show ?case
    by (subst parse_token_loop.simps) (auto simp: pres_iff)
qed

lemma skip_blanks_no_fault [no_fault]: "i \<le> length b \<Longrightarrow> skip_blanks b i \<noteq> PFault"
proof (induction i rule: cursor_induct [of b])
  case (step i)
  then show ?case
    by (subst skip_blanks.simps) (auto simp: pres_iff)
qed

lemma skip_spaces_no_fault [no_fault]: "i < length b \<Longrightarrow> skip_spaces b i \<noteq> PFault"
proof (induction i rule: cursor_induct [of b])
  case (step i)
  then show ?case
    by (subst skip_spaces.simps) (auto simp: pres_iff)
qed

lemma scan_by_1_no_fault [no_fault]: "i \<le> length b \<Longrightarrow> scan_by_1 b i \<noteq> PFault"
proof (induction i rule: cursor_induct [of b])
  case (step i)
  then show ?case
    by (subst scan_by_1.simps) (auto simp: pres_iff)
qed

section \<open>The unrolled line scanner\<close>

text \<open>
  The eight-at-a-time loop is an optimisation: followed by the bytewise loop it finds the same
  control character as the bytewise loop alone.
\<close>

lemma doit_scan:
  "i + k \<le> length b \<Longrightarrow>
   \<exists>np j. doit b i k = PRet (np, j) \<and> i \<le> j \<and> (\<not> np \<longrightarrow> j = i + k) \<and> (np \<longrightarrow> j < i + k) \<and> scan_by_1 b i = scan_by_1 b j"
proof (induction k arbitrary: i)
  case 0
  then show ?case by auto
next
  case (Suc k)
  show ?case
  proof (cases "IS_PRINTABLE_ASCII (b ! i)")
    case True
    have "scan_by_1 b i = scan_by_1 b (i + 1)"
      using Suc.prems True by (subst scan_by_1.simps) (simp add: CHECK_EOF_def)
    then show ?thesis using Suc.IH [of "i + 1"] Suc.prems True by fastforce
  next
    case False
    then show ?thesis using Suc.prems by auto
  qed
qed

lemma scan_by_8_scan:
  "i \<le> length b \<Longrightarrow> \<exists>f j. scan_by_8 b i = PRet (f, j) \<and> i \<le> j \<and> j \<le> length b \<and>
     scan_by_1 b i = (if f then PRet j else scan_by_1 b j)"
proof (induction i rule: cursor_jump_induct [of b])
  case (step i)
  show ?case
  proof (cases "i + 8 \<le> length b")
    case True
    then obtain np k where k: "doit b i 8 = PRet (np, k)" "i \<le> k" "\<not> np \<longrightarrow> k = i + 8" "np \<longrightarrow> k < i + 8"
      "scan_by_1 b i = scan_by_1 b k" using doit_scan [of i 8 b] by auto
    show ?thesis
    proof (cases np)
      case False
      with k True have "scan_by_8 b i = scan_by_8 b k"
        by (subst scan_by_8.simps) simp
      moreover obtain f j where "scan_by_8 b k = PRet (f, j)" "k \<le> j" "j \<le> length b"
          "scan_by_1 b k = (if f then PRet j else scan_by_1 b j)"
        using step.IH [of k] k False True by auto
      ultimately show ?thesis using k by (intro exI [of _ f] exI [of _ j] conjI) simp_all
    next
      case np: True
      with k True have lt: "k < length b" by simp
      have s1: "scan_by_1 b k = (if found_ctl (b ! k) then PRet k else scan_by_1 b (k + 1))"
        using lt by (subst scan_by_1.simps) (simp add: CHECK_EOF_def)
      have s8: "scan_by_8 b i = (if found_ctl (b ! k) then PRet (True, k) else scan_by_8 b (k + 1))"
        using k np True lt by (subst scan_by_8.simps) simp
      show ?thesis
      proof (cases "found_ctl (b ! k)")
        case True
        with s1 s8 k lt show ?thesis by auto
      next
        case False
        moreover obtain f j where "scan_by_8 b (k + 1) = PRet (f, j)" "k + 1 \<le> j" "j \<le> length b"
          "scan_by_1 b (k + 1) = (if f then PRet j else scan_by_1 b j)"
          using step.IH [of "k + 1"] k lt by auto
        ultimately show ?thesis using s1 s8 k by (intro exI [of _ f] exI [of _ j]) auto
      qed
    qed
  next
    case False
    with step.prems show ?thesis by (subst scan_by_8.simps) auto
  qed
qed

text \<open>The bytewise reference of \<^verbatim>\<open>get_token_to_eol\<close>.\<close>

definition get_token_to_eol_ref :: "bytes \<Rightarrow> nat \<Rightarrow> (nat \<times> nat \<times> nat) pres" where
  "get_token_to_eol_ref b i =
     pbind (scan_by_1 b i) (\<lambda>k.
     pbind (peek b k) (\<lambda>c.
       if c = CR then pbind (EXPECT_CHAR b (k + 1) LF) (\<lambda>j. PRet (i, k - i, j))
       else if c = LF then PRet (i, k - i, k + 1)
       else PBad))"

lemma get_token_to_eol_eq_ref:
  assumes "i \<le> length b"
  shows "get_token_to_eol b i = get_token_to_eol_ref b i"
proof -
  obtain f j where "scan_by_8 b i = PRet (f, j)" "scan_by_1 b i = (if f then PRet j else scan_by_1 b j)"
    using scan_by_8_scan [OF assms] by auto
  then have "get_token_to_eol b i = pbind (scan_by_1 b i) (\<lambda>k.
     pbind (peek b k) (\<lambda>c.
       if c = CR then pbind (EXPECT_CHAR b (k + 1) LF) (\<lambda>j. PRet (i, j - 2 - i, j))
       else if c = LF then PRet (i, k - i, k + 1)
       else PBad))"
    by (simp add: get_token_to_eol_def Let_def)
  also have "\<dots> = get_token_to_eol_ref b i"
    unfolding get_token_to_eol_ref_def
    by (intro pbind_cong refl if_cong) (auto simp: pres_iff)
  finally show ?thesis .
qed

lemma get_token_to_eol_no_fault [no_fault]: "i \<le> length b \<Longrightarrow> get_token_to_eol b i \<noteq> PFault"
  by (auto simp: get_token_to_eol_eq_ref get_token_to_eol_ref_def pres_iff no_fault
      dest: scan_by_1_cursor split: if_splits)

section \<open>Header loop and request\<close>

lemma is_complete_loop_no_fault [no_fault]: "i \<le> length b \<Longrightarrow> is_complete_loop b i n \<noteq> PFault"
proof (induction i arbitrary: n rule: cursor_jump_induct [of b])
  case (step i)
  then show ?case
    by (subst is_complete_loop.simps) (auto simp: pres_iff split: if_splits)
qed

lemma is_complete_no_fault [no_fault]: "last_len \<le> length b + 3 \<Longrightarrow> is_complete b last_len \<noteq> PFault"
  by (simp add: is_complete_def no_fault)

lemma trim_value_no_fault [no_fault]: "v + n \<le> length b \<Longrightarrow> trim_value b v n \<noteq> PFault"
  by (induction n) (auto simp: pres_iff)

lemma set_header_no_fault [no_fault]: "o_num_headers out < length (o_headers out) \<Longrightarrow> snd (set_header out f) \<noteq> PFault"
  by (simp add: set_header_def Let_def)

lemma parse_token_no_fault [no_fault]: "i \<le> length b \<Longrightarrow> parse_token b i ch \<noteq> PFault"
  by (auto simp: parse_token_def findchar_fast_def pres_iff no_fault)

lemma ADVANCE_TOKEN_no_fault [no_fault]: "i \<le> length b \<Longrightarrow> ADVANCE_TOKEN b i \<noteq> PFault"
  by (auto simp: ADVANCE_TOKEN_def findchar_fast_def pres_iff no_fault)

lemma skip_empty_line_no_fault [no_fault]: "i \<le> length b \<Longrightarrow> skip_empty_line b i \<noteq> PFault"
  by (auto simp: skip_empty_line_def pres_iff split: if_splits)

lemma end_of_request_line_no_fault [no_fault]: "i < length b \<Longrightarrow> end_of_request_line b i \<noteq> PFault"
  by (auto simp: end_of_request_line_def pres_iff split: if_splits)

lemma parse_http_version_no_fault [no_fault]: "parse_http_version b i \<noteq> PFault"
  by (auto simp: parse_http_version_def PARSE_INT_def EXPECT_CHAR_NO_CHECK_def pres_iff split: if_splits)

text \<open>What the two halves of a header iteration keep of the out-parameters.\<close>

definition same_array :: "phr_out \<Rightarrow> phr_out \<Rightarrow> bool" where
  "same_array out out' \<longleftrightarrow>
     o_num_headers out' = o_num_headers out \<and> length (o_headers out') = length (o_headers out)"

lemma set_header_same_array [simp, intro]: "same_array out (fst (set_header out f))"
  by (simp add: same_array_def set_header_def Let_def)

lemma sbind_fst: "P (fst m) \<Longrightarrow> (\<And>s x. m = (s, PRet x) \<Longrightarrow> P s \<Longrightarrow> P (fst (f s x))) \<Longrightarrow> P (fst (sbind m f))"
  by (auto simp: sbind_def split: prod.splits pres.splits)

lemma same_array_refl [simp]: "same_array out out"
  by (simp add: same_array_def)

lemma same_array_trans: "same_array a b \<Longrightarrow> same_array b c \<Longrightarrow> same_array a c"
  by (simp add: same_array_def)

lemma same_array_set_header [intro]: "same_array a b \<Longrightarrow> same_array a (fst (set_header b f))"
  using set_header_same_array same_array_trans by blast

lemma parse_header_name_same_array: "same_array out (fst (parse_header_name b i out))"
  unfolding parse_header_name_def
  by (auto intro!: sbind_fst [where P = "same_array out"] split: prod.splits)

lemma parse_header_value_same_array: "same_array out (fst (parse_header_value b i out))"
  unfolding parse_header_value_def
  by (auto intro!: sbind_fst [where P = "same_array out"] split: prod.splits)

lemma parse_header_name_no_fault [no_fault]:
  "i < length b \<Longrightarrow> o_num_headers out < length (o_headers out) \<Longrightarrow> snd (parse_header_name b i out) \<noteq> PFault"
  by (auto simp: parse_header_name_def pres_iff no_fault dest!: parse_token_cursor split: if_splits prod.splits)

lemma parse_header_value_no_fault [no_fault]:
  "i \<le> length b \<Longrightarrow> o_num_headers out < length (o_headers out) \<Longrightarrow> snd (parse_header_value b i out) \<noteq> PFault"
  by (auto simp: parse_header_value_def pres_iff no_fault dest!: get_token_to_eol_cursor split: if_splits prod.splits)

lemma parse_headers_unfold:
  "i < length b \<Longrightarrow> parse_headers b i out m =
     (if b ! i = CR then (out, EXPECT_CHAR b (i + 1) LF)
      else if b ! i = LF then (out, PRet (i + 1))
      else if o_num_headers out = m then (out, PBad)
      else
        sbind (parse_header_name b i out) (\<lambda>out i.
        sbind (parse_header_value b i out) (\<lambda>out i.
          parse_headers b i (out\<lparr>o_num_headers := o_num_headers out + 1\<rparr>) m)))"
  by (subst parse_headers.simps) (simp add: CHECK_EOF_def)

lemma parse_headers_at_end: "parse_headers b (length b) out m = (out, PPartial)"
  by (subst parse_headers.simps) (simp add: CHECK_EOF_def)

lemma parse_headers_no_fault [no_fault]:
  "i \<le> length b \<Longrightarrow> o_num_headers out \<le> m \<Longrightarrow> m \<le> length (o_headers out) \<Longrightarrow> snd (parse_headers b i out m) \<noteq> PFault"
proof (induction i arbitrary: out rule: cursor_jump_induct [of b])
  case (step i)
  show ?case
  proof
    assume f: "snd (parse_headers b i out m) = PFault"
    with step.prems have lt: "i < length b"
      by (cases "i = length b") (auto simp: parse_headers_at_end)
    with f step.prems have "o_num_headers out < m" and
      f': "snd (sbind (parse_header_name b i out) (\<lambda>out i.
         sbind (parse_header_value b i out) (\<lambda>out i.
           parse_headers b i (out\<lparr>o_num_headers := o_num_headers out + 1\<rparr>) m))) = PFault"
      by (auto simp: parse_headers_unfold pres_iff split: if_splits)
    with step.prems lt obtain out1 j where n: "parse_header_name b i out = (out1, PRet j)" and
      f1: "snd (sbind (parse_header_value b j out1) (\<lambda>out i.
           parse_headers b i (out\<lparr>o_num_headers := o_num_headers out + 1\<rparr>) m)) = PFault"
      by (auto simp: pres_iff no_fault)
    have j: "i \<le> j" "j < length b" and a1: "same_array out out1"
      using parse_header_name_cursor [OF n] parse_header_name_same_array [of out b i] n by auto
    with step.prems \<open>o_num_headers out < m\<close> f1 obtain out2 k
      where v: "parse_header_value b j out1 = (out2, PRet k)" and
      f2: "snd (parse_headers b k (out2\<lparr>o_num_headers := o_num_headers out2 + 1\<rparr>) m) = PFault"
      by (auto simp: pres_iff no_fault same_array_def)
    have "j < k" "k \<le> length b" and a2: "same_array out1 out2"
      using parse_header_value_cursor [OF v] parse_header_value_same_array [of out1 b j] v by auto
    with a1 j lt \<open>o_num_headers out < m\<close> step.prems f2 show False
      using step.IH [of k "out2\<lparr>o_num_headers := o_num_headers out2 + 1\<rparr>"] by (simp add: same_array_def)
  qed
qed

lemma parse_request_no_fault [no_fault]:
  "i \<le> length b \<Longrightarrow> o_num_headers out \<le> m \<Longrightarrow> m \<le> length (o_headers out) \<Longrightarrow> snd (parse_request b i out m) \<noteq> PFault"
  by (auto simp: parse_request_def pres_iff no_fault Let_def
      dest!: skip_empty_line_cursor parse_token_cursor skip_spaces_cursor ADVANCE_TOKEN_cursor
        parse_http_version_cursor end_of_request_line_cursor split: if_splits)

lemma parse_headers_bounds:
  "parse_headers b i out m = (out', PRet j) \<Longrightarrow> o_num_headers out \<le> m \<Longrightarrow>
     i < j \<and> j \<le> length b \<and> o_num_headers out \<le> o_num_headers out' \<and> o_num_headers out' \<le> m \<and>
     length (o_headers out') = length (o_headers out)"
proof (induction i arbitrary: out rule: cursor_jump_induct [of b])
  case (step i)
  from step.prems(1) have lt: "i < length b"
    by (subst (asm) parse_headers.simps) (auto simp: pres_iff)
  show ?case
  proof (cases "b ! i = CR \<or> b ! i = LF")
    case True
    with step.prems lt show ?thesis by (auto simp: parse_headers_unfold pres_iff)
  next
    case False
    with step.prems lt obtain out1 k out2 l where "o_num_headers out < m"
      and n: "parse_header_name b i out = (out1, PRet k)"
      and v: "parse_header_value b k out1 = (out2, PRet l)"
      and r: "parse_headers b l (out2\<lparr>o_num_headers := o_num_headers out2 + 1\<rparr>) m = (out', PRet j)"
      by (auto simp: parse_headers_unfold pres_iff split: if_splits)
    moreover have "same_array out out1" "same_array out1 out2"
      using parse_header_name_same_array [of out b i] n parse_header_value_same_array [of out1 b k] v by auto
    moreover have "i < l"
      using parse_header_name_cursor [OF n] parse_header_value_cursor [OF v] by simp
    ultimately show ?thesis
      using step.IH [OF lt _ r] by (simp add: same_array_def)
  qed
qed

lemma phr_parse_request_no_fault:
  "o_num_headers out \<le> length (o_headers out) \<Longrightarrow> l \<le> length b + 3 \<Longrightarrow> snd (phr_parse_request b out l) \<noteq> PFault"
  by (auto simp: phr_parse_request_def Let_def pres_iff no_fault)

end
