(* ===== verification/PicoGrammar.thy ===== *)
theory PicoGrammar
  imports PicoSafety
begin

text \<open>
  What the request parser accepts: the bytes between the cursors of a successful routine, the
  shape of an accepted request (soundness), and that every well-formed request is accepted with
  exactly its own fields (round trip).
\<close>

section \<open>Contents of the spans\<close>

definition span :: "bytes \<Rightarrow> nat \<Rightarrow> nat \<Rightarrow> (char \<Rightarrow> bool) \<Rightarrow> bool" where
  "span b i j P \<longleftrightarrow> (\<forall>k. i \<le> k \<and> k < j \<longrightarrow> P (b ! k))"

lemma span_empty [simp]: "j \<le> i \<Longrightarrow> span b i j P"
  by (auto simp: span_def)

lemma span_Cons:
  assumes "i < j"
  shows "span b i j P \<longleftrightarrow> P (b ! i) \<and> span b (Suc i) j P"
proof -
  have *: "i \<le> k \<longleftrightarrow> k = i \<or> Suc i \<le> k" for k by auto
  from assms show ?thesis unfolding span_def * by blast
qed

lemma span_mono: "span b i j P \<Longrightarrow> (\<And>c. P c \<Longrightarrow> Q c) \<Longrightarrow> span b i j Q"
  by (auto simp: span_def)

lemma span_bslice: "span b i (i + n) P \<Longrightarrow> i + n \<le> length b \<Longrightarrow> \<forall>c \<in> set (bslice b i n). P c"
  by (rule set_bsliceI) (auto simp: span_def)

definition path_char :: "char \<Rightarrow> bool" where
  "path_char c \<longleftrightarrow> 32 < uchar c \<and> uchar c \<noteq> 127"

lemma uchar_SP: "uchar SP = 32"
  by (simp add: uchar_def)

lemma uchar_DEL: "uchar (CHR 0x7F) = 127"
  by (simp add: uchar_def)

lemma advance_token_loop_span:
  "advance_token_loop b i = PRet j \<Longrightarrow> span b i j path_char \<and> b ! j = SP"
proof (induction i rule: cursor_induct [of b])
  case (step i)
  have p: "path_char c \<longleftrightarrow> c \<noteq> SP \<and> \<not> (\<not> IS_PRINTABLE_ASCII c \<and> (uchar c < 32 \<or> c = CHR 0x7F))" for c
  proof -
    have "c = SP \<longleftrightarrow> uchar c = 32" and "c = CHR 0x7F \<longleftrightarrow> uchar c = 127"
      by (metis uchar_inject uchar_SP) (metis uchar_inject uchar_DEL)
    then show ?thesis by (auto simp: path_char_def IS_PRINTABLE_ASCII_iff)
  qed
  from step show ?case
    by (subst (asm) (2) advance_token_loop.simps)
       (auto simp: pres_iff p span_Cons dest: advance_token_loop_cursor split: if_splits)
qed

lemma parse_token_loop_span:
  "parse_token_loop b i ch = PRet j \<Longrightarrow> span b i j (\<lambda>c. token_char c \<and> c \<noteq> ch) \<and> b ! j = ch"
proof (induction i rule: cursor_induct [of b])
  case (step i)
  from step show ?case
    by (subst (asm) (2) parse_token_loop.simps)
       (auto simp: pres_iff span_Cons dest: parse_token_loop_cursor split: if_splits)
qed

lemma skip_blanks_span: "skip_blanks b i = PRet j \<Longrightarrow> span b i j blank \<and> \<not> blank (b ! j)"
proof (induction i rule: cursor_induct [of b])
  case (step i)
  from step show ?case
    by (subst (asm) (2) skip_blanks.simps)
       (auto simp: pres_iff span_Cons dest: skip_blanks_cursor split: if_splits)
qed

lemma skip_spaces_span: "skip_spaces b i = PRet j \<Longrightarrow> span b (Suc i) j (\<lambda>c. c = SP) \<and> b ! j \<noteq> SP"
proof (induction i rule: cursor_induct [of b])
  case (step i)
  from step show ?case
    by (subst (asm) (2) skip_spaces.simps)
       (auto simp: pres_iff span_Cons dest: skip_spaces_cursor split: if_splits)
qed

lemma printable_not_found_ctl: "IS_PRINTABLE_ASCII c \<Longrightarrow> \<not> found_ctl c"
  by auto

lemma scan_by_1_span: "scan_by_1 b i = PRet j \<Longrightarrow> span b i j (\<lambda>c. \<not> found_ctl c) \<and> found_ctl (b ! j)"
proof (induction i rule: cursor_induct [of b])
  case (step i)
  from step.prems have lt: "i < length b"
    by (subst (asm) scan_by_1.simps) (auto simp: pres_iff)
  have "scan_by_1 b i = (if found_ctl (b ! i) then PRet i else scan_by_1 b (Suc i))"
    using lt by (subst scan_by_1.simps) (simp add: CHECK_EOF_def)
  with step lt show ?case
    by (auto simp: span_Cons Suc_le_eq dest: scan_by_1_cursor split: if_splits)
qed

text \<open>A line end at offset \<open>k\<close>: one LF, or CR and LF; \<open>j\<close> is the offset behind it.\<close>

definition eol :: "bytes \<Rightarrow> nat \<Rightarrow> nat \<Rightarrow> bool" where
  "eol b k j \<longleftrightarrow> (b ! k = LF \<and> j = k + 1 \<or> b ! k = CR \<and> b ! (k + 1) = LF \<and> j = k + 2) \<and> j \<le> length b"

lemma get_token_to_eol_span:
  assumes "get_token_to_eol b i = PRet (v, n, j)"
  shows "v = i" and "span b i (i + n) (\<lambda>c. \<not> found_ctl c)" and "eol b (i + n) j"
proof -
  have "i \<le> length b" using get_token_to_eol_cursor [OF assms] by simp
  with assms have "get_token_to_eol_ref b i = PRet (v, n, j)"
    by (simp add: get_token_to_eol_eq_ref)
  then obtain k where k: "scan_by_1 b i = PRet k" and "k < length b" and
    "(if b ! k = CR then pbind (EXPECT_CHAR b (k + 1) LF) (\<lambda>j. PRet (i, k - i, j))
      else if b ! k = LF then PRet (i, k - i, k + 1) else PBad) = PRet (v, n, j)"
    unfolding get_token_to_eol_ref_def by (simp only: pres_iff) blast
  then have "v = i" "n = k - i" "eol b k j"
    by (auto simp: pres_iff eol_def split: if_splits)
  moreover have "i + n = k" using scan_by_1_cursor [OF k] \<open>n = k - i\<close> by simp
  ultimately show "v = i" "span b i (i + n) (\<lambda>c. \<not> found_ctl c)" "eol b (i + n) j"
    using scan_by_1_span [OF k] by simp_all
qed

lemma end_of_request_line_eol: "end_of_request_line b i = PRet j \<Longrightarrow> eol b i j"
  by (auto simp: end_of_request_line_def pres_iff eol_def split: if_splits)

lemma trim_value_span:
  "trim_value b v n = PRet m \<Longrightarrow> m \<le> n \<and> span b (v + m) (v + n) blank \<and> (m \<noteq> 0 \<longrightarrow> \<not> blank (b ! (v + m - 1)))"
proof (induction n)
  case 0
  then show ?case by simp
next
  case (Suc n)
  then show ?case
    by (cases "blank (b ! (v + n))") (auto simp: pres_iff span_def less_Suc_eq)
qed

section \<open>Soundness\<close>

definition name_ok :: "bytes \<Rightarrow> phr_header \<Rightarrow> bool" where
  "name_ok b h \<longleftrightarrow> (case h_name h of
     None \<Rightarrow> h_name_len h = 0
   | Some s \<Rightarrow> 0 < h_name_len h \<and> s + h_name_len h \<le> length b \<and>
       (\<forall>c \<in> set (bslice b s (h_name_len h)). token_char c))"

definition value_ok :: "bytes \<Rightarrow> nat \<Rightarrow> nat \<Rightarrow> bool" where
  "value_ok b v n \<longleftrightarrow> v + n \<le> length b \<and> (\<forall>c \<in> set (bslice b v n). \<not> found_ctl c) \<and>
     (n \<noteq> 0 \<longrightarrow> \<not> blank (b ! (v + n - 1)))"

definition header_ok :: "bytes \<Rightarrow> phr_header \<Rightarrow> bool" where
  "header_ok b h \<longleftrightarrow> name_ok b h \<and> (\<exists>v. h_value h = Some v \<and> value_ok b v (h_value_len h))"

definition put_header :: "phr_out \<Rightarrow> phr_header \<Rightarrow> phr_out" where
  "put_header out h = out\<lparr>o_headers := (o_headers out)[o_num_headers out := h]\<rparr>"

lemma parse_token_PRet_iff:
  "parse_token b i ch = PRet (t, n, j) \<longleftrightarrow> parse_token_loop b i ch = PRet j \<and> t = i \<and> n = j - i"
  using parse_token_loop_cursor [of b i ch j]
  by (simp add: parse_token_def findchar_fast_def pres_iff) linarith

lemma ADVANCE_TOKEN_PRet_iff:
  "ADVANCE_TOKEN b i = PRet (t, n, j) \<longleftrightarrow> advance_token_loop b i = PRet j \<and> t = i \<and> n = j - i"
  using advance_token_loop_cursor [of b i j]
  by (simp add: ADVANCE_TOKEN_def findchar_fast_def pres_iff) linarith

lemma parse_token_ok:
  assumes "parse_token b i ch = PRet (t, n, j)"
  shows "t = i" "j = i + n" "j < length b" "b ! j = ch" "\<forall>c \<in> set (bslice b i n). token_char c \<and> c \<noteq> ch"
proof -
  from assms have k: "parse_token_loop b i ch = PRet j" "t = i" "n = j - i"
    by (simp_all add: parse_token_PRet_iff)
  note cur = parse_token_loop_cursor [OF k(1)] and sp = parse_token_loop_span [OF k(1)]
  from k cur sp show "t = i" "j = i + n" "j < length b" "b ! j = ch" by simp_all
  from k(3) cur sp show "\<forall>c \<in> set (bslice b i n). token_char c \<and> c \<noteq> ch"
    by (intro span_bslice) simp_all
qed

lemma ADVANCE_TOKEN_ok:
  assumes "ADVANCE_TOKEN b i = PRet (t, n, j)"
  shows "t = i" "j = i + n" "j < length b" "b ! j = SP" "\<forall>c \<in> set (bslice b i n). path_char c"
proof -
  from assms have k: "advance_token_loop b i = PRet j" "t = i" "n = j - i"
    by (simp_all add: ADVANCE_TOKEN_PRet_iff)
  note cur = advance_token_loop_cursor [OF k(1)] and sp = advance_token_loop_span [OF k(1)]
  from k cur sp show "t = i" "j = i + n" "j < length b" "b ! j = SP" by simp_all
  from k(3) cur sp show "\<forall>c \<in> set (bslice b i n). path_char c"
    by (intro span_bslice) simp_all
qed

lemma parse_header_name_ok:
  assumes "parse_header_name b i out = (out1, PRet k)"
  shows "\<exists>h. o_num_headers out < length (o_headers out) \<and> name_ok b h \<and> out1 = put_header out h"
proof (cases "o_num_headers out \<noteq> 0 \<and> blank (b ! i)")
  case True
  with assms show ?thesis
    by (intro exI [of _ "(o_headers out ! o_num_headers out)\<lparr>h_name := None, h_name_len := 0\<rparr>"])
       (auto simp: parse_header_name_def pres_iff name_ok_def put_header_def)
next
  case False
  with assms obtain s n j where t: "parse_token b i (CHR '':'') = PRet (s, n, j)" and "n \<noteq> 0"
    "o_num_headers out < length (o_headers out)"
    "out1 = put_header out ((o_headers out ! o_num_headers out)\<lparr>h_name := Some s, h_name_len := n\<rparr>)"
    by (auto simp: parse_header_name_def pres_iff put_header_def split: if_splits)
  with parse_token_ok [OF t] show ?thesis
    by (intro exI [of _ "(o_headers out ! o_num_headers out)\<lparr>h_name := Some s, h_name_len := n\<rparr>"])
       (auto simp: name_ok_def)
qed

lemma parse_header_value_ok:
  assumes "parse_header_value b i out = (out1, PRet k)"
  shows "\<exists>v n. o_num_headers out < length (o_headers out) \<and> value_ok b v n \<and>
    out1 = put_header out ((o_headers out ! o_num_headers out)\<lparr>h_value := Some v, h_value_len := n\<rparr>)"
proof -
  from assms obtain v l n where g: "get_token_to_eol b i = PRet (v, l, k)" and
    t: "trim_value b v l = PRet n" and "o_num_headers out < length (o_headers out)"
    "out1 = put_header out ((o_headers out ! o_num_headers out)\<lparr>h_value := Some v, h_value_len := n\<rparr>)"
    by (auto simp: parse_header_value_def pres_iff put_header_def)
  moreover have "value_ok b v n"
  proof -
    have le: "n \<le> l" and "n \<noteq> 0 \<longrightarrow> \<not> blank (b ! (v + n - 1))"
      using trim_value_span [OF t] by auto
    moreover have "v + l \<le> length b" "v = i" using get_token_to_eol_cursor [OF g] by auto
    moreover have "span b v (v + n) (\<lambda>c. \<not> found_ctl c)"
      using get_token_to_eol_span [OF g] le by (auto simp: span_def)
    ultimately show ?thesis
      by (auto simp: value_ok_def dest: span_bslice)
  qed
  ultimately show ?thesis by blast
qed

lemma header_iteration:
  assumes "parse_header_name b i out = (out1, PRet k)" and "parse_header_value b k out1 = (out2, PRet l)"
  shows "\<exists>h. o_num_headers out < length (o_headers out) \<and> header_ok b h \<and> out2 = put_header out h"
proof -
  obtain h where h: "o_num_headers out < length (o_headers out)" "name_ok b h" "out1 = put_header out h"
    using parse_header_name_ok [OF assms(1)] by blast
  obtain v n where "value_ok b v n"
    "out2 = put_header out1 ((o_headers out1 ! o_num_headers out1)\<lparr>h_value := Some v, h_value_len := n\<rparr>)"
    using parse_header_value_ok [OF assms(2)] by blast
  with h show ?thesis
    by (intro exI [of _ "h\<lparr>h_value := Some v, h_value_len := n\<rparr>"])
       (auto simp: put_header_def header_ok_def name_ok_def split: option.splits)
qed

lemma put_header_frame [simp]:
  "o_method (put_header out h) = o_method out" "o_method_len (put_header out h) = o_method_len out"
  "o_path (put_header out h) = o_path out" "o_path_len (put_header out h) = o_path_len out"
  "o_minor_version (put_header out h) = o_minor_version out"
  "o_num_headers (put_header out h) = o_num_headers out"
  "o_headers (put_header out h) = (o_headers out)[o_num_headers out := h]"
  by (simp_all add: put_header_def)

text \<open>
  The result of the header loop as an inductive invariant: what holds of the out-parameters
  before a successful run, and is kept by filling in one good header, holds afterwards.
\<close>

lemma parse_headers_inv:
  assumes keep: "\<And>out h. P out \<Longrightarrow> o_num_headers out < length (o_headers out) \<Longrightarrow> header_ok b h \<Longrightarrow>
      P ((put_header out h)\<lparr>o_num_headers := o_num_headers out + 1\<rparr>)"
  shows "parse_headers b i out m = (out', PRet j) \<Longrightarrow> P out \<Longrightarrow> P out'"
proof (induction i arbitrary: out rule: cursor_jump_induct [of b])
  case (step i)
  from step.prems(1) have lt: "i < length b"
    by (subst (asm) parse_headers.simps) (auto simp: pres_iff)
  show ?case
  proof (cases "b ! i = CR \<or> b ! i = LF")
    case True
    with step.prems lt show ?thesis by (auto simp: parse_headers_unfold pres_iff)
  next
    case False
    with step.prems lt obtain out1 k out2 l where n: "parse_header_name b i out = (out1, PRet k)"
      and v: "parse_header_value b k out1 = (out2, PRet l)"
      and r: "parse_headers b l (out2\<lparr>o_num_headers := o_num_headers out2 + 1\<rparr>) m = (out', PRet j)"
      by (auto simp: parse_headers_unfold pres_iff split: if_splits)
    obtain h where h: "o_num_headers out < length (o_headers out)" "header_ok b h" "out2 = put_header out h"
      using header_iteration [OF n v] by blast
    moreover have "i < l"
      using parse_header_name_cursor [OF n] parse_header_value_cursor [OF v] by simp
    ultimately show ?thesis
      using step.IH [OF lt _ r] keep [OF step.prems(2)] by simp
  qed
qed

definition headers_ok :: "bytes \<Rightarrow> phr_out \<Rightarrow> bool" where
  "headers_ok b out \<longleftrightarrow> o_num_headers out \<le> length (o_headers out) \<and>
     (\<forall>k < o_num_headers out. header_ok b (o_headers out ! k))"

lemma parse_headers_headers_ok: "parse_headers b i out m = (out', PRet j) \<Longrightarrow> headers_ok b out \<Longrightarrow> headers_ok b out'"
  by (rule parse_headers_inv [where P = "headers_ok b"]) (auto simp: headers_ok_def less_Suc_eq)

lemma parse_headers_frame:
  assumes "parse_headers b i out m = (out', PRet j)"
  shows "o_method out' = o_method out" "o_method_len out' = o_method_len out" "o_path out' = o_path out"
    "o_path_len out' = o_path_len out" "o_minor_version out' = o_minor_version out"
proof -
  let ?f = "\<lambda>x. (o_method x, o_method_len x, o_path x, o_path_len x, o_minor_version x)"
  have "?f out' = ?f out"
    by (rule parse_headers_inv [where P = "\<lambda>x. ?f x = ?f out", OF _ assms]) auto
  then show "o_method out' = o_method out" "o_method_len out' = o_method_len out" "o_path out' = o_path out"
    "o_path_len out' = o_path_len out" "o_minor_version out' = o_minor_version out" by simp_all
qed

lemma parse_http_version_digit: "parse_http_version b i = PRet (v, j) \<Longrightarrow> 0 \<le> v \<and> v \<le> 9"
  by (auto simp: parse_http_version_def PARSE_INT_def pres_iff split: if_splits)

text \<open>A request the parser accepted, seen through the out-parameters.\<close>

definition request_ok :: "bytes \<Rightarrow> phr_out \<Rightarrow> bool" where
  "request_ok b out \<longleftrightarrow>
     (\<exists>m. o_method out = Some m \<and> 0 < o_method_len out \<and> m + o_method_len out \<le> length b \<and>
        (\<forall>c \<in> set (bslice b m (o_method_len out)). token_char c)) \<and>
     (\<exists>p. o_path out = Some p \<and> 0 < o_path_len out \<and> p + o_path_len out \<le> length b \<and>
        (\<forall>c \<in> set (bslice b p (o_path_len out)). path_char c)) \<and>
     0 \<le> o_minor_version out \<and> o_minor_version out \<le> 9 \<and> headers_ok b out"

text \<open>The steps of a successful \<^verbatim>\<open>parse_request\<close>.\<close>

lemma parse_request_steps:
  assumes "parse_request b i out m = (out', PRet n)"
  obtains i1 mt ml i2 i3 pt pl i4 i5 v i6 i7 where
    "skip_empty_line b i = PRet i1" "parse_token b i1 SP = PRet (mt, ml, i2)" "skip_spaces b i2 = PRet i3"
    "ADVANCE_TOKEN b i3 = PRet (pt, pl, i4)" "skip_spaces b i4 = PRet i5" "ml \<noteq> 0" "pl \<noteq> 0"
    "parse_http_version b i5 = PRet (v, i6)" "end_of_request_line b i6 = PRet i7"
    "parse_headers b i7 (out\<lparr>o_method := Some mt, o_method_len := ml, o_path := Some pt, o_path_len := pl,
       o_minor_version := v\<rparr>) m = (out', PRet n)"
  using assms by (auto simp: parse_request_def Let_def pres_iff split: if_splits)

lemma parse_request_ok:
  assumes "parse_request b i out m = (out', PRet n)" and "o_num_headers out = 0"
  shows "request_ok b out'"
proof -
  obtain i1 mt ml i2 i3 pt pl i4 i5 v i6 i7 where
    t: "parse_token b i1 SP = PRet (mt, ml, i2)" and p: "ADVANCE_TOKEN b i3 = PRet (pt, pl, i4)" and
    nz: "ml \<noteq> 0" "pl \<noteq> 0" and v: "parse_http_version b i5 = PRet (v, i6)" and
    h: "parse_headers b i7 (out\<lparr>o_method := Some mt, o_method_len := ml, o_path := Some pt, o_path_len := pl,
       o_minor_version := v\<rparr>) m = (out', PRet n)"
    using parse_request_steps [OF assms(1)] by metis
  have "headers_ok b out'"
    using assms(2) by (intro parse_headers_headers_ok [OF h]) (simp add: headers_ok_def)
  with nz parse_token_ok [OF t] ADVANCE_TOKEN_ok [OF p] parse_http_version_digit [OF v] show ?thesis
    by (auto simp: request_ok_def parse_headers_frame [OF h])
qed

end
