(* ===== verification/PicoRoundtrip.thy ===== *)
theory PicoRoundtrip
  imports PicoGrammar
begin

text \<open>
  Completeness of the request parser: a well-formed request, written out byte by byte, is
  accepted, consumed exactly, and its fields come back unchanged.
\<close>

section \<open>Scanners on well-formed input\<close>

lemma CHECK_EOF_eq [simp]: "i < length b \<Longrightarrow> CHECK_EOF b i = PRet ()"
  by (simp add: CHECK_EOF_def)

lemma EXPECT_CHAR_eq [simp]: "i < length b \<Longrightarrow> b ! i = ch \<Longrightarrow> EXPECT_CHAR b i ch = PRet (i + 1)"
  by (simp add: EXPECT_CHAR_def EXPECT_CHAR_NO_CHECK_def)

lemma EXPECT_CHAR_NO_CHECK_eq [simp]: "i < length b \<Longrightarrow> b ! i = ch \<Longrightarrow> EXPECT_CHAR_NO_CHECK b i ch = PRet (i + 1)"
  by (simp add: EXPECT_CHAR_NO_CHECK_def)

lemma parse_token_loop_run:
  "\<forall>c \<in> set t. token_char c \<and> c \<noteq> ch \<Longrightarrow>
   parse_token_loop (pre @ t @ ch # post) (length pre) ch = PRet (length pre + length t)"
proof (induction t arbitrary: pre)
  case Nil
  then show ?case by (subst parse_token_loop.simps) simp
next
  case (Cons x t)
  from Cons.IH [of "pre @ [x]"] Cons.prems show ?case
    by (subst parse_token_loop.simps) simp
qed

lemma advance_token_loop_run:
  "\<forall>c \<in> set t. path_char c \<Longrightarrow>
   advance_token_loop (pre @ t @ SP # post) (length pre) = PRet (length pre + length t)"
proof (induction t arbitrary: pre)
  case Nil
  then show ?case by (subst advance_token_loop.simps) simp
next
  case (Cons x t)
  have "x \<noteq> SP" "\<not> uchar x < 32" "x \<noteq> CHR 0x7F"
    using Cons.prems uchar_SP uchar_DEL by (auto simp: path_char_def)
  with Cons.IH [of "pre @ [x]"] Cons.prems show ?case
    by (subst advance_token_loop.simps) simp
qed

lemma scan_by_1_run:
  "\<forall>c \<in> set t. \<not> found_ctl c \<Longrightarrow> found_ctl d \<Longrightarrow>
   scan_by_1 (pre @ t @ d # post) (length pre) = PRet (length pre + length t)"
proof (induction t arbitrary: pre)
  case Nil
  then show ?case by (subst scan_by_1.simps) simp
next
  case (Cons x t)
  from Cons.IH [of "pre @ [x]"] Cons.prems show ?case
    by (subst scan_by_1.simps) simp
qed

lemma skip_blanks_run:
  "\<forall>c \<in> set t. blank c \<Longrightarrow> \<not> blank d \<Longrightarrow>
   skip_blanks (pre @ t @ d # post) (length pre) = PRet (length pre + length t)"
proof (induction t arbitrary: pre)
  case Nil
  then show ?case by (subst skip_blanks.simps) simp
next
  case (Cons x t)
  from Cons.IH [of "pre @ [x]"] Cons.prems show ?case
    by (subst skip_blanks.simps) simp
qed

lemma skip_spaces_run:
  "d \<noteq> SP \<Longrightarrow> skip_spaces (pre @ x # d # post) (length pre) = PRet (length pre + 1)"
  by (subst skip_spaces.simps) (simp add: nth_append)

lemma parse_token_run:
  "\<forall>c \<in> set t. token_char c \<and> c \<noteq> ch \<Longrightarrow>
   parse_token (pre @ t @ ch # post) (length pre) ch = PRet (length pre, length t, length pre + length t)"
  by (simp add: parse_token_PRet_iff parse_token_loop_run)

lemma ADVANCE_TOKEN_run:
  "\<forall>c \<in> set t. path_char c \<Longrightarrow>
   ADVANCE_TOKEN (pre @ t @ SP # post) (length pre) = PRet (length pre, length t, length pre + length t)"
  by (simp add: ADVANCE_TOKEN_PRet_iff advance_token_loop_run)

lemma get_token_to_eol_run:
  assumes "\<forall>c \<in> set t. \<not> found_ctl c"
  shows "get_token_to_eol (pre @ t @ CR # LF # post) (length pre) =
     PRet (length pre, length t, length pre + length t + 2)"
proof -
  have "found_ctl CR" by (simp add: found_ctl_def uchar_def)
  then have "scan_by_1 (pre @ t @ CR # LF # post) (length pre) = PRet (length pre + length t)"
    using assms by (intro scan_by_1_run)
  moreover have "(pre @ t @ CR # LF # post) ! (length pre + length t) = CR"
    "(pre @ t @ CR # LF # post) ! Suc (length pre + length t) = LF"
    by (simp_all add: nth_append)
  ultimately show ?thesis
    by (simp add: get_token_to_eol_eq_ref get_token_to_eol_ref_def)
qed

lemma trim_value_run: "v + n \<le> length b \<Longrightarrow> (n \<noteq> 0 \<longrightarrow> \<not> blank (b ! (v + n - 1))) \<Longrightarrow> trim_value b v n = PRet n"
  by (cases n) simp_all

section \<open>Printed requests\<close>

definition print_header :: "bytes \<times> bytes \<Rightarrow> bytes" where
  "print_header h = fst h @ CHR '':'' # SP # snd h @ [CR, LF]"

definition print_request :: "bytes \<Rightarrow> bytes \<Rightarrow> char \<Rightarrow> (bytes \<times> bytes) list \<Rightarrow> bytes" where
  "print_request method path minor hs =
     method @ SP # path @ SP # ''HTTP/1.'' @ minor # CR # LF # concat (map print_header hs) @ [CR, LF]"

definition wf_header :: "bytes \<times> bytes \<Rightarrow> bool" where
  "wf_header h \<longleftrightarrow> fst h \<noteq> [] \<and> (\<forall>c \<in> set (fst h). token_char c) \<and>
     (\<forall>c \<in> set (snd h). \<not> found_ctl c) \<and>
     (snd h \<noteq> [] \<longrightarrow> \<not> blank (hd (snd h)) \<and> \<not> blank (last (snd h)))"

definition wf_request :: "bytes \<Rightarrow> bytes \<Rightarrow> char \<Rightarrow> (bytes \<times> bytes) list \<Rightarrow> bool" where
  "wf_request method path minor hs \<longleftrightarrow>
     method \<noteq> [] \<and> (\<forall>c \<in> set method. token_char c) \<and> path \<noteq> [] \<and> (\<forall>c \<in> set path. path_char c) \<and>
     48 \<le> uchar minor \<and> uchar minor \<le> 57 \<and> (\<forall>h \<in> set hs. wf_header h)"

fun locate :: "nat \<Rightarrow> (bytes \<times> bytes) list \<Rightarrow> phr_header list" where
  "locate off [] = []"
| "locate off (h # hs) =
     \<lparr>h_name = Some off, h_name_len = length (fst h),
      h_value = Some (off + length (fst h) + 2), h_value_len = length (snd h)\<rparr>
     # locate (off + length (print_header h)) hs"

lemma token_char_not [simp]: "\<not> token_char CR" "\<not> token_char LF" "\<not> token_char SP" "\<not> token_char HT" "\<not> token_char (CHR '':'')"
  by (simp_all add: token_char_def token_char_map_def uchar_def)

lemma parse_header_name_run:
  assumes "wf_header h" and "o_num_headers out < length (o_headers out)"
  shows "parse_header_name (pre @ print_header h @ post) (length pre) out =
    (put_header out ((o_headers out ! o_num_headers out)\<lparr>h_name := Some (length pre), h_name_len := length (fst h)\<rparr>),
     PRet (length pre + length (fst h) + 2))"
proof -
  obtain n v where h: "h = (n, v)" by (cases h)
  obtain x n' where n: "n = x # n'" using assms(1) h by (cases n) (auto simp: wf_header_def)
  have b: "pre @ print_header h @ post = pre @ n @ CHR '':'' # SP # v @ CR # LF # post"
    by (simp add: h print_header_def)
  have t: "parse_token (pre @ n @ CHR '':'' # SP # v @ CR # LF # post) (length pre) (CHR '':'') =
      PRet (length pre, length n, length pre + length n)"
    using assms(1) by (intro parse_token_run) (auto simp: h wf_header_def)
  have nb: "\<not> blank x" using assms(1) by (auto simp: h n wf_header_def blank_def)
  obtain d w where v: "v @ CR # LF # post = d # w" and d: "\<not> blank d"
    using assms(1) by (cases v) (auto simp: h wf_header_def blank_def)
  have s: "skip_blanks (pre @ n @ CHR '':'' # SP # v @ CR # LF # post) (Suc (length pre + length n)) =
      PRet (length pre + length n + 2)"
    using skip_blanks_run [of "[SP]" d "pre @ n @ [CHR '':'']" w] d v by (simp add: blank_def)
  show ?thesis
    using assms(2) t s nb unfolding b
    by (simp add: parse_header_name_def set_header_def put_header_def Let_def n h)
qed

lemma parse_header_value_run:
  assumes "wf_header h" and "o_num_headers out < length (o_headers out)"
  shows "parse_header_value (pre @ print_header h @ post) (length pre + length (fst h) + 2) out =
    (put_header out ((o_headers out ! o_num_headers out)
       \<lparr>h_value := Some (length pre + length (fst h) + 2), h_value_len := length (snd h)\<rparr>),
     PRet (length pre + length (print_header h)))"
proof -
  obtain n v where h: "h = (n, v)" by (cases h)
  let ?b = "pre @ print_header h @ post" and ?i = "length pre + length n + 2"
  have b: "?b = (pre @ n @ [CHR '':'', SP]) @ v @ CR # LF # post"
    by (simp add: h print_header_def)
  have g: "get_token_to_eol ?b ?i = PRet (?i, length v, ?i + length v + 2)"
    using get_token_to_eol_run [of v "pre @ n @ [CHR '':'', SP]" post] assms(1)
    by (simp add: h print_header_def wf_header_def)
  have t: "trim_value ?b ?i (length v) = PRet (length v)"
  proof (rule trim_value_run)
    show "?i + length v \<le> length ?b" by (simp add: h print_header_def)
    have "v \<noteq> [] \<Longrightarrow> ?b ! (?i + length v - 1) = last v"
      unfolding b by (cases v rule: rev_cases) (simp_all add: nth_append)
    then show "length v \<noteq> 0 \<longrightarrow> \<not> blank (?b ! (?i + length v - 1))"
      using assms(1) by (auto simp: h wf_header_def)
  qed
  show ?thesis using assms(2) g t
    by (simp add: parse_header_value_def set_header_def put_header_def Let_def h print_header_def)
qed

lemma length_locate [simp]: "length (locate off hs) = length hs"
  by (induction hs arbitrary: off) simp_all

lemma phr_header_set_all:
  "(h :: phr_header)\<lparr>h_name := a, h_name_len := n, h_value := v, h_value_len := m\<rparr> =
     \<lparr>h_name = a, h_name_len = n, h_value = v, h_value_len = m\<rparr>"
  by (cases h) simp

text \<open>The out-parameters after the headers \<open>hs\<close> starting at offset \<open>off\<close> have been stored.\<close>

definition store_headers :: "phr_out \<Rightarrow> nat \<Rightarrow> (bytes \<times> bytes) list \<Rightarrow> phr_out" where
  "store_headers out off hs = out\<lparr>
     o_headers := take (o_num_headers out) (o_headers out) @ locate off hs
                  @ drop (o_num_headers out + length hs) (o_headers out),
     o_num_headers := o_num_headers out + length hs\<rparr>"

lemma store_headers_Nil: "store_headers out off [] = out"
  by (simp add: store_headers_def)

lemma store_headers_Cons:
  assumes "o_num_headers out < length (o_headers out)"
  shows "store_headers ((put_header out (hd (locate off [h])))\<lparr>o_num_headers := o_num_headers out + 1\<rparr>)
      (off + length (print_header h)) hs = store_headers out off (h # hs)"
  using assms
  by (simp add: store_headers_def put_header_def take_Suc_conv_app_nth take_update_swap list_update_append)

lemma print_header_start:
  assumes "wf_header h"
  obtains x y where "print_header h = x # y" "token_char x" "x \<noteq> CR" "x \<noteq> LF"
proof -
  obtain x y where "print_header h = x # y" "token_char x"
    using assms by (cases "fst h") (auto simp: print_header_def wf_header_def)
  moreover from this have "x \<noteq> CR" "x \<noteq> LF" using token_char_not by blast+
  ultimately show thesis using that by blast
qed

lemma parse_headers_step:
  assumes wf: "wf_header h" and lt: "o_num_headers out < length (o_headers out)" and m: "o_num_headers out \<noteq> m"
  shows "parse_headers (pre @ print_header h @ post) (length pre) out m =
    parse_headers (pre @ print_header h @ post) (length (pre @ print_header h))
      ((put_header out (hd (locate (length pre) [h])))\<lparr>o_num_headers := o_num_headers out + 1\<rparr>) m"
proof -
  let ?b = "pre @ print_header h @ post" and ?n = "o_num_headers out"
  obtain x y where x: "print_header h = x # y" "x \<noteq> CR" "x \<noteq> LF" using print_header_start [OF wf] by blast
  have b: "?b ! length pre = x" by (simp add: x)
  let ?out1 = "put_header out ((o_headers out ! ?n)\<lparr>h_name := Some (length pre), h_name_len := length (fst h)\<rparr>)"
  have v: "parse_header_value ?b (length pre + length (fst h) + 2) ?out1 =
      (put_header out (hd (locate (length pre) [h])), PRet (length (pre @ print_header h)))"
    using parse_header_value_run [OF wf, of ?out1 pre post] lt by (simp add: put_header_def phr_header_set_all)
  show ?thesis
    using b x m v parse_header_name_run [OF wf lt, of pre post]
    by (subst parse_headers_unfold) (simp_all add: put_header_def)
qed

lemma parse_headers_run:
  "\<forall>h \<in> set hs. wf_header h \<Longrightarrow> o_num_headers out + length hs \<le> m \<Longrightarrow> m \<le> length (o_headers out) \<Longrightarrow>
   parse_headers (pre @ concat (map print_header hs) @ CR # LF # post) (length pre) out m =
     (store_headers out (length pre) hs, PRet (length pre + length (concat (map print_header hs)) + 2))"
proof (induction hs arbitrary: pre out)
  case Nil
  then show ?case
    by (subst parse_headers_unfold) (simp_all add: store_headers_Nil nth_append)
next
  case (Cons h hs)
  let ?p = "concat (map print_header hs) @ CR # LF # post"
  let ?n = "o_num_headers out" and ?out2 = "put_header out (hd (locate (length pre) [h]))"
  have lt: "?n < length (o_headers out)" and wf: "wf_header h" and m: "?n \<noteq> m" using Cons.prems by simp_all
  have l: "length (o_headers ?out2) = length (o_headers out)" by (simp add: put_header_def)
  have "parse_headers (pre @ print_header h @ ?p) (length pre) out m =
      (store_headers (?out2\<lparr>o_num_headers := ?n + 1\<rparr>) (length (pre @ print_header h)) hs,
      PRet (length (pre @ print_header h) + length (concat (map print_header hs)) + 2))"
    unfolding parse_headers_step [OF wf lt m]
    using Cons.IH [of "?out2\<lparr>o_num_headers := ?n + 1\<rparr>" "pre @ print_header h"] Cons.prems l by simp
  also have "store_headers (?out2\<lparr>o_num_headers := ?n + 1\<rparr>) (length (pre @ print_header h)) hs =
      store_headers out (length pre) (h # hs)"
    using store_headers_Cons [OF lt, of "length pre" h hs] by simp
  finally show ?case by (simp add: add.assoc)
qed

text \<open>A bound that promises more elements than the array has lets the headers run past its end.\<close>

lemma parse_headers_overrun:
  "\<forall>h \<in> set hs. wf_header h \<Longrightarrow> o_num_headers out \<le> length (o_headers out) \<Longrightarrow>
   length (o_headers out) < o_num_headers out + length hs \<Longrightarrow> o_num_headers out + length hs \<le> m \<Longrightarrow>
   snd (parse_headers (pre @ concat (map print_header hs) @ post) (length pre) out m) = PFault"
proof (induction hs arbitrary: pre out)
  case (Cons h hs)
  let ?p = "concat (map print_header hs) @ post"
  let ?n = "o_num_headers out" and ?out2 = "put_header out (hd (locate (length pre) [h]))"
  have wf: "wf_header h" and m: "?n \<noteq> m" using Cons.prems by simp_all
  show ?case
  proof (cases "?n < length (o_headers out)")
    case True
    have "length (o_headers ?out2) = length (o_headers out)" by (simp add: put_header_def)
    then show ?thesis
      using Cons.IH [of "?out2\<lparr>o_num_headers := ?n + 1\<rparr>" "pre @ print_header h"] Cons.prems True
        parse_headers_step [OF wf True m, of pre ?p] by simp
  next
    case False
    obtain x y where x: "print_header h = x # y" "token_char x" "x \<noteq> CR" "x \<noteq> LF" using print_header_start [OF wf] by blast
    have nb: "\<not> blank x" using x(2) by (auto simp: blank_def)
    have "\<forall>c \<in> set (fst h). token_char c \<and> c \<noteq> CHR '':''" using wf token_char_not(5) unfolding wf_header_def by blast
    then have "parse_token (pre @ print_header h @ ?p) (length pre) (CHR '':'') =
        PRet (length pre, length (fst h), length pre + length (fst h))"
      using parse_token_run [of "fst h" "CHR '':''" pre "SP # snd h @ CR # LF # ?p"] by (simp add: print_header_def)
    then have "parse_header_name (pre @ print_header h @ ?p) (length pre) out = (out, PFault)"
      using False nb x by (simp add: parse_header_name_def set_header_def Let_def)
    then have "parse_headers (pre @ print_header h @ ?p) (length pre) out m = (out, PFault)"
      using x m by (subst parse_headers_unfold) simp_all
    then show ?thesis by simp
  qed
qed simp

text \<open>The name and value bytes of the headers stored so far.\<close>

definition header_pairs :: "bytes \<Rightarrow> phr_out \<Rightarrow> (bytes \<times> bytes) list" where
  "header_pairs b out =
     map (\<lambda>h. (bslice b (the (h_name h)) (h_name_len h), bslice b (the (h_value h)) (h_value_len h)))
       (take (o_num_headers out) (o_headers out))"

lemma locate_pairs:
  "map (\<lambda>h. (bslice (pre @ concat (map print_header hs) @ post) (the (h_name h)) (h_name_len h),
             bslice (pre @ concat (map print_header hs) @ post) (the (h_value h)) (h_value_len h)))
     (locate (length pre) hs) = hs"
proof (induction hs arbitrary: pre)
  case Nil
  then show ?case by simp
next
  case (Cons h hs)
  obtain n v where h: "h = (n, v)" by (cases h)
  have ph: "print_header (n, v) = n @ CHR '':'' # SP # v @ [CR, LF]" by (simp add: print_header_def)
  have "bslice (pre @ n @ CHR '':'' # SP # v @ CR # LF # concat (map print_header hs) @ post) (length pre) (length n) = n"
    by (rule bslice_at)
  moreover have "bslice ((pre @ n @ [CHR '':'', SP]) @ v @ CR # LF # concat (map print_header hs) @ post)
      (length (pre @ n @ [CHR '':'', SP])) (length v) = v"
    by (rule bslice_at)
  ultimately show ?case
    using Cons.IH [of "pre @ print_header h"] by (simp add: h ph)
qed

lemma parse_http_version_run:
  assumes "48 \<le> uchar d" "uchar d \<le> 57"
  shows "parse_http_version (pre @ ''HTTP/1.'' @ d # x # post) (length pre) = PRet (int (uchar d) - 48, length pre + 8)"
  using assms by (simp add: parse_http_version_def PARSE_INT_def schar_def nth_append EXPECT_CHAR_NO_CHECK_def)

lemma path_char_not [simp]: "path_char c \<Longrightarrow> c \<noteq> SP"
  by (auto simp: path_char_def uchar_def)

lemma header_pairs_store:
  assumes "length hs \<le> length (o_headers out)" "o_num_headers out = 0"
  shows "header_pairs (pre @ concat (map print_header hs) @ post) (store_headers out (length pre) hs) = hs"
  using assms locate_pairs [of pre hs post] by (simp add: header_pairs_def store_headers_def)

lemma parse_request_line_run:
  assumes wf: "wf_request method path minor hs"
  shows "parse_request (print_request method path minor hs @ rest) 0 out m =
    parse_headers (print_request method path minor hs @ rest) (length method + length path + 12)
      (out\<lparr>o_method := Some 0, o_method_len := length method, o_path := Some (length method + 1),
        o_path_len := length path, o_minor_version := int (uchar minor) - 48\<rparr>) m"
proof -
  let ?hs = "concat (map print_header hs) @ CR # LF # rest"
  let ?b = "print_request method path minor hs @ rest"
  obtain x m' where m: "method = x # m'" and x: "token_char x"
    using wf by (cases "method") (auto simp: wf_request_def)
  obtain y p' where p: "path = y # p'" and y: "path_char y"
    using wf by (cases path) (auto simp: wf_request_def)
  have xn: "x \<noteq> CR" "x \<noteq> LF" using x token_char_not by blast+
  have msp: "\<forall>c \<in> set method. token_char c \<and> c \<noteq> SP" using wf by (auto simp: wf_request_def)
  let ?l = "length method" and ?k = "length method + length path"
  have b1: "?b = method @ SP # path @ SP # ''HTTP/1.'' @ minor # CR # LF # ?hs"
    by (simp add: print_request_def)
  have b2: "?b = (method @ [SP]) @ path @ SP # ''HTTP/1.'' @ minor # CR # LF # ?hs"
    and b3: "?b = (method @ SP # path) @ SP # CHR ''H'' # ''TTP/1.'' @ minor # CR # LF # ?hs"
    and b4: "?b = (method @ SP # path @ [SP]) @ ''HTTP/1.'' @ minor # CR # LF # ?hs"
    by (simp_all add: b1)
  have "skip_empty_line ?b 0 = PRet 0"
    using xn unfolding b1 by (simp add: skip_empty_line_def m)
  moreover have "parse_token ?b 0 SP = PRet (0, ?l, ?l)"
    using parse_token_run [OF msp, of "[]"] unfolding b1 by simp
  moreover have "skip_spaces ?b ?l = PRet (?l + 1)"
    using skip_spaces_run [OF path_char_not [OF y], of "method" SP] unfolding b1 by (simp add: p)
  moreover have "ADVANCE_TOKEN ?b (?l + 1) = PRet (?l + 1, length path, ?k + 1)"
    using ADVANCE_TOKEN_run [of path "method @ [SP]"] wf unfolding b2 by (simp add: wf_request_def)
  moreover have "skip_spaces ?b (?k + 1) = PRet (?k + 2)"
    using skip_spaces_run [of "CHR ''H''" "method @ SP # path" SP] unfolding b3 by simp
  moreover have "parse_http_version ?b (?k + 2) = PRet (int (uchar minor) - 48, ?k + 10)"
    using parse_http_version_run [of minor "method @ SP # path @ [SP]"] wf unfolding b4 by (simp add: wf_request_def)
  moreover have "end_of_request_line ?b (?k + 10) = PRet (?k + 12)"
    unfolding b1 by (simp add: end_of_request_line_def nth_append)
  ultimately show ?thesis
    using wf by (simp add: parse_request_def Let_def wf_request_def)
qed

lemma print_request_split:
  "print_request method path minor hs @ rest =
     (method @ SP # path @ SP # ''HTTP/1.'' @ [minor, CR, LF]) @ concat (map print_header hs) @ CR # LF # rest"
  "length (method @ SP # path @ SP # ''HTTP/1.'' @ [minor, CR, LF]) = length method + length path + 12"
  by (simp_all add: print_request_def)

lemma parse_request_run:
  assumes wf: "wf_request method path minor hs"
    and out: "o_num_headers out = 0" "length hs \<le> m" "m \<le> length (o_headers out)"
  shows "parse_request (print_request method path minor hs @ rest) 0 out m =
    (store_headers (out\<lparr>o_method := Some 0, o_method_len := length method,
        o_path := Some (length method + 1), o_path_len := length path,
        o_minor_version := int (uchar minor) - 48\<rparr>) (length method + length path + 12) hs,
     PRet (length (print_request method path minor hs)))"
proof -
  let ?pre = "method @ SP # path @ SP # ''HTTP/1.'' @ [minor, CR, LF]"
  let ?o = "out\<lparr>o_method := Some 0, o_method_len := length method, o_path := Some (length method + 1),
      o_path_len := length path, o_minor_version := int (uchar minor) - 48\<rparr>"
  have "parse_headers (?pre @ concat (map print_header hs) @ CR # LF # rest) (length ?pre) ?o m =
      (store_headers ?o (length ?pre) hs, PRet (length ?pre + length (concat (map print_header hs)) + 2))"
    using wf out by (intro parse_headers_run) (simp_all add: wf_request_def)
  moreover have "length (print_request method path minor hs) = length ?pre + length (concat (map print_header hs)) + 2"
    by (simp add: print_request_def)
  ultimately show ?thesis
    by (simp only: parse_request_line_run [OF wf] print_request_split(1) [symmetric] print_request_split(2))
qed

lemma parse_request_overrun:
  assumes wf: "wf_request method path minor hs"
    and out: "o_num_headers out = 0" "length (o_headers out) < length hs" "length hs \<le> m"
  shows "snd (parse_request (print_request method path minor hs) 0 out m) = PFault"
proof -
  let ?pre = "method @ SP # path @ SP # ''HTTP/1.'' @ [minor, CR, LF]"
  let ?o = "out\<lparr>o_method := Some 0, o_method_len := length method, o_path := Some (length method + 1),
      o_path_len := length path, o_minor_version := int (uchar minor) - 48\<rparr>"
  have "snd (parse_headers (?pre @ concat (map print_header hs) @ CR # LF # []) (length ?pre) ?o m) = PFault"
    using wf out by (intro parse_headers_overrun) (simp_all add: wf_request_def)
  then show ?thesis
    using parse_request_line_run [OF wf, of "[]" out m]
    by (simp only: print_request_split(1) [symmetric] print_request_split(2) append_Nil2)
qed

end
