(* ===== verification/PicoSSE.thy ===== *)
theory PicoSSE
  imports PicoGrammar
begin

text \<open>
  The branches of \<^verbatim>\<open>srclib/picohttpparser.c\<close> that are compiled with SSE4.2: \<^verbatim>\<open>findchar_fast\<close> looks at
  sixteen bytes at a time, and the scanners start behind what it skipped. The lemmas: the skipped
  bytes are those the slow loops would have passed over, so the scanners return the same.
\<close>

section \<open>findchar_fast with SSE4.2\<close>

text \<open>A range is a pair of bytes of the string \<^verbatim>\<open>ranges\<close>, compared as unsigned numbers.\<close>

fun in_ranges :: "nat list \<Rightarrow> char \<Rightarrow> bool" where
  "in_ranges (lo # hi # rs) c \<longleftrightarrow> lo \<le> uchar c \<and> uchar c \<le> hi \<or> in_ranges rs c"
| "in_ranges _ c \<longleftrightarrow> False"

text \<open>
  \<^verbatim>\<open>_mm_cmpestri\<close> on the sixteen bytes at \<open>i\<close>: the index of the first byte in a range, 16 if there is
  none. Loading them is a fault when the buffer ends before.
\<close>

definition cmpestri :: "nat list \<Rightarrow> bytes \<Rightarrow> nat \<Rightarrow> nat pres" where
  "cmpestri ranges b i =
     (if i + 16 \<le> length b then PRet (length (takeWhile (\<lambda>c. \<not> in_ranges ranges c) (bslice b i 16))) else PFault)"

function findchar_sse_loop :: "bytes \<Rightarrow> nat \<Rightarrow> nat \<Rightarrow> nat list \<Rightarrow> (nat \<times> bool) pres" where
  "findchar_sse_loop b i left ranges =
     pbind (cmpestri ranges b i) (\<lambda>r.
       if r \<noteq> 16 then PRet (i + r, True)
       else if left - 16 \<noteq> 0 then findchar_sse_loop b (i + 16) (left - 16) ranges
       else PRet (i + 16, False))"
  by pat_completeness auto
termination
  by (relation "measure (\<lambda>(b, i, left, r). length b - i)") (auto simp: cmpestri_def split: if_splits)

declare findchar_sse_loop.simps [simp del]

text \<open>\<^verbatim>\<open>(buf_end - buf) & ~15\<close> is the largest multiple of sixteen.\<close>

definition findchar_fast_sse :: "bytes \<Rightarrow> nat \<Rightarrow> nat list \<Rightarrow> (nat \<times> bool) pres" where
  "findchar_fast_sse b i ranges =
     (if 16 \<le> length b - i then findchar_sse_loop b i ((length b - i) div 16 * 16) ranges else PRet (i, False))"

definition token_ranges :: "nat list" where
  "token_ranges = [0x00, 0x20, 0x22, 0x22, 0x28, 0x29, 0x2C, 0x2C, 0x2F, 0x2F, 0x3A, 0x40, 0x5B, 0x5D, 0x7B, 0xFF]"

definition parse_token_sse :: "bytes \<Rightarrow> nat \<Rightarrow> char \<Rightarrow> (nat \<times> nat \<times> nat) pres" where
  "parse_token_sse b i next_char =
     (let buf_start = i in
      pbind (findchar_fast_sse b i token_ranges) (\<lambda>(i, found).
      pbind (if \<not> found then CHECK_EOF b i else PRet ()) (\<lambda>_.
      pbind (parse_token_loop b i next_char) (\<lambda>i. PRet (buf_start, i - buf_start, i)))))"

definition ADVANCE_TOKEN_sse :: "bytes \<Rightarrow> nat \<Rightarrow> (nat \<times> nat \<times> nat) pres" where
  "ADVANCE_TOKEN_sse b i =
     (let tok_start = i in
      pbind (findchar_fast_sse b i [0x00, 0x20, 0x7F, 0x7F]) (\<lambda>(i, found2).
      pbind (if \<not> found2 then CHECK_EOF b i else PRet ()) (\<lambda>_.
      pbind (advance_token_loop b i) (\<lambda>i. PRet (tok_start, i - tok_start, i)))))"

definition get_token_to_eol_sse :: "bytes \<Rightarrow> nat \<Rightarrow> (nat \<times> nat \<times> nat) pres" where
  "get_token_to_eol_sse b i =
     (let token_start = i in
      pbind (findchar_fast_sse b i [0x00, 0x08, 0x0A, 0x1F, 0x7F, 0x7F]) (\<lambda>(j, found).
      pbind (if found then PRet j else scan_by_1 b j) (\<lambda>i.
      pbind (peek b i) (\<lambda>c.
        if c = CR then
          pbind (EXPECT_CHAR b (i + 1) LF) (\<lambda>j. PRet (token_start, j - 2 - token_start, j))
        else if c = LF then PRet (token_start, i - token_start, i + 1)
        else PBad))))"

section \<open>What it skips\<close>

lemma cmpestri_spec:
  assumes "i + 16 \<le> length b"
  obtains r where "cmpestri ranges b i = PRet r" "r \<le> 16" "span b i (i + r) (\<lambda>c. \<not> in_ranges ranges c)" "r \<noteq> 16 \<longrightarrow> in_ranges ranges (b ! (i + r))"
proof
  let ?w = "bslice b i 16" and ?P = "\<lambda>c. \<not> in_ranges ranges c"
  let ?r = "length (takeWhile ?P ?w)"
  have l: "length ?w = 16" using assms by (simp add: length_bslice)
  show "cmpestri ranges b i = PRet ?r" using assms by (simp add: cmpestri_def)
  show r: "?r \<le> 16" using length_takeWhile_le [of ?P ?w] l by simp
  have nth: "k < 16 \<Longrightarrow> ?w ! k = b ! (i + k)" for k using assms by (simp add: nth_bslice)
  show "span b i (i + ?r) ?P"
    unfolding span_def
  proof (intro allI impI)
    fix k assume k: "i \<le> k \<and> k < i + ?r"
    then have d: "k - i < ?r" by linarith
    then have "takeWhile ?P ?w ! (k - i) = b ! k" using k nth [of "k - i"] r takeWhile_nth [OF d] by simp
    moreover have "takeWhile ?P ?w ! (k - i) \<in> set (takeWhile ?P ?w)" using d by (rule nth_mem)
    ultimately show "?P (b ! k)" by (metis set_takeWhileD)
  qed
  show "?r \<noteq> 16 \<longrightarrow> in_ranges ranges (b ! (i + ?r))"
    using nth_length_takeWhile [of ?P ?w] nth [of ?r] r l by auto
qed

text \<open>Where the fast search may stop: behind bytes outside the ranges, and in front of one inside when it says so.\<close>

definition stops :: "bytes \<Rightarrow> nat \<Rightarrow> nat list \<Rightarrow> nat \<times> bool \<Rightarrow> bool" where
  "stops b i ranges r \<longleftrightarrow> i \<le> fst r \<and> fst r \<le> length b \<and> span b i (fst r) (\<lambda>c. \<not> in_ranges ranges c)
     \<and> (snd r \<longrightarrow> fst r < length b \<and> in_ranges ranges (b ! fst r))"

lemma span_append: "span b i j P \<Longrightarrow> span b j k P \<Longrightarrow> span b i k P"
  by (auto simp: span_def) (metis linorder_not_le)

lemma findchar_sse_loop_stops:
  "0 < left \<Longrightarrow> 16 dvd left \<Longrightarrow> i + left \<le> length b \<Longrightarrow> \<exists>r. findchar_sse_loop b i left ranges = PRet r \<and> stops b i ranges r"
proof (induction b i left ranges rule: findchar_sse_loop.induct)
  case (1 b i left ranges)
  have l: "16 \<le> left" using 1(2,3) by (intro dvd_imp_le)
  then have i: "i + 16 \<le> length b" using 1(4) by simp
  obtain r where r: "cmpestri ranges b i = PRet r" "r \<le> 16" "span b i (i + r) (\<lambda>c. \<not> in_ranges ranges c)"
    "r \<noteq> 16 \<longrightarrow> in_ranges ranges (b ! (i + r))" by (rule cmpestri_spec [OF i])
  show ?case
  proof (cases "r = 16 \<and> left - 16 \<noteq> 0")
    case True
    have "16 dvd left - 16" using 1(3) by (simp add: dvd_diff_nat)
    then obtain q where q: "findchar_sse_loop b (i + 16) (left - 16) ranges = PRet q" "stops b (i + 16) ranges q"
      using 1(1) [OF r(1)] True l 1(4) by force
    then have "stops b i ranges q" using r(3) True by (auto simp: stops_def intro: span_append)
    with q(1) show ?thesis using r(1) True by (subst findchar_sse_loop.simps) simp
  next
    case False
    with r i show ?thesis by (subst findchar_sse_loop.simps) (auto simp: stops_def)
  qed
qed

lemma findchar_fast_sse_stops:
  assumes "i \<le> length b"
  obtains r where "findchar_fast_sse b i ranges = PRet r" "stops b i ranges r"
proof (cases "16 \<le> length b - i")
  case True
  have "i + (length b - i) div 16 * 16 \<le> length b" using assms by (metis add_le_cancel_left div_times_less_eq_dividend le_add_diff_inverse)
  moreover have "0 < (length b - i) div 16 * 16" using True by simp
  ultimately show thesis
    using findchar_sse_loop_stops [of "(length b - i) div 16 * 16" i b ranges] True that by (auto simp: findchar_fast_sse_def)
next
  case False
  then show thesis using assms by (intro that [of "(i, False)"]) (auto simp: findchar_fast_sse_def stops_def)
qed

section \<open>The scanners agree\<close>

lemma parse_token_loop_skip:
  "i < j \<Longrightarrow> j \<le> length b \<Longrightarrow> span b i j (\<lambda>c. token_char c \<and> c \<noteq> ch) \<Longrightarrow>
   parse_token_loop b i ch = (if j = length b then PPartial else parse_token_loop b j ch)"
proof (induction i rule: cursor_induct [of b])
  case (step i)
  then have "parse_token_loop b i ch = (if Suc i = length b then PPartial else parse_token_loop b (Suc i) ch)"
    by (subst parse_token_loop.simps) (simp add: span_Cons CHECK_EOF_def)
  with step show ?case by (cases "Suc i = j") (auto simp: span_Cons)
qed

lemma advance_token_loop_skip:
  "i < j \<Longrightarrow> j \<le> length b \<Longrightarrow> span b i j path_char \<Longrightarrow>
   advance_token_loop b i = (if j = length b then PPartial else advance_token_loop b j)"
proof (induction i rule: cursor_induct [of b])
  case (step i)
  then have c: "path_char (b ! i)" by (simp add: span_Cons)
  then have "b ! i \<noteq> SP" "\<not> (uchar (b ! i) < 32 \<or> b ! i = CHR 0x7F)" by (auto simp: path_char_def uchar_SP uchar_DEL)
  then have "advance_token_loop b i = (if Suc i = length b then PPartial else advance_token_loop b (Suc i))"
    using step.prems by (subst advance_token_loop.simps) (auto simp: CHECK_EOF_def)
  with step show ?case by (cases "Suc i = j") (auto simp: span_Cons)
qed

lemma scan_by_1_skip:
  "i \<le> j \<Longrightarrow> j \<le> length b \<Longrightarrow> span b i j (\<lambda>c. \<not> found_ctl c) \<Longrightarrow> scan_by_1 b i = scan_by_1 b j"
proof (induction i rule: cursor_induct [of b])
  case (step i)
  show ?case
  proof (cases "i = j")
    case False
    then have "scan_by_1 b i = scan_by_1 b (Suc i)"
      using step.prems by (subst scan_by_1.simps) (simp add: span_Cons CHECK_EOF_def)
    with step False show ?thesis by (simp add: span_Cons)
  qed simp
qed

lemma outside_token_ranges:
  assumes "\<not> in_ranges token_ranges c"
  shows "token_char c \<and> c \<noteq> SP \<and> c \<noteq> CHR '':''"
proof -
  have "list_all (\<lambda>n. n = 0x22 \<or> n = 0x28 \<or> n = 0x29 \<or> n = 0x2C \<or> n = 0x2F \<or> 0x3A \<le> n \<and> n \<le> 0x40 \<or>
      0x5B \<le> n \<and> n \<le> 0x5D \<or> token_char_map ! n \<noteq> 0) [0x21..<0x7B]"
    by code_simp
  moreover have u: "\<not> uchar c \<le> 0x20" "\<not> 0x7B \<le> uchar c" using assms uchar_less [of c] by (simp_all add: token_ranges_def)
  then have "uchar c \<in> set [0x21..<0x7B]" unfolding set_upt atLeastLessThan_iff by linarith
  ultimately have "uchar c = 0x22 \<or> uchar c = 0x28 \<or> uchar c = 0x29 \<or> uchar c = 0x2C \<or> uchar c = 0x2F \<or> 0x3A \<le> uchar c \<and> uchar c \<le> 0x40 \<or>
      0x5B \<le> uchar c \<and> uchar c \<le> 0x5D \<or> token_char_map ! uchar c \<noteq> 0"
    unfolding list_all_iff by blast
  then have "token_char_map ! uchar c \<noteq> 0"
    using assms by (elim disjE) (simp_all add: token_ranges_def)
  moreover have "c \<noteq> SP" "c \<noteq> CHR '':''" using assms by (auto simp: token_ranges_def uchar_def)
  ultimately show ?thesis by (simp add: token_char_def)
qed

lemma outside_path_ranges: "\<not> in_ranges [0x00, 0x20, 0x7F, 0x7F] c \<Longrightarrow> path_char c"
  by (auto simp: path_char_def)

lemma in_eol_ranges: "in_ranges [0x00, 0x08, 0x0A, 0x1F, 0x7F, 0x7F] c \<longleftrightarrow> found_ctl c"
proof -
  have "c = HT \<longleftrightarrow> uchar c = 9" "c = CHR 0x7F \<longleftrightarrow> uchar c = 127" by (simp_all flip: uchar_inject) (simp_all add: uchar_def)
  then show ?thesis by (auto simp: found_ctl_def)
qed

lemma parse_token_sse_eq:
  assumes "i \<le> length b" "ch = SP \<or> ch = CHR '':''"
  shows "parse_token_sse b i ch = parse_token b i ch"
proof -
  obtain j f where r: "findchar_fast_sse b i token_ranges = PRet (j, f)" "stops b i token_ranges (j, f)"
    using findchar_fast_sse_stops [OF assms(1)] by (metis surj_pair)
  have s: "i \<le> j" "j \<le> length b" "span b i j (\<lambda>c. token_char c \<and> c \<noteq> ch)" "f \<longrightarrow> j < length b"
    using r(2) assms(2) outside_token_ranges by (auto simp: stops_def elim!: span_mono)
  show ?thesis
    using parse_token_loop_skip [OF _ s(2,3)] s r(1) assms(1)
    by (cases "i = j") (auto simp: parse_token_sse_def parse_token_def findchar_fast_def CHECK_EOF_def)
qed

lemma ADVANCE_TOKEN_sse_eq:
  assumes "i \<le> length b"
  shows "ADVANCE_TOKEN_sse b i = ADVANCE_TOKEN b i"
proof -
  obtain j f where r: "findchar_fast_sse b i [0x00, 0x20, 0x7F, 0x7F] = PRet (j, f)" "stops b i [0x00, 0x20, 0x7F, 0x7F] (j, f)"
    using findchar_fast_sse_stops [OF assms(1)] by (metis surj_pair)
  have s: "i \<le> j" "j \<le> length b" "span b i j path_char" "f \<longrightarrow> j < length b"
    using r(2) outside_path_ranges by (auto simp: stops_def simp del: in_ranges.simps elim!: span_mono)
  show ?thesis
    using advance_token_loop_skip [OF _ s(2,3)] s r(1) assms(1)
    by (cases "i = j") (auto simp: ADVANCE_TOKEN_sse_def ADVANCE_TOKEN_def findchar_fast_def CHECK_EOF_def)
qed

lemma get_token_to_eol_sse_eq:
  assumes "i \<le> length b"
  shows "get_token_to_eol_sse b i = get_token_to_eol b i"
proof -
  let ?e = "[0x00, 0x08, 0x0A, 0x1F, 0x7F, 0x7F]"
  obtain j f where r: "findchar_fast_sse b i ?e = PRet (j, f)" "stops b i ?e (j, f)"
    using findchar_fast_sse_stops [OF assms(1)] by (metis surj_pair)
  have s: "i \<le> j" "j \<le> length b" "span b i j (\<lambda>c. \<not> found_ctl c)" "f \<longrightarrow> j < length b \<and> found_ctl (b ! j)"
    using r(2) unfolding stops_def in_eol_ranges by auto
  have "(if f then PRet j else scan_by_1 b j) = scan_by_1 b i"
  proof (cases f)
    case True
    with s(4) have "scan_by_1 b j = PRet j" by (subst scan_by_1.simps) (simp add: CHECK_EOF_def)
    with True show ?thesis by (simp add: scan_by_1_skip [OF s(1-3)])
  qed (simp add: scan_by_1_skip [OF s(1-3)])
  moreover obtain f' k where "scan_by_8 b i = PRet (f', k)" "scan_by_1 b i = (if f' then PRet k else scan_by_1 b k)"
    using scan_by_8_scan [OF assms] by auto
  ultimately show ?thesis by (simp add: get_token_to_eol_sse_def get_token_to_eol_def r(1))
qed

end
