(* ===== verification/PicoResume.thy ===== *)
theory PicoResume
  imports PicoStream PicoGrammar
begin

text \<open>
  Resuming after an incomplete read. The parser needs no byte behind the blank line that ends
  a request (\<open>parse_request_local\<close>), and the \<^verbatim>\<open>last_len\<close> shortcut finds the
  blank line of every request that was still incomplete at \<open>last_len\<close> bytes.
\<close>

section \<open>Only the consumed bytes matter\<close>

lemma peek_local: "i < length b \<Longrightarrow> peek (b @ c) i = peek b i"
  by (simp add: peek_def nth_append)

lemma CHECK_EOF_local: "i < length b \<Longrightarrow> CHECK_EOF (b @ c) i = CHECK_EOF b i"
  by (simp add: CHECK_EOF_def)

lemma EXPECT_CHAR_local: "EXPECT_CHAR (b @ c) i ch = PRet j \<Longrightarrow> j \<le> length b \<Longrightarrow> EXPECT_CHAR b i ch = PRet j"
  by (auto simp: pres_iff nth_append)

lemma advance_token_loop_local:
  "advance_token_loop (b @ c) i = PRet j \<Longrightarrow> j < length b \<Longrightarrow> advance_token_loop b i = PRet j"
proof (induction i rule: cursor_induct [of b])
  case (step i)
  have "i < length b" using advance_token_loop_cursor [OF step.prems(1)] step.prems(2) by simp
  with step show ?case
    using advance_token_loop_cursor [of "b @ c" "Suc i" j]
    by (subst advance_token_loop.simps) (subst (asm) (2) advance_token_loop.simps,
      auto simp: pres_iff nth_append split: if_splits)
qed

lemma parse_token_loop_local:
  "parse_token_loop (b @ c) i ch = PRet j \<Longrightarrow> j < length b \<Longrightarrow> parse_token_loop b i ch = PRet j"
proof (induction i rule: cursor_induct [of b])
  case (step i)
  have "i < length b" using parse_token_loop_cursor [OF step.prems(1)] step.prems(2) by simp
  with step show ?case
    using parse_token_loop_cursor [of "b @ c" "Suc i" ch j]
    by (subst parse_token_loop.simps) (subst (asm) (2) parse_token_loop.simps,
      auto simp: pres_iff nth_append split: if_splits)
qed

lemma skip_blanks_local:
  "skip_blanks (b @ c) i = PRet j \<Longrightarrow> j < length b \<Longrightarrow> skip_blanks b i = PRet j"
proof (induction i rule: cursor_induct [of b])
  case (step i)
  have "i < length b" using skip_blanks_cursor [OF step.prems(1)] step.prems(2) by simp
  with step show ?case
    by (subst skip_blanks.simps) (subst (asm) (2) skip_blanks.simps,
      auto simp: pres_iff nth_append CHECK_EOF_local split: if_splits)
qed

lemma skip_spaces_local:
  "skip_spaces (b @ c) i = PRet j \<Longrightarrow> j < length b \<Longrightarrow> skip_spaces b i = PRet j"
proof (induction i rule: cursor_induct [of b])
  case (step i)
  have "Suc i < length b" using skip_spaces_cursor [OF step.prems(1)] step.prems(2) by simp
  with step show ?case
    by (subst skip_spaces.simps) (subst (asm) (2) skip_spaces.simps,
      auto simp: pres_iff nth_append CHECK_EOF_local split: if_splits)
qed

lemma scan_by_1_local:
  "scan_by_1 (b @ c) i = PRet j \<Longrightarrow> j < length b \<Longrightarrow> scan_by_1 b i = PRet j"
proof (induction i rule: cursor_induct [of b])
  case (step i)
  have "i < length b" using scan_by_1_cursor [OF step.prems(1)] step.prems(2) by simp
  with step show ?case
    by (subst scan_by_1.simps) (subst (asm) (2) scan_by_1.simps,
      auto simp: pres_iff nth_append CHECK_EOF_local split: if_splits)
qed

lemma get_token_to_eol_local:
  assumes "get_token_to_eol (b @ c) i = PRet (v, n, j)" and "j \<le> length b"
  shows "get_token_to_eol b i = PRet (v, n, j)"
proof -
  have i: "i < j" "i \<le> length b" using get_token_to_eol_cursor [OF assms(1)] assms(2) by auto
  with assms(1) obtain k where k: "scan_by_1 (b @ c) i = PRet k" and
    r: "(if (b @ c) ! k = CR then pbind (EXPECT_CHAR (b @ c) (k + 1) LF) (\<lambda>j. PRet (i, k - i, j))
      else if (b @ c) ! k = LF then PRet (i, k - i, k + 1) else PBad) = PRet (v, n, j)"
    by (simp add: get_token_to_eol_eq_ref get_token_to_eol_ref_def pres_iff) blast
  then have "k < length b" using assms(2) by (auto simp: pres_iff split: if_splits)
  moreover from this have "scan_by_1 b i = PRet k" using k by (rule scan_by_1_local [rotated])
  ultimately show ?thesis
    using r i assms(2)
    by (auto simp: get_token_to_eol_eq_ref get_token_to_eol_ref_def nth_append pres_iff split: if_splits)
qed

lemma trim_value_local: "v + n \<le> length b \<Longrightarrow> trim_value (b @ c) v n = trim_value b v n"
  by (induction n) (auto simp: nth_append intro: pbind_cong)

lemma parse_token_local:
  "parse_token (b @ c) i ch = PRet (t, n, j) \<Longrightarrow> j < length b \<Longrightarrow> parse_token b i ch = PRet (t, n, j)"
  unfolding parse_token_PRet_iff using parse_token_loop_local by blast

lemma ADVANCE_TOKEN_local:
  "ADVANCE_TOKEN (b @ c) i = PRet (t, n, j) \<Longrightarrow> j < length b \<Longrightarrow> ADVANCE_TOKEN b i = PRet (t, n, j)"
  unfolding ADVANCE_TOKEN_PRet_iff using advance_token_loop_local by blast

lemma skip_empty_line_local:
  "skip_empty_line (b @ c) i = PRet j \<Longrightarrow> j < length b \<Longrightarrow> skip_empty_line b i = PRet j"
  by (auto simp: skip_empty_line_def pres_iff nth_append split: if_splits)

lemma end_of_request_line_local:
  "end_of_request_line (b @ c) i = PRet j \<Longrightarrow> j \<le> length b \<Longrightarrow> end_of_request_line b i = PRet j"
  by (auto simp: end_of_request_line_def pres_iff nth_append split: if_splits)

lemma parse_http_version_local:
  assumes "parse_http_version (b @ c) i = PRet (v, j)" and "j < length b"
  shows "parse_http_version b i = PRet (v, j)"
  using assms parse_http_version_cursor [OF assms(1)]
  by (auto simp: parse_http_version_def PARSE_INT_def pres_iff nth_append split: if_splits)

lemma parse_header_name_local:
  assumes "parse_header_name (b @ c) i out = (out', PRet j)" and "j < length b"
  shows "parse_header_name b i out = (out', PRet j)"
proof -
  have i: "i < length b" using parse_header_name_cursor [OF assms(1)] assms(2) by simp
  show ?thesis
  proof (cases "o_num_headers out \<noteq> 0 \<and> blank (b ! i)")
    case True
    with assms i show ?thesis by (auto simp: parse_header_name_def nth_append pres_iff)
  next
    case False
    with assms i obtain s n k out1 where t: "parse_token (b @ c) i (CHR '':'') = PRet (s, n, k)" and
      h: "set_header out (\<lambda>h. h\<lparr>h_name := Some s, h_name_len := n\<rparr>) = (out', PRet ())" and
      n: "n \<noteq> 0" and sk: "skip_blanks (b @ c) (k + 1) = PRet j"
      by (auto simp: parse_header_name_def nth_append pres_iff split: if_splits)
    have "k < length b" using skip_blanks_cursor [OF sk] assms(2) by simp
    with t sk have "parse_token b i (CHR '':'') = PRet (s, n, k)" "skip_blanks b (k + 1) = PRet j"
      using assms(2) parse_token_local skip_blanks_local by blast+
    with False h n i show ?thesis by (simp add: parse_header_name_def)
  qed
qed

lemma parse_header_value_local:
  assumes "parse_header_value (b @ c) i out = (out', PRet j)" and "j \<le> length b"
  shows "parse_header_value b i out = (out', PRet j)"
proof -
  from assms(1) obtain v l n where g: "get_token_to_eol (b @ c) i = PRet (v, l, j)" and
    t: "trim_value (b @ c) v l = PRet n" and
    h: "set_header out (\<lambda>h. h\<lparr>h_value := Some v, h_value_len := n\<rparr>) = (out', PRet ())"
    by (auto simp: parse_header_value_def pres_iff)
  have "v + l \<le> length b" using get_token_to_eol_cursor [OF g] assms(2) by simp
  then have "trim_value b v l = PRet n" using t trim_value_local by simp
  with get_token_to_eol_local [OF g assms(2)] h show ?thesis
    by (simp add: parse_header_value_def)
qed

lemma parse_headers_local:
  "parse_headers (b @ c) i out m = (out', PRet j) \<Longrightarrow> o_num_headers out \<le> m \<Longrightarrow> j \<le> length b \<Longrightarrow>
   parse_headers b i out m = (out', PRet j)"
proof (induction i arbitrary: out rule: cursor_jump_induct [of b])
  case (step i)
  have lt: "i < length b" using parse_headers_bounds [OF step.prems(1,2)] step.prems(3) by simp
  show ?case
  proof (cases "b ! i = CR \<or> b ! i = LF")
    case True
    with step.prems lt show ?thesis
      by (auto simp: parse_headers_unfold nth_append intro: EXPECT_CHAR_local)
  next
    case False
    with step.prems(1,2) lt obtain out1 k out2 l where m: "o_num_headers out \<noteq> m"
      and n: "parse_header_name (b @ c) i out = (out1, PRet k)"
      and v: "parse_header_value (b @ c) k out1 = (out2, PRet l)"
      and r: "parse_headers (b @ c) l (out2\<lparr>o_num_headers := o_num_headers out2 + 1\<rparr>) m = (out', PRet j)"
      by (auto simp: parse_headers_unfold nth_append pres_iff split: if_splits)
    have kl: "i < l" "k < l"
      using parse_header_name_cursor [OF n] parse_header_value_cursor [OF v] by auto
    have num: "o_num_headers out2 + 1 \<le> m"
      using header_iteration [OF n v] m step.prems(2) by auto
    have l: "l < length b" using parse_headers_bounds [OF r] num step.prems(3) by simp
    then have "k < length b" "l \<le> length b" using kl by simp_all
    with n v have "parse_header_name b i out = (out1, PRet k)" "parse_header_value b k out1 = (out2, PRet l)"
      using parse_header_name_local parse_header_value_local by blast+
    with False lt m step.IH [OF lt kl(1) r] num step.prems(3) show ?thesis
      by (simp add: parse_headers_unfold)
  qed
qed

lemma parse_request_local:
  assumes "parse_request (b @ c) i out m = (out', PRet n)" and "o_num_headers out \<le> m" and "n \<le> length b"
  shows "parse_request b i out m = (out', PRet n)"
  using assms(1)
proof (rule parse_request_steps)
  fix i1 mt ml i2 i3 pt pl i4 i5 v i6 i7
  assume s: "skip_empty_line (b @ c) i = PRet i1" "parse_token (b @ c) i1 SP = PRet (mt, ml, i2)"
    "skip_spaces (b @ c) i2 = PRet i3" "ADVANCE_TOKEN (b @ c) i3 = PRet (pt, pl, i4)"
    "skip_spaces (b @ c) i4 = PRet i5" "ml \<noteq> 0" "pl \<noteq> 0" "parse_http_version (b @ c) i5 = PRet (v, i6)"
    "end_of_request_line (b @ c) i6 = PRet i7"
    and h: "parse_headers (b @ c) i7 (out\<lparr>o_method := Some mt, o_method_len := ml, o_path := Some pt,
       o_path_len := pl, o_minor_version := v\<rparr>) m = (out', PRet n)"
  have "i1 \<le> i2" "i2 < i3" "i3 \<le> i4" "i4 < i5" "i5 < i6" "i6 < i7" "i7 < n"
    using skip_spaces_cursor [OF s(3)] skip_spaces_cursor [OF s(5)] parse_token_cursor [OF s(2)]
      ADVANCE_TOKEN_cursor [OF s(4)] parse_http_version_cursor [OF s(8)] end_of_request_line_cursor [OF s(9)]
      parse_headers_bounds [OF h] assms(2) by auto
  then have lt: "i1 < length b" "i2 < length b" "i3 < length b" "i4 < length b" "i5 < length b"
    "i6 < length b" "i7 \<le> length b" using assms(3) by simp_all
  from skip_empty_line_local [OF s(1) lt(1)] parse_token_local [OF s(2) lt(2)] skip_spaces_local [OF s(3) lt(3)]
    ADVANCE_TOKEN_local [OF s(4) lt(4)] skip_spaces_local [OF s(5) lt(5)] parse_http_version_local [OF s(8) lt(6)]
    end_of_request_line_local [OF s(9) lt(7)] parse_headers_local [OF h _ assms(3)] s(6,7) assms(2)
  show ?thesis by (simp add: parse_request_def Let_def)
qed

section \<open>The last_len shortcut\<close>

text \<open>In an accepted request every CR is the first half of a CR LF pair.\<close>

definition crlf :: "bytes \<Rightarrow> nat \<Rightarrow> nat \<Rightarrow> bool" where
  "crlf b i j \<longleftrightarrow> (\<forall>k. i \<le> k \<and> k < j \<and> b ! k = CR \<longrightarrow> Suc k < j \<and> b ! Suc k = LF)"

lemma crlf_trans: "crlf b i j \<Longrightarrow> crlf b j k \<Longrightarrow> j \<le> k \<Longrightarrow> crlf b i k"
  unfolding crlf_def by (meson le_less_trans less_le_trans not_le)

lemma crlf_span: "span b i j P \<Longrightarrow> \<not> P CR \<Longrightarrow> crlf b i j"
  by (auto simp: crlf_def span_def)

lemma crlf_eol: "eol b i j \<Longrightarrow> crlf b i j"
  by (auto simp: crlf_def eol_def less_Suc_eq)

lemma crlf_one: "b ! i \<noteq> CR \<Longrightarrow> crlf b i (Suc i)"
  by (auto simp: crlf_def less_Suc_eq)

lemma found_ctl_CR [simp]: "found_ctl CR"
  by (simp add: found_ctl_def uchar_def)

lemma class_CR [simp]: "\<not> token_char CR" "\<not> path_char CR" "\<not> blank CR"
  by (simp_all add: token_char_def token_char_map_def path_char_def blank_def uchar_def)

lemma parse_token_crlf:
  assumes "parse_token b i ch = PRet (t, n, j)" "ch \<noteq> CR"
  shows "crlf b i (Suc j)"
proof -
  have l: "parse_token_loop b i ch = PRet j" using assms by (simp add: parse_token_PRet_iff)
  have "crlf b i j" using parse_token_loop_span [OF l] by (intro crlf_span [where P = "\<lambda>c. token_char c \<and> c \<noteq> ch"]) auto
  moreover have "crlf b j (Suc j)" using parse_token_loop_span [OF l] assms(2) by (intro crlf_one) simp
  ultimately show ?thesis by (rule crlf_trans) simp
qed

lemma ADVANCE_TOKEN_crlf:
  assumes "ADVANCE_TOKEN b i = PRet (t, n, j)"
  shows "crlf b i (Suc j)"
proof -
  have l: "advance_token_loop b i = PRet j" using assms by (simp add: ADVANCE_TOKEN_PRet_iff)
  have "crlf b i j" using advance_token_loop_span [OF l] by (intro crlf_span [where P = path_char]) auto
  moreover have "crlf b j (Suc j)" using advance_token_loop_span [OF l] by (intro crlf_one) simp
  ultimately show ?thesis by (rule crlf_trans) simp
qed

lemma skip_blanks_crlf: "skip_blanks b i = PRet j \<Longrightarrow> crlf b i j"
  using skip_blanks_span by (intro crlf_span [where P = blank]) auto

lemma skip_spaces_crlf: "skip_spaces b i = PRet j \<Longrightarrow> crlf b (Suc i) j"
  using skip_spaces_span by (intro crlf_span [where P = "\<lambda>c. c = SP"]) auto

lemma skip_empty_line_crlf: "skip_empty_line b i = PRet j \<Longrightarrow> crlf b i j"
  by (auto simp: skip_empty_line_def pres_iff crlf_def less_Suc_eq split: if_splits)

lemma parse_http_version_crlf:
  assumes "parse_http_version b i = PRet (v, j)"
  shows "crlf b i j"
proof (rule crlf_span [where P = "\<lambda>c. c \<noteq> CR"])
  have "j = i + 8" using parse_http_version_cursor [OF assms] by simp
  moreover have "schar CR < 48" by (simp add: schar_def uchar_def)
  ultimately show "span b i j (\<lambda>c. c \<noteq> CR)"
    using assms by (auto simp: parse_http_version_def PARSE_INT_def pres_iff span_Cons eval_nat_numeral split: if_splits)
qed simp

lemma parse_header_name_crlf:
  assumes "parse_header_name b i out = (out1, PRet k)"
  shows "crlf b i k"
proof (cases "o_num_headers out \<noteq> 0 \<and> blank (b ! i)")
  case True
  with assms show ?thesis by (auto simp: parse_header_name_def pres_iff crlf_def)
next
  case False
  with assms obtain s n j where t: "parse_token b i (CHR '':'') = PRet (s, n, j)" and
    sk: "skip_blanks b (Suc j) = PRet k"
    by (auto simp: parse_header_name_def pres_iff split: if_splits)
  from crlf_trans [OF parse_token_crlf [OF t] skip_blanks_crlf [OF sk]] skip_blanks_cursor [OF sk]
  show ?thesis by simp
qed

lemma parse_header_value_crlf:
  assumes "parse_header_value b i out = (out1, PRet k)"
  shows "crlf b i k \<and> b ! (k - 1) = LF"
proof -
  from assms obtain v n where g: "get_token_to_eol b i = PRet (v, n, k)"
    by (auto simp: parse_header_value_def pres_iff)
  note sp = get_token_to_eol_span [OF g]
  have "crlf b i (i + n)" using sp(2) by (intro crlf_span [where P = "\<lambda>c. \<not> found_ctl c"]) simp_all
  moreover have "i + n \<le> k" using get_token_to_eol_cursor [OF g] by simp
  ultimately show ?thesis
    using crlf_trans [OF _ crlf_eol [OF sp(3)]] sp(3) by (auto simp: eol_def)
qed

text \<open>The header loop stops behind a blank line that follows another line end.\<close>

lemma parse_headers_blank_line:
  "parse_headers b i out m = (out', PRet e) \<Longrightarrow> 0 < i \<Longrightarrow> b ! (i - 1) = LF \<Longrightarrow>
   crlf b i e \<and> (\<exists>f. i - 1 \<le> f \<and> b ! f = LF \<and> eol b (f + 1) e)"
proof (induction i arbitrary: out rule: cursor_jump_induct [of b])
  case (step i)
  from step.prems(1) have lt: "i < length b"
    by (subst (asm) parse_headers.simps) (auto simp: pres_iff)
  show ?case
  proof (cases "b ! i = CR \<or> b ! i = LF")
    case True
    with step.prems lt have "eol b i e" by (auto simp: parse_headers_unfold pres_iff eol_def)
    with step.prems(2,3) show ?thesis
      by (auto intro!: crlf_eol exI [of _ "i - 1"])
  next
    case False
    with step.prems(1) lt obtain out1 k out2 l where n: "parse_header_name b i out = (out1, PRet k)"
      and v: "parse_header_value b k out1 = (out2, PRet l)"
      and r: "parse_headers b l (out2\<lparr>o_num_headers := o_num_headers out2 + 1\<rparr>) m = (out', PRet e)"
      by (auto simp: parse_headers_unfold pres_iff split: if_splits)
    have kl: "i \<le> k" "k < l" using parse_header_name_cursor [OF n] parse_header_value_cursor [OF v] by auto
    have nl: "b ! (l - 1) = LF" using parse_header_value_crlf [OF v] by simp
    have "i < l" "0 < l" using kl by simp_all
    from step.IH [OF lt this(1) r this(2) nl] obtain f
      where f: "crlf b l e" "l - 1 \<le> f" "b ! f = LF" "eol b (f + 1) e" by blast
    have "crlf b i l"
      using crlf_trans [OF parse_header_name_crlf [OF n], of l] parse_header_value_crlf [OF v] kl by simp
    moreover have "l \<le> e" using f by (auto simp: eol_def)
    ultimately have "crlf b i e" using f(1) crlf_trans by blast
    with f kl show ?thesis by (intro conjI exI [of _ f]) auto
  qed
qed

lemma parse_request_blank_line:
  assumes "parse_request b 0 out m = (out', PRet e)"
  shows "crlf b 0 e" and "\<exists>f. b ! f = LF \<and> eol b (f + 1) e"
proof -
  obtain i1 mt ml i2 i3 pt pl i4 i5 v i6 i7 out1 where
    s: "skip_empty_line b 0 = PRet i1" "parse_token b i1 SP = PRet (mt, ml, i2)"
    "skip_spaces b i2 = PRet i3" "ADVANCE_TOKEN b i3 = PRet (pt, pl, i4)"
    "skip_spaces b i4 = PRet i5" "parse_http_version b i5 = PRet (v, i6)"
    "end_of_request_line b i6 = PRet i7" and h: "parse_headers b i7 out1 m = (out', PRet e)"
    using parse_request_steps [OF assms] by metis
  note e = end_of_request_line_eol [OF s(7)]
  have i7: "0 < i7" "b ! (i7 - 1) = LF" using e by (auto simp: eol_def)
  from parse_headers_blank_line [OF h i7] obtain f
    where f: "crlf b i7 e" "i7 - 1 \<le> f" "b ! f = LF" "eol b (f + 1) e" by blast
  have le: "i1 \<le> i2" "i2 < i3" "i3 \<le> i4" "i4 < i5" "i5 < i6" "i6 < i7" "i7 \<le> e"
    using skip_spaces_cursor [OF s(3)] skip_spaces_cursor [OF s(5)] parse_token_cursor [OF s(2)]
      ADVANCE_TOKEN_cursor [OF s(4)] parse_http_version_cursor [OF s(6)] e f by (auto simp: eol_def)
  have "crlf b 0 i1" by (rule skip_empty_line_crlf [OF s(1)])
  then have "crlf b 0 (Suc i2)" by (rule crlf_trans) (use parse_token_crlf [OF s(2)] le in simp_all)
  then have "crlf b 0 i3" by (rule crlf_trans) (use skip_spaces_crlf [OF s(3)] le in simp_all)
  then have "crlf b 0 (Suc i4)" by (rule crlf_trans) (use ADVANCE_TOKEN_crlf [OF s(4)] le in simp_all)
  then have "crlf b 0 i5" by (rule crlf_trans) (use skip_spaces_crlf [OF s(5)] le in simp_all)
  then have "crlf b 0 i6" by (rule crlf_trans) (use parse_http_version_crlf [OF s(6)] le in simp_all)
  then have "crlf b 0 i7" by (rule crlf_trans) (use crlf_eol [OF e] le in simp_all)
  then show "crlf b 0 e" by (rule crlf_trans) (use f le in simp_all)
  show "\<exists>f. b ! f = LF \<and> eol b (f + 1) e" using f by blast
qed

lemma is_complete_second:
  assumes "eol b i e"
  shows "is_complete_loop b i 1 = PRet e"
  using assms by (subst is_complete_loop.simps) (auto simp: eol_def CHECK_EOF_def EXPECT_CHAR_def EXPECT_CHAR_NO_CHECK_def)

lemma is_complete_loop_finds:
  "crlf b s e \<Longrightarrow> s \<le> f \<Longrightarrow> b ! f = LF \<Longrightarrow> eol b (Suc f) e \<Longrightarrow> n < 2 \<Longrightarrow> \<exists>j. is_complete_loop b s n = PRet j"
proof (induction s arbitrary: n rule: cursor_jump_induct [of b])
  case (step s)
  have e: "Suc f < e" "e \<le> length b" using step.prems(4) by (auto simp: eol_def)
  have sub: "crlf b j e" if "s \<le> j" for j using step.prems(1) that by (auto simp: crlf_def)
  have lt: "s < length b" using step.prems(2) e by simp
  have step1: "\<exists>j. (if k = 2 then PRet i else is_complete_loop b i k) = PRet j"
    if "s < i" "i \<le> Suc f" "k < 3" "i = Suc f \<longrightarrow> 0 < k" for i k
  proof (cases "i = Suc f")
    case True
    with that is_complete_second [OF step.prems(4)] show ?thesis
      by (cases "k = 2") (auto simp: less_Suc_eq numeral_eq_Suc)
  next
    case False
    with that step.IH [OF lt \<open>s < i\<close> sub] step.prems show ?thesis by (cases "k = 2") auto
  qed
  consider (cr) "b ! s = CR" | (lf) "b ! s = LF" | (other) "b ! s \<noteq> CR" "b ! s \<noteq> LF" by blast
  then show ?case
  proof cases
    case cr
    then have "s \<noteq> f" using step.prems(3) by auto
    with cr have "Suc s \<le> f" "Suc s < e" "b ! Suc s = LF" using step.prems(1,2) e by (auto simp: crlf_def)
    with cr e lt step1 [of "Suc (Suc s)" "Suc n"] step.prems(5) show ?thesis
      by (subst is_complete_loop.simps) (simp add: CHECK_EOF_def EXPECT_CHAR_def EXPECT_CHAR_NO_CHECK_def)
  next
    case lf
    with e lt step1 [of "Suc s" "Suc n"] step.prems(2,5) show ?thesis
      by (subst is_complete_loop.simps) (simp add: CHECK_EOF_def)
  next
    case other
    then have "s \<noteq> f" using step.prems(3) by auto
    with other e lt step1 [of "Suc s" 0] step.prems(2) show ?thesis
      by (subst is_complete_loop.simps) (simp add: CHECK_EOF_def)
  qed
qed

lemma is_complete_accepts:
  assumes c: "crlf b 0 e" and "\<exists>f. b ! f = LF \<and> eol b (f + 1) e" and "last_len < e"
  shows "\<exists>j. is_complete b last_len = PRet j"
proof -
  obtain f where f: "b ! f = LF" "eol b (Suc f) e" using assms(2) by auto
  let ?s = "if last_len < 3 then 0 else last_len - 3"
  have "?s \<le> f" using f(2) assms(3) by (auto simp: eol_def)
  moreover have "crlf b ?s e" using c by (auto simp: crlf_def)
  ultimately show ?thesis unfolding is_complete_def using f is_complete_loop_finds by simp
qed

lemma phr_parse_request_0:
  "phr_parse_request b out 0 = parse_request b 0 (out\<lparr>o_method := None, o_method_len := 0, o_path := None,
     o_path_len := 0, o_minor_version := -1, o_num_headers := 0\<rparr>) (o_num_headers out)"
  by (simp add: phr_parse_request_def Let_def)

lemma phr_parse_request_gate:
  "phr_parse_request b out last_len = (out', PRet e) \<longleftrightarrow>
     phr_parse_request b out 0 = (out', PRet e) \<and> (last_len = 0 \<or> (\<exists>j. is_complete b last_len = PRet j))"
  by (auto simp: phr_parse_request_def Let_def pres_iff)

lemma phr_parse_request_complete_at:
  assumes "phr_parse_request b out 0 = (out', PRet e)" and "\<forall>n. snd (phr_parse_request (take last_len b) out 0) \<noteq> PRet n"
  shows "last_len < e"
proof (rule ccontr)
  assume "\<not> last_len < e"
  moreover have "e \<le> length b"
    using assms(1) unfolding phr_parse_request_0
    by (auto elim!: parse_request_steps dest!: parse_headers_bounds)
  ultimately have le: "e \<le> length (take last_len b)" by simp
  have "parse_request (take last_len b @ drop last_len b) 0 (out\<lparr>o_method := None, o_method_len := 0,
     o_path := None, o_path_len := 0, o_minor_version := -1, o_num_headers := 0\<rparr>) (o_num_headers out) = (out', PRet e)"
    using assms(1) by (simp add: phr_parse_request_0)
  from parse_request_local [OF this _ le] have "phr_parse_request (take last_len b) out 0 = (out', PRet e)"
    by (simp add: phr_parse_request_0)
  with assms(2) show False by simp
qed

lemma phr_parse_request_resume:
  assumes "\<forall>n. snd (phr_parse_request (take last_len b) out 0) \<noteq> PRet n"
  shows "phr_parse_request b out last_len = (out', PRet e) \<longleftrightarrow> phr_parse_request b out 0 = (out', PRet e)"
proof -
  have "\<exists>j. is_complete b last_len = PRet j" if "phr_parse_request b out 0 = (out', PRet e)"
    using parse_request_blank_line [OF that [unfolded phr_parse_request_0]] phr_parse_request_complete_at [OF that assms]
    by (rule is_complete_accepts)
  then show ?thesis using phr_parse_request_gate [of b out last_len out' e] by blast
qed

end
