(* ===== verification/PicoGate.thy ===== *)
theory PicoGate
  imports PicoResume
begin

text \<open>
  Reading a head piece by piece, once for both parsers. A parser whose heads end with a blank line may be
  guarded by \<^verbatim>\<open>is_complete\<close>, as \<^verbatim>\<open>phr_parse_request\<close> and \<^verbatim>\<open>phr_parse_response\<close> are when \<^verbatim>\<open>last_len\<close> is not 0,
  without changing what is accepted (locale \<open>gated_parser\<close>); it is then incremental, and a caller may
  retry it after every piece it receives (locale \<open>incremental_parser\<close>).
\<close>

section \<open>Incremental parsers\<close>

text \<open>
  What a server that reads from a connection relies on: the verdict on the bytes received so far,
  given how many of them were there at the previous attempt.
\<close>

locale incremental_parser =
  fixes verdict :: "bytes \<Rightarrow> nat \<Rightarrow> nat pres"
  assumes incomplete: "verdict b 0 = PRet e \<Longrightarrow> k < e \<Longrightarrow> l \<le> k \<Longrightarrow> verdict (take k b) l = PPartial"
    and complete: "verdict b 0 = PRet e \<Longrightarrow> l < e \<Longrightarrow> verdict b l = PRet e"
    and stable: "verdict b 0 = PRet e \<Longrightarrow> e \<le> k \<Longrightarrow> verdict (take k b) 0 = PRet e"
    and consumed: "verdict b 0 = PRet e \<Longrightarrow> 0 < e \<and> e \<le> length b"
begin

primrec read_pieces :: "bytes \<Rightarrow> bytes list \<Rightarrow> bytes \<times> nat pres" where
  "read_pieces acc [] = (acc, PPartial)"
| "read_pieces acc (d # ds) = (case verdict (acc @ d) (length acc) of
     PPartial \<Rightarrow> read_pieces (acc @ d) ds | r \<Rightarrow> (acc @ d, r))"

lemma read_pieces_complete:
  assumes "verdict b 0 = PRet e"
  shows "acc @ concat ds = b \<Longrightarrow> length acc < e \<Longrightarrow>
    \<exists>n. read_pieces acc ds = (take n b, PRet e) \<and> e \<le> n \<and> n \<le> length b"
proof (induction ds arbitrary: acc)
  case Nil
  with consumed [OF assms] show ?case by simp
next
  case (Cons d ds)
  have b: "acc @ d = take (length (acc @ d)) b" using Cons.prems(1) by (metis append.assoc append_eq_conv_conj concat.simps(2))
  show ?case
  proof (cases "length (acc @ d) < e")
    case True
    then have "verdict (acc @ d) (length acc) = PPartial" using incomplete [OF assms] b by (metis le_add1 length_append)
    with Cons.IH [of "acc @ d"] Cons.prems True show ?thesis by simp
  next
    case False
    then have "verdict (acc @ d) 0 = PRet e" using stable [OF assms] b by (metis linorder_not_less)
    then have "verdict (acc @ d) (length acc) = PRet e" using complete Cons.prems(2) by blast
    moreover have "length (acc @ d) \<le> length b" using Cons.prems(1) by auto
    ultimately show ?thesis using b False by (intro exI [of _ "length (acc @ d)"]) auto
  qed
qed

end

section \<open>Parsers behind is_complete\<close>

lemma sbind_const: "sbind (s, r) (\<lambda>st _. f st) = sbind (s, r) (\<lambda>_ _. f s)"
  by (cases r) simp_all

lemma is_complete_loop_not_PBad:
  "\<forall>k. Suc k < length p \<and> p ! k = CR \<longrightarrow> p ! Suc k = LF \<Longrightarrow> is_complete_loop p s n \<noteq> PBad"
proof (induction s arbitrary: n rule: cursor_jump_induct [of p])
  case (step s)
  then show ?case
    by (subst is_complete_loop.simps) (auto simp: CHECK_EOF_def EXPECT_CHAR_def EXPECT_CHAR_NO_CHECK_def)
qed

locale gated_parser =
  fixes parse :: "bytes \<Rightarrow> 's \<times> nat pres"
    and start :: 's
  assumes parse_take: "parse (b @ c) = (s, PRet e) \<Longrightarrow> e \<le> length b \<Longrightarrow> parse b = (s, PRet e)"
    and parse_ext: "ext2 (parse b) (parse (b @ c))"
    and parse_no_fault: "snd (parse b) \<noteq> PFault"
    and parse_blank_line: "parse b = (s, PRet e) \<Longrightarrow> crlf b 0 e \<and> (\<exists>f. b ! f = LF \<and> eol b (f + 1) e)"
begin

definition gated :: "bytes \<Rightarrow> nat \<Rightarrow> 's \<times> nat pres" where
  "gated b last_len = sbind (start, if last_len \<noteq> 0 then is_complete b last_len else PRet 0) (\<lambda>_ _. parse b)"

definition gated_verdict :: "bytes \<Rightarrow> nat \<Rightarrow> nat pres" where
  "gated_verdict b last_len = snd (gated b last_len)"

lemma gated_0 [simp]: "gated b 0 = parse b"
  by (simp add: gated_def)

lemma parse_consumed: "parse b = (s, PRet e) \<Longrightarrow> 0 < e \<and> e \<le> length b"
  using parse_blank_line [of b s e] by (auto simp: eol_def)

lemma gated_later: "parse b = (s, PRet e) \<Longrightarrow> last_len < e \<Longrightarrow> gated b last_len = (s, PRet e)"
  using is_complete_accepts [of b e last_len] parse_blank_line [of b s e] by (cases "last_len = 0") (auto simp: gated_def)

lemma parse_prefix:
  assumes "parse b = (s, PRet e)"
  shows "snd (parse (take k b)) = (if k < e then PPartial else PRet e)"
proof -
  have x: "ext2 (parse (take k b)) (s, PRet e)" using parse_ext [of "take k b" "drop k b"] assms by simp
  show ?thesis
  proof (cases "k < e")
    case True
    have "parse (take k b) \<noteq> (s, PRet e)" using parse_consumed [of "take k b" s e] True by auto
    then show ?thesis using x parse_no_fault [of "take k b"] True by (auto simp: ext2_def)
  next
    case False
    then have "e \<le> length (take k b)" using parse_consumed [OF assms] by simp
    with parse_take [of "take k b" "drop k b" s e] assms False show ?thesis by simp
  qed
qed

lemma gated_incomplete:
  assumes "parse b = (s, PRet e)" "k < e" "l \<le> k"
  shows "snd (gated (take k b) l) = PPartial"
proof (cases "l = 0")
  case True
  then show ?thesis using parse_prefix [OF assms(1)] assms(2) by simp
next
  case False
  let ?p = "take k b"
  have "\<forall>j. Suc j < length ?p \<and> ?p ! j = CR \<longrightarrow> ?p ! Suc j = LF"
    using parse_blank_line [OF assms(1)] parse_consumed [OF assms(1)] assms(2) by (auto simp: crlf_def)
  then have "is_complete ?p l \<noteq> PBad" unfolding is_complete_def by (rule is_complete_loop_not_PBad)
  moreover have "is_complete ?p l \<noteq> PFault"
    using assms(2,3) parse_consumed [OF assms(1)] by (intro is_complete_no_fault) simp
  ultimately show ?thesis
    using parse_prefix [OF assms(1), of k] assms(2) False by (cases "is_complete ?p l") (simp_all add: gated_def)
qed

end

sublocale gated_parser \<subseteq> incremental_parser gated_verdict
proof unfold_locales
  fix b e k l
  assume "gated_verdict b 0 = PRet e"
  then obtain s where s: "parse b = (s, PRet e)" unfolding gated_verdict_def gated_0 by (metis prod.collapse)
  show "gated_verdict (take k b) l = PPartial" if "k < e" "l \<le> k"
    unfolding gated_verdict_def by (rule gated_incomplete [OF s that])
  show "gated_verdict b l = PRet e" if "l < e" unfolding gated_verdict_def by (simp add: gated_later [OF s that])
  show "gated_verdict (take k b) 0 = PRet e" if "e \<le> k" using parse_prefix [OF s, of k] that by (simp add: gated_verdict_def)
  show "0 < e \<and> e \<le> length b" by (rule parse_consumed [OF s])
qed

end
