(* ===== verification/PicoReuse.thy ===== *)
theory PicoReuse
  imports PicoGate
begin

text \<open>
  Parsing again into a structure that holds the leftovers of an earlier attempt, and the verdict
  on a proper part of an acceptable request: what a server needs that reads a request piecewise.
\<close>

section \<open>The result does not depend on old contents\<close>

definition rel2 :: "('s \<Rightarrow> 't \<Rightarrow> bool) \<Rightarrow> 's \<times> 'a pres \<Rightarrow> 't \<times> 'a pres \<Rightarrow> bool" where
  "rel2 R p p' \<longleftrightarrow> snd p = snd p' \<and> (\<forall>x. snd p = PRet x \<longrightarrow> R (fst p) (fst p'))"

lemma rel2_sbind:
  "rel2 R m m' \<Longrightarrow> (\<And>s s' x. R s s' \<Longrightarrow> rel2 S (f s x) (f' s' x)) \<Longrightarrow> rel2 S (sbind m f) (sbind m' f')"
  by (cases m; cases m'; cases "snd m") (auto simp: rel2_def)

lemma rel2_lift: "(\<And>x. r = PRet x \<Longrightarrow> rel2 S (f s x) (f' s' x)) \<Longrightarrow> rel2 S (sbind (s, r) f) (sbind (s', r) f')"
  by (cases r) (auto simp: rel2_def)

lemma rel2_same: "R s s' \<Longrightarrow> rel2 R (s, r) (s', r)"
  by (simp add: rel2_def)

lemma rel2_mono: "rel2 R p p' \<Longrightarrow> (\<And>s s'. R s s' \<Longrightarrow> S s s') \<Longrightarrow> rel2 S p p'"
  by (auto simp: rel2_def)

text \<open>Equal in everything the parser has stored so far.\<close>

definition agree :: "phr_out \<Rightarrow> phr_out \<Rightarrow> bool" where
  "agree a b \<longleftrightarrow> o_method a = o_method b \<and> o_method_len a = o_method_len b \<and> o_path a = o_path b
     \<and> o_path_len a = o_path_len b \<and> o_minor_version a = o_minor_version b \<and> o_num_headers a = o_num_headers b
     \<and> length (o_headers a) = length (o_headers b)
     \<and> take (o_num_headers a) (o_headers a) = take (o_num_headers b) (o_headers b)"

definition agree_name :: "phr_out \<Rightarrow> phr_out \<Rightarrow> bool" where
  "agree_name a b \<longleftrightarrow> agree a b \<and> o_num_headers a < length (o_headers a)
     \<and> h_name (o_headers a ! o_num_headers a) = h_name (o_headers b ! o_num_headers b)
     \<and> h_name_len (o_headers a ! o_num_headers a) = h_name_len (o_headers b ! o_num_headers b)"

definition agree_entry :: "phr_out \<Rightarrow> phr_out \<Rightarrow> bool" where
  "agree_entry a b \<longleftrightarrow> agree a b \<and> o_num_headers a < length (o_headers a)
     \<and> o_headers a ! o_num_headers a = o_headers b ! o_num_headers b"

lemma set_header_name_agree:
  "agree a b \<Longrightarrow> rel2 agree_name (set_header a (\<lambda>h. h\<lparr>h_name := x, h_name_len := n\<rparr>)) (set_header b (\<lambda>h. h\<lparr>h_name := x, h_name_len := n\<rparr>))"
  by (auto simp: rel2_def set_header_def Let_def agree_def agree_name_def)

lemma set_header_value_agree:
  "agree_name a b \<Longrightarrow> rel2 agree_entry (set_header a (\<lambda>h. h\<lparr>h_value := x, h_value_len := n\<rparr>)) (set_header b (\<lambda>h. h\<lparr>h_value := x, h_value_len := n\<rparr>))"
  by (auto simp: rel2_def set_header_def Let_def agree_def agree_name_def agree_entry_def intro!: phr_header.equality)

lemma parse_header_name_agree:
  assumes "agree a b"
  shows "rel2 agree_name (parse_header_name c i a) (parse_header_name c i b)"
proof -
  have n: "o_num_headers a = o_num_headers b" using assms by (simp add: agree_def)
  have set: "rel2 agree_name (sbind (set_header a (\<lambda>h. h\<lparr>h_name := x, h_name_len := k\<rparr>)) (\<lambda>out _. (out, r)))
      (sbind (set_header b (\<lambda>h. h\<lparr>h_name := x, h_name_len := k\<rparr>)) (\<lambda>out _. (out, r)))" for x k r
    by (rule rel2_sbind [OF set_header_name_agree [OF assms]]) (rule rel2_same)
  show ?thesis
    unfolding parse_header_name_def
    by (rule rel2_lift) (auto intro!: rel2_lift set split: prod.splits simp: n if_distrib [of "Pair _", symmetric])
qed

lemma parse_header_value_agree:
  "agree_name a b \<Longrightarrow> rel2 agree_entry (parse_header_value c i a) (parse_header_value c i b)"
  unfolding parse_header_value_def
  by (auto intro!: rel2_lift rel2_sbind [OF set_header_value_agree] rel2_same split: prod.splits)

lemma agree_next: "agree_entry a b \<Longrightarrow> agree (a\<lparr>o_num_headers := o_num_headers a + 1\<rparr>) (b\<lparr>o_num_headers := o_num_headers b + 1\<rparr>)"
  by (auto simp: agree_entry_def agree_def take_Suc_conv_app_nth)

lemma parse_headers_agree: "agree a d \<Longrightarrow> rel2 agree (parse_headers b i a m) (parse_headers b i d m)"
proof (induction i arbitrary: a d rule: cursor_jump_induct [of b])
  case (step i)
  have n: "o_num_headers a = o_num_headers d" using step.prems by (simp add: agree_def)
  show ?case
  proof (cases "i < length b")
    case False
    with step.prems show ?thesis
      by (subst (1 2) parse_headers.simps) (auto simp: CHECK_EOF_def intro: rel2_same)
  next
    case lt: True
    have "rel2 agree
        (sbind (parse_header_name b i a) (\<lambda>out i. sbind (parse_header_value b i out) (\<lambda>out i.
           parse_headers b i (out\<lparr>o_num_headers := o_num_headers out + 1\<rparr>) m)))
        (sbind (parse_header_name b i d) (\<lambda>out i. sbind (parse_header_value b i out) (\<lambda>out i.
           parse_headers b i (out\<lparr>o_num_headers := o_num_headers out + 1\<rparr>) m)))"
    proof -
      have r: "rel2 agree_name (parse_header_name b i a) (parse_header_name b i d)"
        by (rule parse_header_name_agree [OF step.prems])
      show ?thesis
      proof (cases "snd (parse_header_name b i a)")
        case (PRet k)
        then obtain a1 d1 where nm: "parse_header_name b i a = (a1, PRet k)" "parse_header_name b i d = (d1, PRet k)"
          using r by (metis prod.collapse rel2_def)
        then have v: "rel2 agree_entry (parse_header_value b k a1) (parse_header_value b k d1)"
          using r by (simp add: rel2_def parse_header_value_agree [unfolded rel2_def])
        show ?thesis
        proof (cases "snd (parse_header_value b k a1)")
          case (PRet l)
          then obtain a2 d2 where vl: "parse_header_value b k a1 = (a2, PRet l)" "parse_header_value b k d1 = (d2, PRet l)"
            using v by (metis prod.collapse rel2_def)
          have "i < l" using parse_header_name_cursor [OF nm(1)] parse_header_value_cursor [OF vl(1)] by simp
          moreover have "agree_entry a2 d2" using v vl by (simp add: rel2_def)
          ultimately show ?thesis using step.IH [OF lt _ agree_next] by (simp add: nm vl)
        qed (insert v, auto simp: nm sbind_def rel2_def split: prod.splits pres.splits)
      qed (insert r, auto simp: sbind_def rel2_def split: prod.splits pres.splits)
    qed
    then show ?thesis using step.prems n by (auto simp: parse_headers_unfold lt intro: rel2_same)
  qed
qed

lemma parse_request_agree: "agree a d \<Longrightarrow> rel2 agree (parse_request b i a m) (parse_request b i d m)"
  unfolding parse_request_def Let_def
  by (auto intro!: rel2_lift rel2_same parse_headers_agree split: prod.splits simp: agree_def)

text \<open>What matters of the structure handed in: the bound and the size of the header array.\<close>

lemma phr_parse_request_agree:
  assumes "o_num_headers a = o_num_headers d" and "length (o_headers a) = length (o_headers d)"
  shows "rel2 agree (phr_parse_request b a l) (phr_parse_request b d l)"
  unfolding phr_parse_request_def Let_def assms(1)
  by (rule rel2_lift, rule parse_request_agree) (simp add: agree_def assms)

section \<open>A proper part of an acceptable request is incomplete\<close>

lemma phr_parse_request_consumed:
  assumes "snd (phr_parse_request b out 0) = PRet e"
  shows "e \<le> length b" and "0 < e"
proof -
  obtain out' where o: "phr_parse_request b out 0 = (out', PRet e)" using assms by (metis prod.collapse)
  then show "e \<le> length b"
    unfolding phr_parse_request_0 by (auto elim!: parse_request_steps dest!: parse_headers_bounds)
  show "0 < e" using parse_request_blank_line(2) [OF o [unfolded phr_parse_request_0]] by (auto simp: eol_def)
qed

text \<open>
  The request parser meets the contract \<open>gated_parser\<close>, for every structure whose header array is as long as
  announced.
\<close>

abbreviation request_start :: "phr_out \<Rightarrow> phr_out" where
  "request_start out \<equiv> out\<lparr>o_method := None, o_method_len := 0, o_path := None, o_path_len := 0, o_minor_version := -1,
     o_num_headers := 0\<rparr>"

lemma request_gated_parser:
  assumes "o_num_headers out \<le> length (o_headers out)"
  shows "gated_parser (\<lambda>b. parse_request b 0 (request_start out) (o_num_headers out))"
proof
  fix b c s e
  let ?p = "\<lambda>b. parse_request b 0 (request_start out) (o_num_headers out)"
  show "?p b = (s, PRet e)" if "?p (b @ c) = (s, PRet e)" "e \<le> length b"
    using that(1) _ that(2) by (rule parse_request_local) simp
  show "ext2 (?p b) (?p (b @ c))" by (rule ext2_parse_request)
  show "snd (?p b) \<noteq> PFault" using phr_parse_request_no_fault [of out 0 b] assms by (simp add: phr_parse_request_0)
  show "crlf b 0 e \<and> (\<exists>f. b ! f = LF \<and> eol b (f + 1) e)" if "?p b = (s, PRet e)"
    using parse_request_blank_line [OF that] by blast
qed

lemma phr_parse_request_gated:
  assumes "o_num_headers out \<le> length (o_headers out)"
  shows "phr_parse_request b out l =
    gated_parser.gated (\<lambda>b. parse_request b 0 (request_start out) (o_num_headers out)) (request_start out) b l"
  unfolding gated_parser.gated_def [OF request_gated_parser [OF assms]] phr_parse_request_def Let_def
  by (rule sbind_const)

lemma phr_parse_request_partial:
  assumes "phr_parse_request b out 0 = (out', PRet e)" "k < e" "l \<le> k" "o_num_headers out \<le> length (o_headers out)"
  shows "snd (phr_parse_request (take k b) out l) = PPartial"
  using gated_parser.gated_incomplete [OF request_gated_parser [OF assms(4)] assms(1) [unfolded phr_parse_request_0] assms(2,3)]
  by (simp only: phr_parse_request_gated [OF assms(4)])

lemma phr_parse_request_take:
  assumes "phr_parse_request b out 0 = (out', PRet e)" and "e \<le> k"
  shows "phr_parse_request (take k b) out 0 = (out', PRet e)"
proof -
  have "e \<le> length (take k b)"
    using phr_parse_request_consumed [of b out e] assms by simp
  moreover have "phr_parse_request (take k b @ drop k b) out 0 = (out', PRet e)" using assms(1) by simp
  ultimately show ?thesis
    unfolding phr_parse_request_0 by (intro parse_request_local [of "take k b" "drop k b"]) simp_all
qed

lemma phr_parse_request_later:
  assumes "phr_parse_request b out 0 = (out', PRet e)" "l < e" "o_num_headers out \<le> length (o_headers out)"
  shows "phr_parse_request b out l = (out', PRet e)"
  unfolding phr_parse_request_gated [OF assms(3)]
  using assms(1,2) by (intro gated_parser.gated_later [OF request_gated_parser [OF assms(3)]]) (simp_all add: phr_parse_request_0)

end
