(* ===== verification/HttpMessage.thy ===== *)
theory HttpMessage
  imports PicoReuse
begin

text \<open>
  The pure half of \<^verbatim>\<open>srclib/http.c\<close>: the request structure and its parsing, the body
  length, the method, path, query and MIME decisions, and the construction of a response head.
  Sizes and layouts are those of the build target (64-bit, little-endian): \<^verbatim>\<open>int\<close> has 32 bits,
  \<^verbatim>\<open>size_t\<close> has 64.
\<close>

section \<open>C library functions the component uses\<close>

text \<open>A C string is the list of its bytes before the terminating NUL.\<close>

definition cstr :: "bytes \<Rightarrow> bytes" where
  "cstr a = takeWhile (\<lambda>c. c \<noteq> NUL) a"

definition strrchr :: "bytes \<Rightarrow> char \<Rightarrow> bytes option" where
  "strrchr s c = (if c \<in> set s then Some (c # rev (takeWhile (\<lambda>x. x \<noteq> c) (rev s))) else None)"

definition digit_char :: "nat \<Rightarrow> char" where
  "digit_char n = char_of (48 + n)"

fun show_nat :: "nat \<Rightarrow> bytes" where
  "show_nat n = (if n < 10 then [digit_char n] else show_nat (n div 10) @ [digit_char (n mod 10)])"

declare show_nat.simps [simp del]

text \<open>The conversion \<^verbatim>\<open>%d\<close>.\<close>

definition show_int :: "int \<Rightarrow> bytes" where
  "show_int n = (if n < 0 then CHR ''-'' # show_nat (nat (- n)) else show_nat (nat n))"

definition is_digit :: "char \<Rightarrow> bool" where
  "is_digit c \<longleftrightarrow> 48 \<le> uchar c \<and> uchar c \<le> 57"

definition is_space :: "char \<Rightarrow> bool" where
  "is_space c \<longleftrightarrow> uchar c = 32 \<or> (9 \<le> uchar c \<and> uchar c \<le> 13)"

definition digits_value :: "bytes \<Rightarrow> nat" where
  "digits_value ds = foldl (\<lambda>n c. 10 * n + (uchar c - 48)) 0 ds"

text \<open>
  \<^verbatim>\<open>atoi\<close>: leading white space, an optional sign, digits; the value is computed as a \<^verbatim>\<open>long\<close>
  (saturating) and converted to \<^verbatim>\<open>int\<close>.
\<close>

definition atoi :: "bytes \<Rightarrow> int" where
  "atoi s =
     (let s = dropWhile is_space s;
          neg = (case s of c # _ \<Rightarrow> c = CHR ''-'' | [] \<Rightarrow> False);
          s = (case s of c # r \<Rightarrow> if c = CHR ''-'' \<or> c = CHR ''+'' then r else s | [] \<Rightarrow> s);
          n = int (digits_value (takeWhile is_digit s));
          v = max (- (2 ^ 63)) (min (2 ^ 63 - 1) (if neg then - n else n))
      in sint (word_of_int v :: 32 word))"

text \<open>A \<^verbatim>\<open>size_t\<close> stored over an \<^verbatim>\<open>int\<close> field: the field takes the low half, what follows it the high half.\<close>

definition lo32 :: "nat \<Rightarrow> int" where
  "lo32 n = sint (word_of_nat n :: 32 word)"

definition hi32 :: "nat \<Rightarrow> 32 word" where
  "hi32 n = word_of_nat (n div 2 ^ 32)"

definition join32 :: "int \<Rightarrow> 32 word \<Rightarrow> nat" where
  "join32 lo hi = unat (word_of_int lo :: 32 word) + 2 ^ 32 * unat hi"

section \<open>Constants and types of http.h and http.c\<close>

definition MAX_HEADERS :: nat where "MAX_HEADERS = 50"
definition MAX_BUFFR :: nat where "MAX_BUFFR = 8192"
definition MAX_HEADER_CONTENT :: nat where "MAX_HEADER_CONTENT = 64"
definition MAX_HEADER_VALUE_LEN :: nat where "MAX_HEADER_VALUE_LEN = 16"
definition MAX_PATH :: nat where "MAX_PATH = 132"

lemmas http_limits = MAX_HEADERS_def MAX_BUFFR_def MAX_HEADER_CONTENT_def MAX_HEADER_VALUE_LEN_def MAX_PATH_def

datatype http_status_t =
    HTTP_OK | HTTP_NO_CONTENT | HTTP_BAD_REQUEST | HTTP_FORBIDDEN | HTTP_NOT_FOUND
  | HTTP_NOT_ALLOWED | HTTP_INTERNAL_ERROR | HTTP_VERSION_NOT_SUPPORTED

primrec status_code :: "http_status_t \<Rightarrow> int" where
  "status_code HTTP_OK = 200"
| "status_code HTTP_NO_CONTENT = 204"
| "status_code HTTP_BAD_REQUEST = 400"
| "status_code HTTP_FORBIDDEN = 403"
| "status_code HTTP_NOT_FOUND = 404"
| "status_code HTTP_NOT_ALLOWED = 405"
| "status_code HTTP_INTERNAL_ERROR = 500"
| "status_code HTTP_VERSION_NOT_SUPPORTED = 505"

datatype http_method_t = HTTP_METHOD_UNKNOWN | HTTP_METHOD_GET | HTTP_METHOD_POST | HTTP_METHOD_OPTIONS

text \<open>
  Pointers of a request are offsets into the client's buffer. The two pad fields are the four
  bytes the compiler leaves after \<^verbatim>\<open>method_size\<close> and \<^verbatim>\<open>num_headers\<close>; \<^verbatim>\<open>url_size\<close> is followed
  directly by \<^verbatim>\<open>version\<close>.
\<close>

record http_request =
  rq_method :: "nat option"
  rq_method_size :: int
  rq_method_pad :: "32 word"
  rq_url :: "nat option"
  rq_url_size :: int
  rq_version :: int
  rq_headers :: "phr_header list"
  rq_num_headers :: int
  rq_num_headers_pad :: "32 word"
  rq_body :: "nat option"
  rq_body_size :: int

section \<open>Request structure\<close>

definition empty_header :: phr_header where
  "empty_header = \<lparr>h_name = None, h_name_len = 0, h_value = None, h_value_len = 0\<rparr>"

text \<open>\<open>mem\<close> is what \<^verbatim>\<open>malloc\<close> returned (\<open>None\<close> for NULL): it supplies the padding, which is not initialised.\<close>

definition http_init_request :: "http_request option \<Rightarrow> http_request option" where
  "http_init_request mem = map_option (\<lambda>r. r\<lparr>
     rq_method := None, rq_method_size := 0, rq_url := None, rq_url_size := 0, rq_version := 0,
     rq_headers := replicate MAX_HEADERS empty_header, rq_num_headers := 0,
     rq_body := None, rq_body_size := 0\<rparr>) mem"

text \<open>
  The four length out-parameters are \<^verbatim>\<open>int\<close> fields cast to \<^verbatim>\<open>size_t *\<close>: the array bound the parser
  reads back includes the padding behind \<^verbatim>\<open>num_headers\<close>, and storing \<^verbatim>\<open>path_len\<close> overwrites
  \<^verbatim>\<open>version\<close>, which keeps its -1 only if the path was never stored.
\<close>

definition request_out :: "http_request \<Rightarrow> phr_out" where
  "request_out request = \<lparr>o_method = rq_method request,
     o_method_len = join32 (rq_method_size request) (rq_method_pad request),
     o_path = rq_url request,
     o_path_len = join32 (rq_url_size request) (word_of_int (rq_version request)),
     o_minor_version = rq_version request,
     o_headers = rq_headers request,
     o_num_headers = join32 (rq_num_headers request) (rq_num_headers_pad request)\<rparr>"

definition request_store :: "http_request \<Rightarrow> phr_out \<Rightarrow> http_request" where
  "request_store request out = request\<lparr>rq_method := o_method out,
     rq_method_size := lo32 (o_method_len out),
     rq_method_pad := hi32 (o_method_len out),
     rq_url := o_path out,
     rq_url_size := lo32 (o_path_len out),
     rq_version := (if o_minor_version out = -1 \<and> o_path out \<noteq> None
                    then sint (hi32 (o_path_len out)) else o_minor_version out),
     rq_headers := o_headers out,
     rq_num_headers := lo32 (o_num_headers out),
     rq_num_headers_pad := hi32 (o_num_headers out)\<rparr>"

definition http_parse_request :: "bytes \<Rightarrow> http_request \<Rightarrow> nat \<Rightarrow> nat \<Rightarrow> http_request \<times> nat pres" where
  "http_parse_request buff request buff_len last_len =
     (let request = request\<lparr>rq_num_headers := int MAX_HEADERS\<rparr>;
          p = phr_parse_request (take buff_len buff) (request_out request) last_len
      in (request_store request (fst p), snd p))"

definition http_add_body :: "http_request \<Rightarrow> nat \<Rightarrow> int \<Rightarrow> http_request" where
  "http_add_body request body body_size = request\<lparr>rq_body := Some body, rq_body_size := body_size\<rparr>"

text \<open>
  The first header whose name is exactly \<^verbatim>\<open>Content-Length\<close>; at most fifteen bytes of its value
  reach \<^verbatim>\<open>atoi\<close>. The parameter \<open>n\<close> is the number of entries the loop visits.
\<close>

fun content_length_loop :: "bytes \<Rightarrow> phr_header list \<Rightarrow> nat \<Rightarrow> int" where
  "content_length_loop buff [] n = 0"
| "content_length_loop buff (h # hs) 0 = 0"
| "content_length_loop buff (h # hs) (Suc n) =
     (if h_name_len h = 14 \<and> bslice buff (the (h_name h)) 14 = ''Content-Length'' then
        (let len = h_value_len h;
             len = (if MAX_HEADER_VALUE_LEN \<le> len then MAX_HEADER_VALUE_LEN - 1 else len)
         in atoi (cstr (bslice buff (the (h_value h)) len)))
      else content_length_loop buff hs n)"

definition http_get_content_length :: "bytes \<Rightarrow> http_request \<Rightarrow> int" where
  "http_get_content_length buff request =
     content_length_loop buff (rq_headers request) (nat (rq_num_headers request))"

section \<open>Method, path, query, MIME type\<close>

text \<open>\<open>m\<close> is the memory the pointer points at.\<close>

definition request_method_type :: "bytes \<Rightarrow> nat \<Rightarrow> http_method_t" where
  "request_method_type m method_len =
     (if method_len = 3 \<and> take 3 m = ''GET'' then HTTP_METHOD_GET
      else if method_len = 4 \<and> take 4 m = ''POST'' then HTTP_METHOD_POST
      else if method_len = 7 \<and> take 7 m = ''OPTIONS'' then HTTP_METHOD_OPTIONS
      else HTTP_METHOD_UNKNOWN)"

definition status_text :: "int \<Rightarrow> bytes" where
  "status_text code =
     (if code = 200 then ''OK''
      else if code = 400 then ''Bad Request''
      else if code = 403 then ''Forbidden''
      else if code = 404 then ''Not Found''
      else if code = 405 then ''Method Not Allowed''
      else if code = 204 then ''No Content''
      else if code = 500 then ''Internal Error''
      else if code = 505 then ''Version Not Supported''
      else ''Error'')"

function check_path_traversal_loop :: "bytes \<Rightarrow> nat \<Rightarrow> nat \<Rightarrow> bool" where
  "check_path_traversal_loop url url_size i =
     (if i < url_size - 1 then
        (if url ! i = CHR 0x5C then True
         else if url ! i = CHR ''.'' \<and> url ! (i + 1) = CHR ''.'' then True
         else if url ! i = CHR ''/'' \<and> url ! (i + 1) = CHR ''/'' then True
         else check_path_traversal_loop url url_size (i + 1))
      else False)"
  by pat_completeness auto
termination
  by (relation "measure (\<lambda>(url, n, i). n - i)") auto

definition check_path_traversal :: "bytes \<Rightarrow> nat \<Rightarrow> bool" where
  "check_path_traversal url url_size = check_path_traversal_loop url url_size 0"

text \<open>
  The loop over the URL in \<^verbatim>\<open>process_get\<close>; the result is \<^verbatim>\<open>script_args\<close> (an offset, \<open>None\<close> for
  NULL), \<^verbatim>\<open>args_len\<close> and the new \<^verbatim>\<open>url_size\<close>.
\<close>

function split_query_loop :: "bytes \<Rightarrow> nat \<Rightarrow> nat \<Rightarrow> nat option \<Rightarrow> nat \<Rightarrow> nat option \<times> nat \<times> nat" where
  "split_query_loop url i url_size script_args args_len =
     (if i < url_size then
        (if url ! i = CHR ''?'' then split_query_loop url (i + 1) i (Some (i + 1)) (url_size - (i + 1))
         else split_query_loop url (i + 1) url_size script_args args_len)
      else (script_args, args_len, url_size))"
  by pat_completeness auto
termination
  by (relation "measure (\<lambda>(url, i, n, a, l). n - i)") auto

definition split_query :: "bytes \<Rightarrow> nat \<Rightarrow> nat option \<times> nat \<times> nat" where
  "split_query url url_size = split_query_loop url 0 url_size None 0"

text \<open>
  \<^verbatim>\<open>build_path\<close> fills the caller's array, whose bytes behind the terminator keep their old
  contents. The first component is the return value.
\<close>

definition build_path :: "bytes \<Rightarrow> nat \<Rightarrow> bytes \<Rightarrow> int \<times> bytes" where
  "build_path url url_size path =
     (if url_size > MAX_PATH - 1 then (-2, path)
      else if url ! 0 = CHR ''/'' \<and> url_size = 1 then
        (0, ''/index.html'' @ NUL # drop 12 path)
      else (0, take url_size url @ NUL # drop (url_size + 1) path))"

definition get_mime_type :: "bytes \<Rightarrow> bytes" where
  "get_mime_type path =
     (case strrchr path (CHR ''.'') of
        None \<Rightarrow> ''text/plain''
      | Some e \<Rightarrow>
         (let ext = tl e in
          if ext = ''txt'' then ''text/plain''
          else if ext = ''html'' then ''text/html''
          else if ext = ''gif'' then ''image/gif''
          else if ext = ''jpg'' \<or> ext = ''jpeg'' then ''image/jpeg''
          else if ext = ''mpeg'' \<or> ext = ''mpg'' then ''video/mpeg''
          else if ext = ''doc'' \<or> ext = ''docx'' then ''application/msword''
          else if ext = ''pdf'' then ''application/pdf''
          else if ext = ''py'' then ''text/x-python''
          else if ext = ''php'' then ''text/x-php''
          else if ext = ''css'' then ''text/css''
          else ''text/plain''))"

definition is_script :: "bytes \<Rightarrow> bool" where
  "is_script mime_type \<longleftrightarrow> mime_type = ''text/x-python'' \<or> mime_type = ''text/x-php''"

section \<open>Responses\<close>

record http_response =
  res_status :: http_status_t
  res_headers :: "(bytes \<times> bytes) list"

definition add_header :: "http_response \<Rightarrow> bytes \<Rightarrow> bytes \<Rightarrow> int \<times> http_response" where
  "add_header response name v =
     (if length (res_headers response) = MAX_HEADERS then (-1, response)
      else (0, response\<lparr>res_headers := res_headers response @ [(name, v)]\<rparr>))"

definition header_line :: "bytes \<times> bytes \<Rightarrow> bytes" where
  "header_line h = fst h @ '': '' @ snd h @ [CR, LF]"

definition status_line :: "http_status_t \<Rightarrow> bytes" where
  "status_line s = ''HTTP/1.0 '' @ show_int (status_code s) @ '' '' @ status_text (status_code s) @ [CR, LF]"

text \<open>
  \<^verbatim>\<open>serialize_response\<close> appends with \<^verbatim>\<open>snprintf\<close> and gives up (-1, here \<open>None\<close>) as soon as the
  text written so far would not fit with its terminator; otherwise the buffer holds the text.
\<close>

fun serialize_headers :: "bytes \<Rightarrow> (bytes \<times> bytes) list \<Rightarrow> nat \<Rightarrow> bytes option" where
  "serialize_headers buffer [] sz = Some buffer"
| "serialize_headers buffer (h # hs) sz =
     (let buffer = buffer @ header_line h in
      if sz \<le> length buffer then None else serialize_headers buffer hs sz)"

definition serialize_response :: "http_response \<Rightarrow> nat \<Rightarrow> bytes option" where
  "serialize_response res sz =
     (let buffer = status_line (res_status res) in
      if sz \<le> length buffer then None
      else (case serialize_headers buffer (res_headers res) sz of
              None \<Rightarrow> None
            | Some buffer \<Rightarrow>
               (let buffer = buffer @ [CR, LF] in
                if sz \<le> length buffer then None else Some buffer)))"

declare check_path_traversal_loop.simps [simp del] split_query_loop.simps [simp del]

section \<open>Numbers\<close>

lemma uchar_digit_char: "n < 10 \<Longrightarrow> uchar (digit_char n) = 48 + n"
  by (simp add: digit_char_def uchar_def of_char_of)

lemma digits_value_append: "digits_value (xs @ [c]) = 10 * digits_value xs + (uchar c - 48)"
  by (simp add: digits_value_def)

lemma show_nat_digits: "(\<forall>c \<in> set (show_nat n). is_digit c) \<and> digits_value (show_nat n) = n \<and> show_nat n \<noteq> []"
proof (induction n rule: show_nat.induct)
  case (1 n)
  show ?case
  proof (cases "n < 10")
    case True
    then show ?thesis
      by (subst (1 2 3) show_nat.simps) (simp add: is_digit_def digits_value_def uchar_digit_char)
  next
    case False
    with 1 have IH: "\<forall>c \<in> set (show_nat (n div 10)). is_digit c" "digits_value (show_nat (n div 10)) = n div 10" by auto
    have "is_digit (digit_char (n mod 10))" by (simp add: is_digit_def uchar_digit_char)
    moreover have "10 * (n div 10) + n mod 10 = n" by simp
    ultimately show ?thesis using IH False
      by (subst (1 2 3) show_nat.simps) (auto simp: digits_value_append uchar_digit_char)
  qed
qed

lemma is_digit_not [simp]: "is_digit c \<Longrightarrow> \<not> is_space c \<and> c \<noteq> CHR ''-'' \<and> c \<noteq> CHR ''+''"
  by (auto simp: is_digit_def is_space_def uchar_def)

lemma dropWhile_digit: "\<forall>c \<in> set ds. is_digit c \<Longrightarrow> dropWhile is_space ds = ds"
  by (cases ds) auto

lemma takeWhile_digit: "\<forall>c \<in> set ds. is_digit c \<Longrightarrow> takeWhile is_digit ds = ds"
  by (simp add: takeWhile_eq_all_conv)

lemma sint_in_range: "- (2 ^ 31) \<le> n \<Longrightarrow> n < 2 ^ 31 \<Longrightarrow> sint (word_of_int n :: 32 word) = n"
  by (simp add: int_word_sint)

lemma atoi_show_int:
  assumes "- (2 ^ 31) \<le> n" "n < 2 ^ 31"
  shows "atoi (show_int n) = n"
proof (cases "n < 0")
  case True
  let ?ds = "show_nat (nat (- n))"
  have "\<not> is_space (CHR ''-'')" by (simp add: is_space_def uchar_def)
  with True assms show ?thesis
    using show_nat_digits [of "nat (- n)"] sint_in_range [of n]
    by (simp add: atoi_def show_int_def takeWhile_digit)
next
  case False
  let ?ds = "show_nat (nat n)"
  obtain c r where ds: "?ds = c # r" "is_digit c" using show_nat_digits [of "nat n"] by (cases ?ds) auto
  have "dropWhile is_space ?ds = ?ds" "takeWhile is_digit ?ds = ?ds" "digits_value ?ds = nat n"
    using show_nat_digits [of "nat n"] by (simp_all add: dropWhile_digit takeWhile_digit)
  with False assms ds show ?thesis
    using sint_in_range [of n] by (simp add: atoi_def show_int_def Let_def takeWhile_digit)
qed

section \<open>Paths and queries\<close>

lemma check_path_traversal_loop_iff:
  "check_path_traversal_loop url n i \<longleftrightarrow>
     (\<exists>k. i \<le> k \<and> k + 1 < n \<and> (url ! k = CHR 0x5C \<or> url ! k = CHR ''.'' \<and> url ! (k + 1) = CHR ''.''
        \<or> url ! k = CHR ''/'' \<and> url ! (k + 1) = CHR ''/''))"
proof (induction url n i rule: check_path_traversal_loop.induct)
  case (1 url n i)
  have *: "i \<le> k \<longleftrightarrow> k = i \<or> i + 1 \<le> k" for k by auto
  show ?case
  proof (cases "i < n - 1")
    case True
    then show ?thesis
      using 1 by (subst check_path_traversal_loop.simps) (auto simp: *)
  next
    case False
    then show ?thesis by (subst check_path_traversal_loop.simps) auto
  qed
qed

lemma pair_sublist: "(\<exists>k. k + 1 < length u \<and> u ! k = x \<and> u ! (k + 1) = y) \<longleftrightarrow> (\<exists>p s. u = p @ x # y # s)"
proof
  assume "\<exists>k. k + 1 < length u \<and> u ! k = x \<and> u ! (k + 1) = y"
  then obtain k where "k + 1 < length u" "u ! k = x" "u ! (k + 1) = y" by blast
  then have "u = take k u @ x # y # drop (k + 2) u"
    by (metis Cons_nth_drop_Suc Suc_eq_plus1 Suc_lessD add_2_eq_Suc' append_take_drop_id)
  then show "\<exists>p s. u = p @ x # y # s" by blast
next
  assume "\<exists>p s. u = p @ x # y # s"
  then obtain p s where "u = p @ x # y # s" by blast
  then show "\<exists>k. k + 1 < length u \<and> u ! k = x \<and> u ! (k + 1) = y"
    by (intro exI [of _ "length p"]) (simp add: nth_append)
qed

lemma split_query_loop_done: "n \<le> i \<Longrightarrow> split_query_loop url i n a l = (a, l, n)"
  by (subst split_query_loop.simps) simp

lemma split_query_loop_found:
  "i \<le> length p \<Longrightarrow> CHR ''?'' \<notin> set p \<Longrightarrow>
   split_query_loop (p @ CHR ''?'' # q) i (length p + 1 + length q) a l = (Some (length p + 1), length q, length p)"
proof (induction "length p - i" arbitrary: i)
  case 0
  then have "i = length p" by simp
  then show ?case
    by (subst split_query_loop.simps) (simp add: split_query_loop_done)
next
  case (Suc k)
  then have "i < length p" by simp
  with Suc.prems(2) have "i < length p" "(p @ CHR ''?'' # q) ! i \<noteq> CHR ''?''"
    by (simp_all add: nth_append nth_not_in)
  with Suc show ?case
    by (subst split_query_loop.simps) simp
qed

lemma split_query_loop_none:
  "i \<le> length u \<Longrightarrow> CHR ''?'' \<notin> set u \<Longrightarrow> split_query_loop u i (length u) a l = (a, l, length u)"
proof (induction "length u - i" arbitrary: i)
  case 0
  then show ?case by (simp add: split_query_loop_done)
next
  case (Suc k)
  then have "i < length u" by simp
  with Suc.prems(2) have "i < length u" "u ! i \<noteq> CHR ''?''" by (simp_all add: nth_not_in)
  with Suc show ?case
    by (subst split_query_loop.simps) simp
qed

lemma split_query_found:
  "CHR ''?'' \<notin> set p \<Longrightarrow> split_query (p @ CHR ''?'' # q) (length p + 1 + length q) = (Some (length p + 1), length q, length p)"
  unfolding split_query_def by (rule split_query_loop_found) simp_all

lemma split_query_none: "CHR ''?'' \<notin> set u \<Longrightarrow> split_query u (length u) = (None, 0, length u)"
  unfolding split_query_def by (rule split_query_loop_none) simp_all

text \<open>What the traversal check rejects, as substrings of the URL.\<close>

lemma check_path_traversal_iff:
  "check_path_traversal u (length u) \<longleftrightarrow>
     CHR 0x5C \<in> set (butlast u) \<or> (\<exists>p s. u = p @ ''..'' @ s) \<or> (\<exists>p s. u = p @ ''//'' @ s)"
proof -
  have "(\<exists>k. k + 1 < length u \<and> u ! k = CHR 0x5C) \<longleftrightarrow> CHR 0x5C \<in> set (butlast u)"
    by (auto simp: in_set_conv_nth nth_butlast less_diff_conv)
  then show ?thesis
    using pair_sublist [of u "CHR ''.''" "CHR ''.''"] pair_sublist [of u "CHR ''/''" "CHR ''/''"]
    unfolding check_path_traversal_def check_path_traversal_loop_iff by auto
qed

lemma cstr_append_NUL [simp]: "NUL \<notin> set u \<Longrightarrow> cstr (u @ NUL # r) = u"
  by (simp add: cstr_def takeWhile_append)

lemma build_path_long: "MAX_PATH \<le> n \<Longrightarrow> build_path url n path = (-2, path)"
  by (simp add: build_path_def http_limits)

lemma build_path_ok:
  assumes "n < MAX_PATH" and "n \<le> length url" and "length path = MAX_PATH" and "NUL \<notin> set (take n url)"
  shows "\<exists>path'. build_path url n path = (0, path') \<and> length path' = MAX_PATH \<and>
     cstr path' = (if take n url = ''/'' then ''/index.html'' else take n url)"
proof (cases "url ! 0 = CHR ''/'' \<and> n = 1")
  case True
  with assms(2) have "take n url = ''/''" by (cases url) auto
  moreover have "cstr (''/index.html'' @ NUL # drop 12 path) = ''/index.html''"
    by (rule cstr_append_NUL) simp
  ultimately show ?thesis using True assms by (simp add: build_path_def http_limits)
next
  case False
  then have "take n url \<noteq> ''/''" using assms(2) by (cases url; cases n) (auto simp: take_Cons')
  with False assms show ?thesis
    using cstr_append_NUL [OF assms(4)] by (auto simp: build_path_def http_limits)
qed

section \<open>MIME types\<close>

lemma strrchr_Some: "strrchr s c = Some e \<longleftrightarrow> (\<exists>p r. s = p @ c # r \<and> c \<notin> set r \<and> e = c # r)"
proof
  assume "strrchr s c = Some e"
  then have c: "c \<in> set s" and e: "e = c # rev (takeWhile (\<lambda>x. x \<noteq> c) (rev s))"
    by (auto simp: strrchr_def split: if_splits)
  obtain p r where "s = p @ c # r" "c \<notin> set r" using c split_list_last by metis
  with e show "\<exists>p r. s = p @ c # r \<and> c \<notin> set r \<and> e = c # r"
    by (auto simp: takeWhile_append takeWhile_eq_all_conv)
next
  assume "\<exists>p r. s = p @ c # r \<and> c \<notin> set r \<and> e = c # r"
  then show "strrchr s c = Some e"
    by (auto simp: strrchr_def takeWhile_append)
qed

lemma strrchr_None: "strrchr s c = None \<longleftrightarrow> c \<notin> set s"
  by (simp add: strrchr_def)

lemma is_script_ext:
  "is_script (get_mime_type s) \<longleftrightarrow> (\<exists>p. s = p @ ''.py'') \<or> (\<exists>p. s = p @ ''.php'')"
proof (cases "strrchr s (CHR ''.'')")
  case None
  then have "\<not> is_script (get_mime_type s)" and "CHR ''.'' \<notin> set s"
    by (simp add: get_mime_type_def is_script_def) (simp add: None flip: strrchr_None)
  then show ?thesis by auto
next
  case (Some e)
  then obtain p r where s: "s = p @ CHR ''.'' # r" "CHR ''.'' \<notin> set r" "e = CHR ''.'' # r"
    by (auto simp: strrchr_Some)
  have "is_script (get_mime_type s) \<longleftrightarrow> r = ''py'' \<or> r = ''php''"
    by (simp add: get_mime_type_def Some s(3) is_script_def)
  moreover have "(\<exists>p'. s = p' @ CHR ''.'' # x) \<longleftrightarrow> r = x" if "CHR ''.'' \<notin> set x" for x
    using s that by (auto simp: append_eq_append_conv2 Cons_eq_append_conv append_eq_Cons_conv)
  ultimately show ?thesis by simp
qed

section \<open>Serialisation\<close>

lemma serialize_headers_eq:
  "length buffer < sz \<Longrightarrow> serialize_headers buffer hs sz =
     (if length (buffer @ concat (map header_line hs)) < sz then Some (buffer @ concat (map header_line hs)) else None)"
  by (induction hs arbitrary: buffer) (auto simp: Let_def)

definition response_text :: "http_response \<Rightarrow> bytes" where
  "response_text res = status_line (res_status res) @ concat (map header_line (res_headers res)) @ [CR, LF]"

lemma serialize_response_eq:
  "serialize_response res sz = (if length (response_text res) < sz then Some (response_text res) else None)"
  by (auto simp: serialize_response_def Let_def serialize_headers_eq response_text_def)

section \<open>Parsing into the request structure\<close>

text \<open>
  The structure is safe to parse into when its header array has its declared length and the
  padding behind \<^verbatim>\<open>num_headers\<close> is zero, as \<^verbatim>\<open>calloc\<close> leaves it.
\<close>

definition request_inv :: "http_request \<Rightarrow> bool" where
  "request_inv r \<longleftrightarrow> length (rq_headers r) = MAX_HEADERS \<and> rq_num_headers_pad r = 0"

definition zero_request :: http_request where
  "zero_request = \<lparr>rq_method = None, rq_method_size = 0, rq_method_pad = 0, rq_url = None, rq_url_size = 0,
     rq_version = 0, rq_headers = replicate MAX_HEADERS empty_header, rq_num_headers = 0,
     rq_num_headers_pad = 0, rq_body = None, rq_body_size = 0\<rparr>"

lemma request_inv_zero: "request_inv zero_request"
  by (simp add: request_inv_def zero_request_def)

lemma join32_small:
  assumes "0 \<le> n" "n < 2 ^ 31"
  shows "join32 n 0 = nat n"
proof -
  have "uint (word_of_int n :: 32 word) = n" using assms by (simp add: uint_word_of_int)
  then have "unat (word_of_int n :: 32 word) = nat n" by (metis nat_uint_eq)
  then show ?thesis by (simp add: join32_def)
qed

lemma lo32_small: "n < 2 ^ 31 \<Longrightarrow> lo32 n = int n"
  using sint_in_range [of "int n"] by (simp add: lo32_def)

lemma hi32_small: "n < 2 ^ 32 \<Longrightarrow> hi32 n = 0"
  by (simp add: hi32_def)

lemma parse_headers_fst:
  "o_num_headers out \<le> m \<Longrightarrow>
   length (o_headers (fst (parse_headers b i out m))) = length (o_headers out) \<and> o_num_headers (fst (parse_headers b i out m)) \<le> m"
proof (induction i arbitrary: out rule: cursor_jump_induct [of b])
  case (step i)
  let ?P = "\<lambda>x. length (o_headers x) = length (o_headers out) \<and> o_num_headers x \<le> m"
  show ?case
  proof (cases "i < length b")
    case False
    with step.prems show ?thesis
      by (subst (1 2) parse_headers.simps) (auto simp: CHECK_EOF_def)
  next
    case lt: True
    have n: "same_array out (fst (parse_header_name b i out))" by (rule parse_header_name_same_array)
    have "?P (fst (sbind (parse_header_name b i out) (\<lambda>out i. sbind (parse_header_value b i out) (\<lambda>out i.
          parse_headers b i (out\<lparr>o_num_headers := o_num_headers out + 1\<rparr>) m))))" if "o_num_headers out < m"
    proof (rule sbind_fst [where P = ?P])
      show "?P (fst (parse_header_name b i out))" using n step.prems by (simp add: same_array_def)
    next
      fix out1 k
      assume nm: "parse_header_name b i out = (out1, PRet k)"
      then have n1: "same_array out out1" using n by simp
      show "?P (fst (sbind (parse_header_value b k out1) (\<lambda>out i.
          parse_headers b i (out\<lparr>o_num_headers := o_num_headers out + 1\<rparr>) m)))"
      proof (rule sbind_fst [where P = ?P])
        show "?P (fst (parse_header_value b k out1))"
          using parse_header_value_same_array [of out1 b k] n1 step.prems by (simp add: same_array_def)
      next
        fix out2 l
        assume v: "parse_header_value b k out1 = (out2, PRet l)"
        then have "same_array out1 out2" using parse_header_value_same_array [of out1 b k] by simp
        moreover have "i < l" using parse_header_name_cursor [OF nm] parse_header_value_cursor [OF v] by simp
        ultimately show "?P (fst (parse_headers b l (out2\<lparr>o_num_headers := o_num_headers out2 + 1\<rparr>) m))"
          using step.IH [OF lt, of l "out2\<lparr>o_num_headers := o_num_headers out2 + 1\<rparr>"] n1 that
          by (simp add: same_array_def)
      qed
    qed
    then show ?thesis using step.prems lt by (auto simp: parse_headers_unfold)
  qed
qed

definition array_kept :: "phr_out \<Rightarrow> phr_out \<Rightarrow> bool" where
  "array_kept out x \<longleftrightarrow> length (o_headers x) = length (o_headers out) \<and> o_num_headers x \<le> o_num_headers out"

lemma phr_parse_request_fst: "array_kept out (fst (phr_parse_request b out l))"
proof -
  let ?P = "array_kept out"
  have p: "?P o'" and h: "?P (fst (parse_headers b i o' (o_num_headers out)))"
    if "o_num_headers o' = 0" "o_headers o' = o_headers out" for i o'
    using parse_headers_fst [of o' "o_num_headers out" b i] that by (simp_all add: array_kept_def)
  have "?P (fst (parse_request b 0 o' (o_num_headers out)))" if "o_num_headers o' = 0" "o_headers o' = o_headers out" for o'
    unfolding parse_request_def Let_def
    by (auto simp: that p h split: prod.splits intro!: sbind_fst [where P = ?P])
  then show ?thesis
    unfolding phr_parse_request_def Let_def by (intro sbind_fst [where P = ?P]) (auto simp: p)
qed

abbreviation parser_out :: "http_request \<Rightarrow> phr_out" where
  "parser_out r \<equiv> request_out (r\<lparr>rq_num_headers := int MAX_HEADERS\<rparr>)"

lemma http_parse_request_snd:
  "snd (http_parse_request buff r n l) = snd (phr_parse_request (take n buff) (parser_out r) l)"
  by (simp add: http_parse_request_def Let_def)

lemma parser_out_headers:
  "request_inv r \<Longrightarrow> o_num_headers (parser_out r) = MAX_HEADERS \<and> length (o_headers (parser_out r)) = MAX_HEADERS"
  using join32_small [of "int MAX_HEADERS"] by (simp add: request_inv_def request_out_def http_limits)

lemma http_parse_request_inv:
  assumes "request_inv r"
  shows "request_inv (fst (http_parse_request buff r n l))"
proof -
  have "array_kept (parser_out r) (fst (phr_parse_request (take n buff) (parser_out r) l))"
    by (rule phr_parse_request_fst)
  with parser_out_headers [OF assms] show ?thesis
    by (simp add: http_parse_request_def request_store_def request_inv_def Let_def array_kept_def hi32_small http_limits)
qed

lemma http_parse_request_no_fault:
  assumes "request_inv r" and "l \<le> n" and "n \<le> length buff"
  shows "snd (http_parse_request buff r n l) \<noteq> PFault"
  using parser_out_headers [OF assms(1)] assms(2,3)
  by (simp add: http_parse_request_snd phr_parse_request_no_fault)

text \<open>The head parser of the server, on a zeroed structure, is incremental.\<close>

definition head_verdict :: "bytes \<Rightarrow> nat \<Rightarrow> nat pres" where
  "head_verdict b last_len = snd (http_parse_request b zero_request (length b) last_len)"

lemma head_verdict_eq: "head_verdict b l = snd (phr_parse_request b (parser_out zero_request) l)"
  by (simp add: head_verdict_def http_parse_request_snd)

interpretation http_head: incremental_parser head_verdict
proof unfold_locales
  fix b e k l
  assume v: "head_verdict b 0 = PRet e"
  then obtain out where o: "phr_parse_request b (parser_out zero_request) 0 = (out, PRet e)"
    unfolding head_verdict_eq by (metis prod.collapse)
  have cap: "o_num_headers (parser_out zero_request) \<le> length (o_headers (parser_out zero_request))"
    using parser_out_headers [OF request_inv_zero] by simp
  show "head_verdict (take k b) l = PPartial" if "k < e" "l \<le> k"
    unfolding head_verdict_eq by (rule phr_parse_request_partial [OF o that cap])
  show "head_verdict b l = PRet e" if "l < e"
    unfolding head_verdict_eq by (simp only: phr_parse_request_later [OF o that cap] snd_conv)
  show "head_verdict (take k b) 0 = PRet e" if "e \<le> k"
    unfolding head_verdict_eq by (simp only: phr_parse_request_take [OF o that] snd_conv)
  show "0 < e \<and> e \<le> length b"
    using v unfolding head_verdict_eq by (auto dest: phr_parse_request_consumed)
qed

end
