(* ===== verification/ParserProperties.thy ===== *)
theory ParserProperties
  imports PicoRoundtrip PicoSSE HttpMessage
begin

text \<open>
  The correctness properties of the request parser (\<^verbatim>\<open>srclib/picohttpparser.c\<close>), stated over its
  entry point, with concrete instances.
\<close>

section \<open>A sample request and a sample structure\<close>

definition sample_request :: bytes where
  "sample_request = ''GET /a HTTP/1.0'' @ [CR, LF] @ ''A: b'' @ [CR, LF, CR, LF]"

definition sample_out :: phr_out where
  "sample_out = \<lparr>o_method = None, o_method_len = 0, o_path = None, o_path_len = 0, o_minor_version = 0,
     o_headers = replicate 2 empty_header, o_num_headers = 2\<rparr>"

definition used_out :: phr_out where
  "used_out = \<lparr>o_method = Some 3, o_method_len = 9, o_path = Some 1, o_path_len = 5, o_minor_version = 1,
     o_headers = replicate 2 \<lparr>h_name = Some 7, h_name_len = 1, h_value = Some 8, h_value_len = 4\<rparr>, o_num_headers = 2\<rparr>"

lemma sample_accepted:
  "phr_parse_request sample_request sample_out 0 =
     (\<lparr>o_method = Some 0, o_method_len = 3, o_path = Some 4, o_path_len = 2, o_minor_version = 0,
       o_headers = [\<lparr>h_name = Some 17, h_name_len = 1, h_value = Some 20, h_value_len = 1\<rparr>, empty_header],
       o_num_headers = 1\<rparr>, PRet 25)"
  by code_simp

lemma sample_out_simps [simp]: "o_num_headers sample_out = 2" "length (o_headers sample_out) = 2"
  "o_num_headers used_out = 2" "length (o_headers used_out) = 2" "length sample_request = 25"
  by (simp_all add: sample_out_def used_out_def sample_request_def)

section \<open>Properties\<close>

text \<open>
  C1: memory safety. As long as the caller's header array has at least as many elements as
  \<^verbatim>\<open>*num_headers\<close> announces, and \<^verbatim>\<open>last_len\<close> is not beyond the buffer, \<^verbatim>\<open>phr_parse_request\<close> reads
  no byte outside the buffer and writes no header outside the array, whatever the bytes are.
\<close>
theorem phr_parse_request_memory_safe:
  assumes "o_num_headers out \<le> length (o_headers out)" and "last_len \<le> length b + 3"
  shows "snd (phr_parse_request b out last_len) \<noteq> PFault"
  using assms by (rule phr_parse_request_no_fault)

theorem phr_parse_request_memory_safe_witness:
  "snd (phr_parse_request sample_request sample_out 7) \<noteq> PFault"
  using phr_parse_request_memory_safe [of sample_out 7 sample_request] by simp

text \<open>
  C5: soundness. When \<^verbatim>\<open>phr_parse_request\<close> accepts, it consumed part of the buffer, the method is
  a non-empty token, the path a non-empty run of visible characters, the minor version a digit,
  every header a token (or a continuation line) with a value free of control characters and of
  trailing blanks, all inside the buffer, and there are at most as many headers as allowed.
\<close>
theorem phr_parse_request_sound:
  assumes "phr_parse_request b out 0 = (out', PRet n)"
  shows "0 < n \<and> n \<le> length b \<and> request_ok b out' \<and> o_num_headers out' \<le> o_num_headers out"
proof -
  have "request_ok b out'"
    using assms unfolding phr_parse_request_0 by (rule parse_request_ok) simp
  moreover have "o_num_headers out' \<le> o_num_headers out"
    using phr_parse_request_fst [of out b 0] by (simp only: assms fst_conv array_kept_def)
  ultimately show ?thesis
    using phr_parse_request_consumed [of b out n] assms by simp
qed

theorem phr_parse_request_sound_witness:
  "0 < (25 :: nat) \<and> 25 \<le> length sample_request \<and> request_ok sample_request (fst (phr_parse_request sample_request sample_out 0))
     \<and> o_num_headers (fst (phr_parse_request sample_request sample_out 0)) \<le> 2"
  using phr_parse_request_sound [OF sample_accepted] by (simp add: sample_accepted)

text \<open>
  C4: round trip. The text of a well-formed request (with anything behind it) is accepted,
  exactly that text is consumed, and the pointers stored in the structure denote the method, the
  path, the version and the header pairs that were printed.
\<close>
theorem phr_parse_request_roundtrip:
  assumes "wf_request method path minor hs" and "length hs \<le> o_num_headers out"
    and "o_num_headers out \<le> length (o_headers out)"
  shows "\<exists>out'. phr_parse_request (print_request method path minor hs @ rest) out 0 =
        (out', PRet (length (print_request method path minor hs)))
     \<and> bslice (print_request method path minor hs @ rest) (the (o_method out')) (o_method_len out') = method
     \<and> bslice (print_request method path minor hs @ rest) (the (o_path out')) (o_path_len out') = path
     \<and> o_minor_version out' = int (uchar minor) - 48
     \<and> header_pairs (print_request method path minor hs @ rest) out' = hs"
proof -
  let ?b = "print_request method path minor hs @ rest"
  let ?pre = "method @ SP # path @ SP # ''HTTP/1.'' @ [minor, CR, LF]"
  let ?out = "out\<lparr>o_num_headers := 0, o_method := Some 0, o_method_len := length method, o_path := Some (length method + 1),
      o_path_len := length path, o_minor_version := int (uchar minor) - 48\<rparr>"
  let ?out' = "store_headers ?out (length method + length path + 12) hs"
  have b: "?b = ?pre @ concat (map print_header hs) @ ([CR, LF] @ rest)" and p: "length ?pre = length method + length path + 12"
    by (simp_all add: print_request_def)
  have "header_pairs ?b ?out' = hs"
    unfolding b p [symmetric] using assms(2,3) by (intro header_pairs_store) simp_all
  moreover have "phr_parse_request ?b out 0 = (?out', PRet (length (print_request method path minor hs)))"
    unfolding phr_parse_request_0
    using parse_request_run [OF assms(1), of "out\<lparr>o_method := None, o_method_len := 0, o_path := None, o_path_len := 0,
        o_minor_version := -1, o_num_headers := 0\<rparr>" "o_num_headers out" rest] assms(2,3) by simp
  ultimately show ?thesis
    by (intro exI [of _ ?out']) (simp add: store_headers_def bslice_def print_request_def)
qed

theorem phr_parse_request_roundtrip_witness:
  "\<exists>out'. phr_parse_request (print_request ''GET'' ''/a'' (CHR ''1'') [(''A'', ''b'')] @ ''x'') sample_out 0 =
        (out', PRet (length (print_request ''GET'' ''/a'' (CHR ''1'') [(''A'', ''b'')])))
     \<and> header_pairs (print_request ''GET'' ''/a'' (CHR ''1'') [(''A'', ''b'')] @ ''x'') out' = [(''A'', ''b'')]"
proof -
  have "wf_request ''GET'' ''/a'' (CHR ''1'') [(''A'', ''b'')]" by code_simp
  from phr_parse_request_roundtrip [OF this, of sample_out "''x''"] show ?thesis by auto
qed

text \<open>
  C17: a verdict is final. When the parser accepts or rejects what has been received, more bytes
  do not change the verdict or anything that was stored.
\<close>
theorem phr_parse_request_final:
  assumes "snd (phr_parse_request b out 0) \<noteq> PPartial" and "o_num_headers out \<le> length (o_headers out)"
  shows "phr_parse_request (b @ c) out 0 = phr_parse_request b out 0"
  using ext2_phr_parse_request [of b out c] phr_parse_request_no_fault [OF assms(2), of 0 b] assms(1)
  by (simp add: ext2_def)

theorem phr_parse_request_final_witness:
  "phr_parse_request (sample_request @ ''x'') sample_out 0 = phr_parse_request sample_request sample_out 0"
  by (rule phr_parse_request_final) (simp_all add: sample_accepted)

text \<open>
  C12: resuming is sound and complete. If the first \<^verbatim>\<open>last_len\<close> bytes were not yet an acceptable
  request, the parser started with \<^verbatim>\<open>last_len\<close> (which first looks only for the end of the head)
  accepts exactly the buffers, with exactly the result, of a parser started from scratch.
\<close>
theorem phr_parse_request_resumes:
  assumes "\<forall>n. snd (phr_parse_request (take last_len b) out 0) \<noteq> PRet n"
  shows "phr_parse_request b out last_len = (out', PRet e) \<longleftrightarrow> phr_parse_request b out 0 = (out', PRet e)"
  using assms by (rule phr_parse_request_resume)

theorem phr_parse_request_resumes_witness:
  "snd (phr_parse_request sample_request sample_out 20) = PRet 25"
proof -
  have "snd (phr_parse_request (take 20 sample_request) sample_out 0) = PPartial" by code_simp
  then have "\<forall>n. snd (phr_parse_request (take 20 sample_request) sample_out 0) \<noteq> PRet n" by simp
  from phr_parse_request_resumes [OF this, THEN iffD2, OF sample_accepted] show ?thesis by simp
qed

text \<open>
  no premature verdict. A proper initial part of an acceptable request, shorter than what is
  finally consumed, is reported as incomplete, from whatever earlier length parsing is resumed.
\<close>
theorem phr_parse_request_prefix_partial:
  assumes "phr_parse_request b out 0 = (out', PRet e)" and "k < e" and "last_len \<le> k"
    and "o_num_headers out \<le> length (o_headers out)"
  shows "snd (phr_parse_request (take k b) out last_len) = PPartial"
  using assms by (rule phr_parse_request_partial)

theorem phr_parse_request_prefix_partial_witness:
  "snd (phr_parse_request (take 24 sample_request) sample_out 10) = PPartial"
  by (rule phr_parse_request_prefix_partial [OF sample_accepted]) simp_all

text \<open>
  the structure handed in does not matter. Parsing into two structures with the same bound
  and array size gives the same verdict, and on acceptance the same method, path, version, number
  of headers and headers, whatever an earlier attempt left in them.
\<close>
theorem phr_parse_request_any_structure:
  assumes "o_num_headers out = o_num_headers used" and "length (o_headers out) = length (o_headers used)"
  shows "rel2 agree (phr_parse_request b out last_len) (phr_parse_request b used last_len)"
  using assms by (rule phr_parse_request_agree)

theorem phr_parse_request_any_structure_witness:
  "snd (phr_parse_request sample_request used_out 0) = PRet 25"
  using phr_parse_request_any_structure [of sample_out used_out sample_request 0]
  by (simp add: rel2_def sample_accepted)

text \<open>
  C21: the scanner that looks at eight bytes per round finds the same end of line, with the same
  verdict, as the scan one byte at a time.
\<close>
theorem get_token_to_eol_bytewise:
  assumes "i \<le> length b"
  shows "get_token_to_eol b i = get_token_to_eol_ref b i"
  using assms by (rule get_token_to_eol_eq_ref)

theorem get_token_to_eol_bytewise_witness:
  "get_token_to_eol sample_request 20 = get_token_to_eol_ref sample_request 20 \<and> get_token_to_eol_ref sample_request 20 = PRet (20, 1, 23)"
proof
  show "get_token_to_eol sample_request 20 = get_token_to_eol_ref sample_request 20"
    by (rule get_token_to_eol_bytewise) simp
  show "get_token_to_eol_ref sample_request 20 = PRet (20, 1, 23)" by code_simp
qed

text \<open>
  C20: the SSE4.2 build. \<^verbatim>\<open>parse_token\<close> (for the two characters it is called with), \<^verbatim>\<open>ADVANCE_TOKEN\<close> and
  \<^verbatim>\<open>get_token_to_eol\<close>, which start with a search of sixteen bytes at a time when compiled for SSE4.2, return
  what the portable versions return, wherever the cursor is in the buffer, and never load bytes behind it.
\<close>
theorem sse_build_agrees:
  assumes "i \<le> length b" and "ch = SP \<or> ch = CHR '':''"
  shows "parse_token_sse b i ch = parse_token b i ch \<and> ADVANCE_TOKEN_sse b i = ADVANCE_TOKEN b i
    \<and> get_token_to_eol_sse b i = get_token_to_eol b i \<and> get_token_to_eol_sse b i \<noteq> PFault"
  using parse_token_sse_eq [OF assms] ADVANCE_TOKEN_sse_eq [OF assms(1)] get_token_to_eol_sse_eq [OF assms(1)]
    get_token_to_eol_no_fault [OF assms(1)] by simp

theorem sse_build_agrees_witness:
  "get_token_to_eol_sse sample_request 4 = PRet (4, 11, 17) \<and> ADVANCE_TOKEN_sse sample_request 4 = PRet (4, 2, 6)"
proof -
  have "get_token_to_eol sample_request 4 = PRet (4, 11, 17)" "ADVANCE_TOKEN sample_request 4 = PRet (4, 2, 6)" by code_simp+
  with sse_build_agrees [of 4 sample_request SP] show ?thesis by simp
qed

end
