(* ===== verification/HttpDate.thy ===== *)
theory HttpDate
  imports HttpMessage
begin

text \<open>
  The dates of a response: \<^verbatim>\<open>gmtime\<close> followed by \<^verbatim>\<open>strftime\<close> with the format
  \<^verbatim>\<open>%a, %d %b %Y %H:%M:%S GMT\<close> into an array of \<^verbatim>\<open>MAX_HEADER_CONTENT\<close> bytes. The calendar counts
  days from 1 March of year 0 in cycles of 400, 100, 4 and 1 years.
\<close>

record tm =
  tm_year :: int
  tm_mon :: int
  tm_mday :: int
  tm_wday :: int
  tm_hour :: int
  tm_min :: int
  tm_sec :: int

text \<open>The year that begins on 1 March and the day within it.\<close>

definition march_year :: "int \<Rightarrow> int \<times> int" where
  "march_year z =
     (let n400 = z div 146097; r = z mod 146097;
          n100 = min 3 (r div 36524); r = r - 36524 * n100;
          n4 = r div 1461; r = r - 1461 * n4;
          n1 = min 3 (r div 365)
      in (400 * n400 + 100 * n100 + 4 * n4 + n1, r - 365 * n1))"

definition gmtime :: "int \<Rightarrow> tm" where
  "gmtime t =
     (let days = t div 86400; secs = t mod 86400;
          (y, doy) = march_year (days + 719468);
          mp = (5 * doy + 2) div 153;
          m = (if mp < 10 then mp + 3 else mp - 9)
      in \<lparr>tm_year = (if m \<le> 2 then y + 1 else y), tm_mon = m, tm_mday = doy - (153 * mp + 2) div 5 + 1,
          tm_wday = (days + 4) mod 7,
          tm_hour = secs div 3600, tm_min = secs mod 3600 div 60, tm_sec = secs mod 60\<rparr>)"

definition day_name :: "int \<Rightarrow> bytes" where
  "day_name d = [''Sun'', ''Mon'', ''Tue'', ''Wed'', ''Thu'', ''Fri'', ''Sat''] ! nat d"

definition month_name :: "int \<Rightarrow> bytes" where
  "month_name m = [''Jan'', ''Feb'', ''Mar'', ''Apr'', ''May'', ''Jun'', ''Jul'', ''Aug'', ''Sep'', ''Oct'', ''Nov'', ''Dec''] ! nat (m - 1)"

definition two_digits :: "int \<Rightarrow> bytes" where
  "two_digits n = [digit_char (nat n div 10), digit_char (nat n mod 10)]"

definition http_date :: "tm \<Rightarrow> bytes" where
  "http_date t = day_name (tm_wday t) @ '', '' @ two_digits (tm_mday t) @ '' '' @ month_name (tm_mon t) @ '' ''
     @ show_int (tm_year t) @ '' '' @ two_digits (tm_hour t) @ '':'' @ two_digits (tm_min t) @ '':''
     @ two_digits (tm_sec t) @ '' GMT''"

text \<open>\<^verbatim>\<open>strftime\<close> returns 0 (here \<open>None\<close>) when the text and its terminator do not fit.\<close>

definition strftime_http :: "nat \<Rightarrow> tm \<Rightarrow> bytes option" where
  "strftime_http sz t = (if length (http_date t) < sz then Some (http_date t) else None)"

section \<open>The calendar\<close>

definition days_of_march :: "int \<Rightarrow> int \<Rightarrow> int" where
  "days_of_march y doy = 365 * y + y div 4 - y div 100 + y div 400 + doy"

lemma min_div_bounds:
  fixes c r :: int
  assumes "0 < c" "0 \<le> r" "r \<le> 4 * c"
  shows "0 \<le> min 3 (r div c) \<and> min 3 (r div c) \<le> 3 \<and> 0 \<le> r - c * min 3 (r div c) \<and> r - c * min 3 (r div c) \<le> c"
proof (cases "r div c \<le> 3")
  case True
  then have m: "min 3 (r div c) = r div c" by simp
  have "r - c * (r div c) = r mod c" by (simp add: minus_mult_div_eq_mod)
  moreover have "0 \<le> r mod c" "r mod c < c" "0 \<le> r div c" using assms by (simp_all add: pos_imp_zdiv_nonneg_iff)
  ultimately show ?thesis using True by (simp add: m)
next
  case False
  then have m: "min 3 (r div c) = 3" and "3 < r div c" by simp_all
  then have "c * 3 \<le> c * (r div c)" using assms(1) by simp
  moreover have "c * (r div c) \<le> r" by (metis assms(1) mult.commute mult_div_mod_eq pos_mod_sign add_increasing2 add.commute le_add_same_cancel1)
  ultimately have "c * 3 \<le> r" by (rule order_trans)
  then show ?thesis using assms m by simp
qed

lemma march_year_bounds:
  assumes "march_year z = (y, doy)"
  obtains n400 n100 n4 n1 where
    "y = 400 * n400 + 100 * n100 + 4 * n4 + n1" "z = 146097 * n400 + 36524 * n100 + 1461 * n4 + 365 * n1 + doy"
    "0 \<le> n100" "n100 \<le> 3" "0 \<le> n4" "n4 \<le> 24" "0 \<le> n1" "n1 \<le> 3" "0 \<le> doy" "doy \<le> 365" "n400 = z div 146097"
proof -
  define n400 where "n400 = z div 146097"
  define r where "r = z mod 146097"
  define n100 where "n100 = min 3 (r div 36524)"
  define r1 where "r1 = r - 36524 * n100"
  define n4 where "n4 = r1 div 1461"
  define r2 where "r2 = r1 - 1461 * n4"
  define n1 where "n1 = min 3 (r2 div 365)"
  have r: "z = 146097 * n400 + r" "0 \<le> r" "r < 146097" unfolding n400_def r_def by simp_all
  have n100: "0 \<le> n100" "n100 \<le> 3" and r1: "0 \<le> r1" "r1 \<le> 36524"
    using min_div_bounds [of 36524 r] r(2,3) unfolding r1_def n100_def by simp_all
  have q1: "r1 = 1461 * n4 + r2" "0 \<le> r2" "r2 < 1461" unfolding n4_def r2_def by (simp_all add: minus_mult_div_eq_mod)
  have n4: "0 \<le> n4" "n4 \<le> 24" using r1 q1 by linarith+
  have n1: "0 \<le> n1" "n1 \<le> 3" and d: "0 \<le> r2 - 365 * n1" "r2 - 365 * n1 \<le> 365"
    using min_div_bounds [of 365 r2] q1(2,3) unfolding n1_def by simp_all
  have "march_year z = (400 * n400 + 100 * n100 + 4 * n4 + n1, r2 - 365 * n1)"
    by (simp only: march_year_def Let_def n400_def n100_def n4_def n1_def r2_def r1_def r_def)
  with assms have "y = 400 * n400 + 100 * n100 + 4 * n4 + n1" "doy = r2 - 365 * n1" by simp_all
  then show thesis
    using that [of n400 n100 n4 n1] r n100 n4 n1 d q1 unfolding r1_def n400_def by simp
qed

lemma days_of_march_year:
  assumes "march_year z = (y, doy)"
  shows "days_of_march y doy = z"
proof -
  obtain n400 n100 n4 n1 where y: "y = 400 * n400 + 100 * n100 + 4 * n4 + n1"
    and z: "z = 146097 * n400 + 36524 * n100 + 1461 * n4 + 365 * n1 + doy"
    and b: "0 \<le> n100" "n100 \<le> 3" "0 \<le> n4" "n4 \<le> 24" "0 \<le> n1" "n1 \<le> 3"
    using march_year_bounds [OF assms] by metis
  have "y div 4 = 100 * n400 + 25 * n100 + n4" "y div 100 = 4 * n400 + n100" "y div 400 = n400"
    using b unfolding y by linarith+
  then show ?thesis unfolding days_of_march_def y z by simp
qed

definition tm_ok :: "tm \<Rightarrow> bool" where
  "tm_ok t \<longleftrightarrow> 1 \<le> tm_mon t \<and> tm_mon t \<le> 12 \<and> 1 \<le> tm_mday t \<and> tm_mday t \<le> 31 \<and> 0 \<le> tm_wday t \<and> tm_wday t \<le> 6
     \<and> 0 \<le> tm_hour t \<and> tm_hour t \<le> 23 \<and> 0 \<le> tm_min t \<and> tm_min t \<le> 59 \<and> 0 \<le> tm_sec t \<and> tm_sec t \<le> 59"

lemma gmtime_ok: "tm_ok (gmtime t)"
proof -
  obtain y doy where m: "march_year (t div 86400 + 719468) = (y, doy)" by (metis prod.exhaust)
  then have d: "0 \<le> doy" "doy \<le> 365" by (auto elim: march_year_bounds)
  have "1 \<le> tm_mon (gmtime t)" "tm_mon (gmtime t) \<le> 12" "1 \<le> tm_mday (gmtime t)" "tm_mday (gmtime t) \<le> 31"
    using d by (auto simp: gmtime_def Let_def m)
  moreover have "0 \<le> tm_wday (gmtime t)" "tm_wday (gmtime t) \<le> 6" "0 \<le> tm_sec (gmtime t)" "tm_sec (gmtime t) \<le> 59"
    by (simp_all add: gmtime_def Let_def m)
  moreover have "0 \<le> tm_hour (gmtime t)" "tm_hour (gmtime t) \<le> 23" "0 \<le> tm_min (gmtime t)" "tm_min (gmtime t) \<le> 59"
    by (auto simp: gmtime_def Let_def m)
  ultimately show ?thesis by (simp add: tm_ok_def)
qed

text \<open>Years 1970 to 9999.\<close>

lemma gmtime_year:
  assumes "0 \<le> t" and "t < 253402300800"
  shows "1970 \<le> tm_year (gmtime t) \<and> tm_year (gmtime t) \<le> 9999"
proof -
  define z where "z = t div 86400 + 719468"
  obtain y doy where m: "march_year z = (y, doy)" by (metis prod.exhaust)
  then have d: "0 \<le> doy" "doy \<le> 365" by (auto elim: march_year_bounds)
  have z: "719468 \<le> z" "z < 3652365" using assms unfolding z_def by linarith+
  have e: "365 * y + y div 4 - y div 100 + y div 400 + doy = z"
    using days_of_march_year [OF m] by (simp add: days_of_march_def)
  have y: "1969 \<le> y" "y \<le> 9999" using e z d by linarith+
  have yy: "tm_year (gmtime t) = (if (5 * doy + 2) div 153 < 10 then y else y + 1)"
    using d m by (auto simp: gmtime_def Let_def z_def)
  have "10 \<le> (5 * doy + 2) div 153" if "y = 1969" using that e z by simp
  moreover have "(5 * doy + 2) div 153 < 10" if "y = 9999" using that e z by simp
  ultimately show ?thesis using y yy by (cases "y = 1969"; cases "y = 9999") (auto split: if_splits)
qed

lemma show_nat_4: "1000 \<le> n \<Longrightarrow> n \<le> 9999 \<Longrightarrow> length (show_nat n) = 4"
proof -
  assume n: "1000 \<le> n" "n \<le> 9999"
  then have "\<not> n < 10" "\<not> n div 10 < 10" "\<not> n div 10 div 10 < 10" "n div 10 div 10 div 10 < 10" by linarith+
  then show ?thesis by (subst show_nat.simps, simp)+
qed

lemma length_names: "0 \<le> d \<Longrightarrow> d \<le> 6 \<Longrightarrow> length (day_name d) = 3" "1 \<le> m \<Longrightarrow> m \<le> 12 \<Longrightarrow> length (month_name m) = 3"
proof -
  assume "0 \<le> d" "d \<le> 6"
  then have "nat d \<in> {0, 1, 2, 3, 4, 5, 6}" by auto
  then show "length (day_name d) = 3" by (auto simp: day_name_def)
next
  assume "1 \<le> m" "m \<le> 12"
  then have "m = 1 \<or> m = 2 \<or> m = 3 \<or> m = 4 \<or> m = 5 \<or> m = 6 \<or> m = 7 \<or> m = 8 \<or> m = 9 \<or> m = 10 \<or> m = 11 \<or> m = 12"
    by arith
  then show "length (month_name m) = 3" unfolding month_name_def by (elim disjE) simp_all
qed

lemma http_date_length:
  assumes "0 \<le> t" and "t < 253402300800"
  shows "length (http_date (gmtime t)) = 29"
proof -
  have y: "1970 \<le> tm_year (gmtime t)" "tm_year (gmtime t) \<le> 9999" using gmtime_year [OF assms] by simp_all
  then have "1000 \<le> nat (tm_year (gmtime t))" "nat (tm_year (gmtime t)) \<le> 9999" by linarith+
  then have "length (show_nat (nat (tm_year (gmtime t)))) = 4" by (rule show_nat_4)
  with y gmtime_ok [of t] show ?thesis
    by (simp add: http_date_def tm_ok_def length_names two_digits_def show_int_def)
qed

text \<open>The inverse: seconds since 1970 from the fields.\<close>

definition timegm :: "tm \<Rightarrow> int" where
  "timegm t =
     (let y = (if tm_mon t \<le> 2 then tm_year t - 1 else tm_year t);
          mp = (if tm_mon t \<le> 2 then tm_mon t + 9 else tm_mon t - 3);
          days = days_of_march y ((153 * mp + 2) div 5 + tm_mday t - 1) - 719468
      in 86400 * days + 3600 * tm_hour t + 60 * tm_min t + tm_sec t)"

lemma timegm_gmtime: "timegm (gmtime t) = t"
proof -
  let ?z = "t div 86400 + 719468"
  obtain y doy where m: "march_year ?z = (y, doy)" by (metis prod.exhaust)
  then have d: "0 \<le> doy" "doy \<le> 365" by (auto elim: march_year_bounds)
  define mp where "mp = (5 * doy + 2) div 153"
  have mp: "0 \<le> mp" "mp \<le> 11" using d unfolding mp_def by linarith+
  have g: "gmtime t = \<lparr>tm_year = (if mp < 10 then y else y + 1), tm_mon = (if mp < 10 then mp + 3 else mp - 9),
      tm_mday = doy - (153 * mp + 2) div 5 + 1, tm_wday = (t div 86400 + 4) mod 7, tm_hour = t mod 86400 div 3600,
      tm_min = t mod 86400 mod 3600 div 60, tm_sec = t mod 86400 mod 60\<rparr>"
    using mp by (auto simp: gmtime_def Let_def m mp_def [symmetric])
  have h: "3600 * (s div 3600) + 60 * (s mod 3600 div 60) + s mod 60 = s" for s :: int
  proof -
    have "s mod 60 = s mod 3600 mod 60" by (simp add: mod_mod_cancel)
    then show ?thesis using mult_div_mod_eq [of 3600 s] mult_div_mod_eq [of 60 "s mod 3600"] by linarith
  qed
  have "timegm (gmtime t) = 86400 * (days_of_march y doy - 719468) + (3600 * (t mod 86400 div 3600)
      + 60 * (t mod 86400 mod 3600 div 60) + t mod 86400 mod 60)"
    using mp by (auto simp: timegm_def g Let_def add.commute [of 2])
  also have "\<dots> = t" using days_of_march_year [OF m] by (simp add: h)
  finally show ?thesis .
qed

end
