(* ===== verification/Posix.thy ===== *)
theory Posix
  imports Prelude "HOL-Library.State_Monad" "HOL-Library.Multiset"
begin

text \<open>
  The operating system the server calls, as a parameter. The kernel is not part of the
  repository: a record \<open>os\<close> gives the result of every call as an arbitrary function of the
  history of calls made so far, and the history (a list of events, oldest first) is the state
  the code threads through, in the state monad. Nothing is assumed of \<open>os\<close> unless a theorem
  says so.
\<close>

datatype errno = EPIPE | EAGAIN | EINTR | EACCES | ELOOP | ENOENT | ENOTCONN | EBADF | EOTHER nat

text \<open>
  Observable calls. \<open>Send fd buf n\<close>: \<^verbatim>\<open>send\<close> on \<open>fd\<close> was given \<open>buf\<close> and returned \<open>n\<close>;
  \<open>OpenAt root path fd\<close>: \<^verbatim>\<open>openat2\<close> of \<open>path\<close> below the directory \<open>root\<close>, with
  \<^verbatim>\<open>O_RDONLY\<close> and \<^verbatim>\<open>RESOLVE_BENEATH | RESOLVE_NO_SYMLINKS\<close>, returned \<open>fd\<close>;
  \<open>SendFile out fd off n\<close>: \<^verbatim>\<open>sendfile\<close> of \<open>fd\<close> from offset \<open>off\<close> to \<open>out\<close> returned \<open>n\<close>;
  \<open>LogWrite s\<close>: the text \<open>s\<close> went to the log file; \<open>Fork pid argv\<close>: \<^verbatim>\<open>fork\<close> returned \<open>pid\<close>, and the
  child, if there is one, executes \<open>argv\<close> with the pipes as its standard streams; \<open>PipeRead fd data\<close>: \<^verbatim>\<open>read\<close> stored
  \<open>data\<close>; \<open>OpenDir path fd\<close>, \<open>MkDir path ok\<close> and \<open>FOpen path ok\<close>: the calls made while the server starts.
  \<open>ReadBeyond n\<close> is no call: it notes that the call that follows is given \<open>n\<close> bytes of memory behind the client's buffer.
\<close>

datatype event =
    Send int bytes int
  | Recv int int
  | Shutdown int
  | Close int
  | OpenAt int bytes int
  | SendFile int int int int
  | LogWrite bytes
  | Pipe int int
  | Fork int "bytes list"
  | PipeWrite int bytes int
  | PipeRead int bytes
  | ReadBeyond nat
  | WaitPid int
  | Socket int
  | Accept int
  | EpollAdd int
  | EpollDel int
  | OpenDir bytes int
  | MkDir bytes bool
  | FOpen bytes bool

type_synonym world = "event list"
type_synonym 'a io = "(world, 'a) state"

record os =
  os_send :: "world \<Rightarrow> int \<Rightarrow> bytes \<Rightarrow> int \<times> errno"
  os_recv :: "world \<Rightarrow> int \<Rightarrow> nat \<Rightarrow> errno + bytes"
  os_shutdown :: "world \<Rightarrow> int \<Rightarrow> int \<times> errno"
  os_close :: "world \<Rightarrow> int \<Rightarrow> int \<times> errno"
  os_openat2 :: "world \<Rightarrow> int \<Rightarrow> bytes \<Rightarrow> int \<times> errno"
  os_fstat :: "world \<Rightarrow> int \<Rightarrow> (int \<times> int) option"
  os_sendfile :: "world \<Rightarrow> int \<Rightarrow> int \<Rightarrow> int \<Rightarrow> int \<Rightarrow> int"
  os_getpeername :: "world \<Rightarrow> int \<Rightarrow> bytes option"
  os_time :: "world \<Rightarrow> int"
  os_log_date :: "world \<Rightarrow> bytes"
  os_fprintf :: "world \<Rightarrow> bytes \<Rightarrow> bool"
  os_pipe :: "world \<Rightarrow> (int \<times> int) option"
  os_fork :: "world \<Rightarrow> int"
  os_pipe_write :: "world \<Rightarrow> int \<Rightarrow> bytes \<Rightarrow> int"
  os_pipe_read :: "world \<Rightarrow> int \<Rightarrow> nat \<Rightarrow> bytes"
  os_stack :: "world \<Rightarrow> bytes"
  os_beyond :: "world \<Rightarrow> bytes"
  os_active_null :: bool
  os_address :: "nat \<Rightarrow> int"
  os_socket :: "world \<Rightarrow> int"
  os_setsockopt :: "world \<Rightarrow> int \<Rightarrow> int"
  os_bind :: "world \<Rightarrow> int \<Rightarrow> int \<Rightarrow> int"
  os_listen :: "world \<Rightarrow> int \<Rightarrow> int \<Rightarrow> int"
  os_accept :: "world \<Rightarrow> int \<Rightarrow> int"
  os_epoll_add :: "world \<Rightarrow> int \<Rightarrow> bool"
  os_epoll_create :: "world \<Rightarrow> int"
  os_getfl :: "world \<Rightarrow> int \<Rightarrow> int"
  os_setfl :: "world \<Rightarrow> int \<Rightarrow> int \<Rightarrow> int"
  os_errno :: "world \<Rightarrow> errno"
  os_strerror :: "errno \<Rightarrow> bytes"

section \<open>The calls\<close>

definition sys_send :: "os \<Rightarrow> int \<Rightarrow> bytes \<Rightarrow> (int \<times> errno) io" where
  "sys_send os fd buf = State (\<lambda>w. (os_send os w fd buf, w @ [Send fd buf (fst (os_send os w fd buf))]))"

text \<open>The result is the received bytes (none: the peer closed) or the error; the kernel never returns more than asked.\<close>

definition sys_recv :: "os \<Rightarrow> int \<Rightarrow> nat \<Rightarrow> (errno + bytes) io" where
  "sys_recv os fd len = State (\<lambda>w. case os_recv os w fd len of
     Inl err \<Rightarrow> (Inl err, w @ [Recv fd (-1)])
   | Inr data \<Rightarrow> (Inr (take len data), w @ [Recv fd (int (length (take len data)))]))"

definition sys_shutdown :: "os \<Rightarrow> int \<Rightarrow> (int \<times> errno) io" where
  "sys_shutdown os fd = State (\<lambda>w. (os_shutdown os w fd, w @ [Shutdown fd]))"

definition sys_close :: "os \<Rightarrow> int \<Rightarrow> (int \<times> errno) io" where
  "sys_close os fd = State (\<lambda>w. (os_close os w fd, w @ [Close fd]))"

definition sys_openat2 :: "os \<Rightarrow> int \<Rightarrow> bytes \<Rightarrow> (int \<times> errno) io" where
  "sys_openat2 os root path = State (\<lambda>w. (os_openat2 os w root path, w @ [OpenAt root path (fst (os_openat2 os w root path))]))"

text \<open>Size and modification time, \<open>None\<close> for a failure.\<close>

definition sys_fstat :: "os \<Rightarrow> int \<Rightarrow> (int \<times> int) option io" where
  "sys_fstat os fd = State (\<lambda>w. (os_fstat os w fd, w))"

definition sys_getpeername :: "os \<Rightarrow> int \<Rightarrow> bytes option io" where
  "sys_getpeername os fd = State (\<lambda>w. (os_getpeername os w fd, w))"

definition sys_time :: "os \<Rightarrow> int io" where
  "sys_time os = State (\<lambda>w. (os_time os w, w))"

text \<open>The \<open>n\<close> bytes behind the client's buffer, as a call finds them that is given a pointer there.\<close>

definition mem_beyond :: "os \<Rightarrow> nat \<Rightarrow> world \<Rightarrow> bytes" where
  "mem_beyond os n w = take n (os_beyond os w @ replicate n NUL)"

lemma length_mem_beyond [simp]: "length (mem_beyond os n w) = n"
  by (simp add: mem_beyond_def)

text \<open>What an automatic array of \<open>n\<close> bytes holds before it is written.\<close>

definition stack_array :: "os \<Rightarrow> nat \<Rightarrow> bytes io" where
  "stack_array os n = State (\<lambda>w. (take n (os_stack os w @ replicate n NUL), w))"

definition sys_pipe :: "os \<Rightarrow> (int \<times> int) option io" where
  "sys_pipe os = State (\<lambda>w. case os_pipe os w of
     None \<Rightarrow> (None, w) | Some (r, s) \<Rightarrow> (Some (r, s), w @ [Pipe r s]))"

definition sys_fork :: "os \<Rightarrow> bytes list \<Rightarrow> int io" where
  "sys_fork os argv = State (\<lambda>w. (os_fork os w, w @ [Fork (os_fork os w) argv]))"

definition sys_waitpid :: "os \<Rightarrow> int \<Rightarrow> unit io" where
  "sys_waitpid os pid = State (\<lambda>w. ((), w @ [WaitPid pid]))"

definition sys_socket :: "os \<Rightarrow> int io" where
  "sys_socket os = State (\<lambda>w. (os_socket os w, w @ [Socket (os_socket os w)]))"

definition sys_setsockopt :: "os \<Rightarrow> int \<Rightarrow> int io" where
  "sys_setsockopt os fd = State (\<lambda>w. (os_setsockopt os w fd, w))"

definition sys_bind :: "os \<Rightarrow> int \<Rightarrow> int \<Rightarrow> int io" where
  "sys_bind os fd port = State (\<lambda>w. (os_bind os w fd port, w))"

definition sys_listen :: "os \<Rightarrow> int \<Rightarrow> int \<Rightarrow> int io" where
  "sys_listen os fd n = State (\<lambda>w. (os_listen os w fd n, w))"

definition sys_accept :: "os \<Rightarrow> int \<Rightarrow> int io" where
  "sys_accept os fd = State (\<lambda>w. (os_accept os w fd, w @ [Accept (os_accept os w fd)]))"

definition sys_epoll_add :: "os \<Rightarrow> int \<Rightarrow> bool io" where
  "sys_epoll_add os fd = State (\<lambda>w. (os_epoll_add os w fd, if os_epoll_add os w fd then w @ [EpollAdd fd] else w))"

definition sys_epoll_del :: "os \<Rightarrow> int \<Rightarrow> unit io" where
  "sys_epoll_del os fd = State (\<lambda>w. ((), w @ [EpollDel fd]))"

definition sys_epoll_create :: "os \<Rightarrow> int io" where
  "sys_epoll_create os = State (\<lambda>w. (os_epoll_create os w, w))"

text \<open>\<^verbatim>\<open>fcntl\<close> with \<^verbatim>\<open>F_GETFL\<close> and with \<^verbatim>\<open>F_SETFL\<close>.\<close>

definition sys_getfl :: "os \<Rightarrow> int \<Rightarrow> int io" where
  "sys_getfl os fd = State (\<lambda>w. (os_getfl os w fd, w))"

definition sys_setfl :: "os \<Rightarrow> int \<Rightarrow> int \<Rightarrow> int io" where
  "sys_setfl os fd flags = State (\<lambda>w. (os_setfl os w fd flags, w))"

text \<open>\<^verbatim>\<open>errno\<close> as the last call left it, for the calls above whose result does not carry it.\<close>

definition sys_errno :: "os \<Rightarrow> errno io" where
  "sys_errno os = State (\<lambda>w. (os_errno os w, w))"

text \<open>A call whose outcome is given, noted in the history.\<close>

definition note_event :: "event \<Rightarrow> unit io" where
  "note_event e = State (\<lambda>w. ((), w @ [e]))"

lemma run_note_event [simp]: "run_state (note_event e) w = ((), w @ [e])"
  by (simp add: note_event_def)

lemmas sys_defs = sys_errno_def sys_epoll_create_def sys_getfl_def sys_setfl_def sys_send_def sys_recv_def sys_shutdown_def sys_close_def sys_openat2_def sys_fstat_def
  sys_getpeername_def sys_time_def stack_array_def sys_pipe_def sys_fork_def sys_waitpid_def sys_socket_def
  sys_setsockopt_def sys_bind_def sys_listen_def sys_accept_def sys_epoll_add_def sys_epoll_del_def

abbreviation return :: "'a \<Rightarrow> 'a io" where
  "return \<equiv> State_Monad.return"

declare State_Monad.run_state_bind [simp del]

lemma run_bind [simp]: "run_state (State_Monad.bind m f) w = run_state (f (fst (run_state m w))) (snd (run_state m w))"
  by (simp add: State_Monad.bind_def split_beta)

section \<open>Views of a history\<close>

definition is_log :: "event \<Rightarrow> bool" where
  "is_log e = (case e of LogWrite s \<Rightarrow> True | _ \<Rightarrow> False)"

text \<open>The history without the lines of the log file.\<close>

definition visible :: "world \<Rightarrow> world" where
  "visible w = filter (\<lambda>e. \<not> is_log e) w"

lemma visible_append [simp]: "visible (v @ w) = visible v @ visible w"
  by (simp add: visible_def)

lemma visible_Nil [simp]: "visible [] = []"
  by (simp add: visible_def)

lemma visible_Cons [simp]: "visible (e # w) = (if is_log e then visible w else e # visible w)"
  by (simp add: visible_def)

lemma is_log_simps [simp]:
  "is_log (Send a b c) = False" "is_log (Recv a d) = False" "is_log (Shutdown a) = False" "is_log (Close a) = False"
  "is_log (OpenAt a b c) = False" "is_log (SendFile a e c d) = False" "is_log (LogWrite b) = True"
  "is_log (Pipe a c) = False" "is_log (Fork a bs) = False" "is_log (PipeWrite a b c) = False" "is_log (PipeRead a b) = False"
  "is_log (ReadBeyond n) = False" "is_log (OpenDir b a) = False" "is_log (MkDir b q) = False" "is_log (FOpen b q) = False"
  "is_log (WaitPid a) = False" "is_log (Socket a) = False" "is_log (Accept a) = False" "is_log (EpollAdd a) = False"
  "is_log (EpollDel a) = False"
  by (simp_all add: is_log_def)

text \<open>The bytes \<^verbatim>\<open>send\<close> accepted for \<open>fd\<close>.\<close>

definition sent_event :: "int \<Rightarrow> event \<Rightarrow> bytes" where
  "sent_event fd e = (case e of Send f buf n \<Rightarrow> if f = fd then take (nat n) buf else [] | _ \<Rightarrow> [])"

definition sent :: "int \<Rightarrow> world \<Rightarrow> bytes" where
  "sent fd w = concat (map (sent_event fd) w)"

lemma sent_append [simp]: "sent fd (v @ w) = sent fd v @ sent fd w"
  by (simp add: sent_def)

lemma sent_Nil [simp]: "sent fd [] = []"
  by (simp add: sent_def)

lemma sent_Cons: "sent fd (e # w) = sent_event fd e @ sent fd w"
  by (simp add: sent_def)

text \<open>The bytes read from pipes.\<close>

definition piped_event :: "event \<Rightarrow> bytes" where
  "piped_event e = (case e of PipeRead fd data \<Rightarrow> data | _ \<Rightarrow> [])"

definition piped :: "world \<Rightarrow> bytes" where
  "piped w = concat (map piped_event w)"

lemma piped_append [simp]: "piped (v @ w) = piped v @ piped w"
  by (simp add: piped_def)

lemma piped_Nil [simp]: "piped [] = []"
  by (simp add: piped_def)

lemma piped_Cons [simp]: "piped (e # w) = piped_event e @ piped w"
  by (simp add: piped_def)

text \<open>Descriptors handed out by \<^verbatim>\<open>openat2\<close> and \<^verbatim>\<open>pipe\<close>, and descriptors closed, with multiplicity.\<close>

definition event_opens :: "event \<Rightarrow> int multiset" where
  "event_opens e = (case e of OpenAt r p fd \<Rightarrow> if 0 \<le> fd then {#fd#} else {#} | Pipe r s \<Rightarrow> {#r, s#} | _ \<Rightarrow> {#})"

definition event_closes :: "event \<Rightarrow> int multiset" where
  "event_closes e = (case e of Close fd \<Rightarrow> {#fd#} | _ \<Rightarrow> {#})"

definition opened_fds :: "world \<Rightarrow> int multiset" where
  "opened_fds w = \<Sum>\<^sub># (image_mset event_opens (mset w))"

definition closed_fds :: "world \<Rightarrow> int multiset" where
  "closed_fds w = \<Sum>\<^sub># (image_mset event_closes (mset w))"

lemma fds_append [simp]:
  "opened_fds (v @ w) = opened_fds v + opened_fds w" "closed_fds (v @ w) = closed_fds v + closed_fds w"
  by (simp_all add: opened_fds_def closed_fds_def)

lemma fds_Cons [simp]:
  "opened_fds (e # w) = event_opens e + opened_fds w" "closed_fds (e # w) = event_closes e + closed_fds w"
  by (simp_all add: opened_fds_def closed_fds_def)

lemma fds_Nil [simp]: "opened_fds [] = {#}" "closed_fds [] = {#}"
  by (simp_all add: opened_fds_def closed_fds_def)

section \<open>Properties of every event a computation adds\<close>

text \<open>\<open>traces P m\<close>: whatever the history and the system, \<open>m\<close> only appends events that satisfy \<open>P\<close>.\<close>

definition traces :: "(event \<Rightarrow> bool) \<Rightarrow> 'a io \<Rightarrow> bool" where
  "traces P m \<longleftrightarrow> (\<forall>w. \<exists>es. snd (run_state m w) = w @ es \<and> list_all P es)"

named_theorems tracing "computations that only append events satisfying a predicate"

lemma traces_return [tracing]: "traces P (return x)"
  by (simp add: traces_def)

lemma traces_bind [tracing]:
  assumes "traces P m" and "\<And>x. traces P (f x)"
  shows "traces P (State_Monad.bind m f)"
  unfolding traces_def
proof
  fix w
  obtain es where es: "snd (run_state m w) = w @ es" "list_all P es"
    using assms(1) by (auto simp: traces_def)
  obtain fs where "snd (run_state (f (fst (run_state m w))) (w @ es)) = (w @ es) @ fs" "list_all P fs"
    using assms(2) unfolding traces_def by blast
  with es show "\<exists>gs. snd (run_state (State_Monad.bind m f) w) = w @ gs \<and> list_all P gs"
    by (intro exI [of _ "es @ fs"]) simp
qed

lemma traces_if [tracing]: "(c \<Longrightarrow> traces P m) \<Longrightarrow> (\<not> c \<Longrightarrow> traces P n) \<Longrightarrow> traces P (if c then m else n)"
  by simp

lemma traces_case_option [tracing]:
  "traces P m \<Longrightarrow> (\<And>x. traces P (f x)) \<Longrightarrow> traces P (case x of None \<Rightarrow> m | Some y \<Rightarrow> f y)"
  by (simp split: option.split)

lemma traces_case_prod [tracing]: "(\<And>x y. traces P (f x y)) \<Longrightarrow> traces P (case p of (x, y) \<Rightarrow> f x y)"
  by (simp split: prod.split)

lemma traces_case_sum [tracing]:
  "(\<And>x. traces P (f x)) \<Longrightarrow> (\<And>y. traces P (g y)) \<Longrightarrow> traces P (case s of Inl x \<Rightarrow> f x | Inr y \<Rightarrow> g y)"
  by (simp split: sum.split)

lemma traces_let [tracing]: "traces P (f x) \<Longrightarrow> traces P (let y = x in f y)"
  by simp

lemma traces_append: "(\<And>w. \<exists>es. snd (run_state m w) = w @ es \<and> list_all P es) \<Longrightarrow> traces P m"
  by (simp add: traces_def)

lemma traces_mono: "traces P m \<Longrightarrow> (\<And>e. P e \<Longrightarrow> Q e) \<Longrightarrow> traces Q m"
  unfolding traces_def by (meson list.pred_mono_strong)

lemma traces_sys_silent [tracing]:
  "traces P (sys_fstat os fd)" "traces P (sys_getpeername os fd)" "traces P (sys_time os)" "traces P (stack_array os n)"
  "traces P (sys_setsockopt os fd)" "traces P (sys_bind os fd port)" "traces P (sys_listen os fd k)"
  "traces P (sys_epoll_create os)" "traces P (sys_getfl os fd)" "traces P (sys_setfl os fd flags)" "traces P (sys_errno os)"
  by (simp_all add: traces_def sys_defs)

lemma traces_sys_one [tracing]:
  "(\<And>n. P (Send fd buf n)) \<Longrightarrow> traces P (sys_send os fd buf)"
  "P (Shutdown fd) \<Longrightarrow> traces P (sys_shutdown os fd)"
  "P (Close fd) \<Longrightarrow> traces P (sys_close os fd)"
  "(\<And>n. P (OpenAt root path n)) \<Longrightarrow> traces P (sys_openat2 os root path)"
  "(\<And>n. P (Fork n argv)) \<Longrightarrow> traces P (sys_fork os argv)"
  "P (WaitPid pid) \<Longrightarrow> traces P (sys_waitpid os pid)"
  "(\<And>n. P (Socket n)) \<Longrightarrow> traces P (sys_socket os)"
  "(\<And>n. P (Accept n)) \<Longrightarrow> traces P (sys_accept os fd)"
  "P (EpollDel fd) \<Longrightarrow> traces P (sys_epoll_del os fd)"
  by (auto simp: sys_defs intro!: traces_append)

lemma traces_note_event [tracing]: "P e \<Longrightarrow> traces P (note_event e)"
  by (auto intro!: traces_append)

lemma traces_sys_recv [tracing]: "(\<And>n. P (Recv fd n)) \<Longrightarrow> traces P (sys_recv os fd len)"
  by (auto simp: sys_recv_def split: sum.split intro!: traces_append)

lemma traces_sys_pipe [tracing]: "(\<And>r s. P (Pipe r s)) \<Longrightarrow> traces P (sys_pipe os)"
  by (auto simp: sys_pipe_def split: option.split intro!: traces_append)

lemma traces_sys_epoll_add [tracing]: "P (EpollAdd fd) \<Longrightarrow> traces P (sys_epoll_add os fd)"
  by (auto simp: sys_epoll_add_def intro!: traces_append)

end
