(* ===== verification/TcpLogs.thy ===== *)
theory TcpLogs
  imports Posix
begin

text \<open>
  \<^verbatim>\<open>srclib/tcp.c\<close>, the socket wrappers, and \<^verbatim>\<open>srclib/logs.c\<close>, the log file, in the state monad
  over the history of system calls. Messages to the terminal (\<^verbatim>\<open>printf\<close>, \<^verbatim>\<open>perror\<close>) are left out.
\<close>

section \<open>tcp.c\<close>

text \<open>\<^verbatim>\<open>close\<close> may overwrite \<^verbatim>\<open>errno\<close> before it is examined.\<close>

definition tcp_shutdown :: "os \<Rightarrow> int \<Rightarrow> int io" where
  "tcp_shutdown os fd = do {
     (ret, err) \<leftarrow> sys_shutdown os fd;
     (cret, cerr) \<leftarrow> sys_close os fd;
     let err = (if cret < 0 then cerr else err);
     return (if ret \<noteq> 0 \<and> err \<noteq> ENOTCONN \<and> err \<noteq> EBADF then -1 else 0)
   }"

definition tcp_send :: "os \<Rightarrow> int \<Rightarrow> bytes \<Rightarrow> int io" where
  "tcp_send os fd buf = do {
     (ret, err) \<leftarrow> sys_send os fd buf;
     if ret < 0 \<and> err = EPIPE then do {
       _ \<leftarrow> tcp_shutdown os fd;
       return ret
     } else return ret
   }"

text \<open>\<open>len\<close> is the length as \<^verbatim>\<open>recv\<close> is given it, \<open>recv_len\<close> of the \<^verbatim>\<open>int\<close> the caller passes: a negative one becomes huge.\<close>

definition recv_len :: "int \<Rightarrow> nat" where
  "recv_len len = unat (word_of_int len :: 64 word)"

definition tcp_recv :: "os \<Rightarrow> int \<Rightarrow> nat \<Rightarrow> (errno + bytes) io" where
  "tcp_recv os fd len = sys_recv os fd len"

lemma recv_len_exact: "0 \<le> len \<Longrightarrow> len < 2 ^ 64 \<Longrightarrow> recv_len len = nat len"
  by (simp add: recv_len_def unat_eq_nat_uint uint_word_of_int)

lemma recv_len_wraps: "len < 0 \<Longrightarrow> - (2 ^ 64) \<le> len \<Longrightarrow> int (recv_len len) = 2 ^ 64 + len"
proof -
  assume a: "len < 0" "- (2 ^ 64) \<le> len"
  have "len mod 2 ^ 64 = (len + 2 ^ 64) mod 2 ^ 64" by simp
  also have "\<dots> = len + 2 ^ 64" using a by (intro mod_pos_pos_trivial) simp_all
  finally show ?thesis by (simp add: recv_len_def unat_eq_nat_uint uint_word_of_int)
qed

text \<open>The result pairs \<^verbatim>\<open>*sockfd\<close> with the return value; a null \<^verbatim>\<open>sockfd\<close> never gets a value.\<close>

definition tcp_start_connection :: "os \<Rightarrow> bool \<Rightarrow> int \<Rightarrow> int \<Rightarrow> (int option \<times> int) io" where
  "tcp_start_connection os sockfd_null port max_conns =
     (if sockfd_null then return (None, -1)
      else do {
        sockfd \<leftarrow> sys_socket os;
        if sockfd < 0 then return (Some sockfd, -1)
        else do {
          ret \<leftarrow> sys_setsockopt os sockfd;
          if ret < 0 then do { _ \<leftarrow> sys_close os sockfd; return (Some sockfd, -1) }
          else do {
            ret \<leftarrow> sys_bind os sockfd port;
            if ret \<noteq> 0 then do { _ \<leftarrow> sys_close os sockfd; return (Some sockfd, -1) }
            else do {
              ret \<leftarrow> sys_listen os sockfd max_conns;
              if ret = -1 then do { _ \<leftarrow> sys_close os sockfd; return (Some sockfd, -1) }
              else return (Some sockfd, 0)
            }
          }
        }
      })"

definition tcp_accept_connection :: "os \<Rightarrow> bool \<Rightarrow> int \<Rightarrow> (int option \<times> int) io" where
  "tcp_accept_connection os connfd_null sockfd =
     (if connfd_null then return (None, -1)
      else do {
        connfd \<leftarrow> sys_accept os sockfd;
        return (Some connfd, if connfd = -1 then -1 else 0)
      })"

section \<open>logs.c\<close>

datatype log_type = LOG_ERROR | LOG_WARNING | LOG_INFO

definition get_log_type_name :: "log_type \<Rightarrow> bytes" where
  "get_log_type_name t = (case t of LOG_ERROR \<Rightarrow> ''ERRR'' | LOG_WARNING \<Rightarrow> ''WARN'' | LOG_INFO \<Rightarrow> ''INFO'')"

text \<open>One of the three \<^verbatim>\<open>fprintf\<close> calls: it fails, or its whole text reaches the file.\<close>

definition log_fprintf :: "os \<Rightarrow> bytes \<Rightarrow> bool io" where
  "log_fprintf os s = State (\<lambda>w. (os_fprintf os w s, if os_fprintf os w s then w @ [LogWrite s] else w))"

definition log_date :: "os \<Rightarrow> bytes io" where
  "log_date os = State (\<lambda>w. (os_log_date os w, w))"

text \<open>\<open>message\<close> is the expanded format. The mutex makes the three writes one step for the other threads.\<close>

definition logs_print :: "os \<Rightarrow> log_type \<Rightarrow> bytes \<Rightarrow> int io" where
  "logs_print os t message = do {
     date \<leftarrow> log_date os;
     ok \<leftarrow> log_fprintf os (''['' @ date @ ''] ['' @ get_log_type_name t @ ''] '');
     if \<not> ok then return (-1) else do {
       ok \<leftarrow> log_fprintf os message;
       if \<not> ok then return (-1) else do {
         ok \<leftarrow> log_fprintf os [LF];
         if \<not> ok then return (-1) else return 0
       }
     }
   }"

text \<open>
  The text left in \<^verbatim>\<open>ip_port_str\<close>: the peer's address, or, when \<^verbatim>\<open>getpeername\<close> fails, whatever the
  caller's uninitialised array of 64 bytes held.
\<close>

definition get_client_ip_port :: "os \<Rightarrow> int \<Rightarrow> bytes io" where
  "get_client_ip_port os clientfd = do {
     junk \<leftarrow> stack_array os 64;
     addr \<leftarrow> sys_getpeername os clientfd;
     (case addr of
        None \<Rightarrow> do {
          _ \<leftarrow> logs_print os LOG_ERROR ''Error obteniendo la ip y el puerto del cliente'';
          return (takeWhile (\<lambda>c. c \<noteq> NUL) junk)
        }
      | Some s \<Rightarrow> return s)
   }"

text \<open>
  \<^verbatim>\<open>logs_init_file\<close>: the result is the path of the log file or the reason it returned NULL;
  \<open>LogOverflow\<close> is the \<^verbatim>\<open>sprintf\<close> past the 256 bytes of \<^verbatim>\<open>complete_log_name\<close>. What the file
  system answers are parameters: \<open>logs_is_dir\<close> is \<open>None\<close> when \<^verbatim>\<open>stat\<close> fails.
\<close>

datatype log_init = LogOpened bytes | LogFailed | LogOverflow

definition log_path :: "bytes \<Rightarrow> bytes \<Rightarrow> bytes" where
  "log_path log_name fecha_log = ''logs/'' @ log_name @ ''_'' @ fecha_log @ ''.log''"

definition logs_init_file :: "bool \<Rightarrow> bool option \<Rightarrow> bool \<Rightarrow> bool \<Rightarrow> bool \<Rightarrow> bytes \<Rightarrow> bytes option \<Rightarrow> log_init io" where
  "logs_init_file malloc_ok logs_is_dir mkdir_ok fopen_ok mutex_ok fecha_log log_name =
     (if \<not> malloc_ok then return LogFailed
      else if log_name = None then return LogFailed
      else do {
        made \<leftarrow> (case logs_is_dir of
            None \<Rightarrow> do { _ \<leftarrow> note_event (MkDir ''logs'' mkdir_ok); return mkdir_ok }
          | Some is_dir \<Rightarrow> return is_dir);
        if \<not> made then return LogFailed
        else (let complete_log_name = log_path (the log_name) fecha_log in
          if 256 \<le> length complete_log_name then return LogOverflow
          else do {
            _ \<leftarrow> note_event (FOpen complete_log_name fopen_ok);
            if \<not> fopen_ok then return LogFailed
            else if \<not> mutex_ok then return LogFailed
            else return (LogOpened complete_log_name)
          })
      })"

section \<open>What the wrappers leave in the history\<close>

lemma traces_log_fprintf [tracing]: "(\<And>s. P (LogWrite s)) \<Longrightarrow> traces P (log_fprintf os s)"
  by (auto simp: log_fprintf_def intro!: traces_append)

lemma traces_log_date [tracing]: "traces P (log_date os)"
  by (simp add: log_date_def traces_def)

lemma traces_logs_print [tracing]: "(\<And>s. P (LogWrite s)) \<Longrightarrow> traces P (logs_print os t m)"
  unfolding logs_print_def by (intro tracing)

lemma traces_get_client_ip_port [tracing]: "(\<And>s. P (LogWrite s)) \<Longrightarrow> traces P (get_client_ip_port os fd)"
  unfolding get_client_ip_port_def by (intro tracing)

lemma traces_tcp_shutdown [tracing]: "P (Shutdown fd) \<Longrightarrow> P (Close fd) \<Longrightarrow> traces P (tcp_shutdown os fd)"
  unfolding tcp_shutdown_def by (intro tracing)

lemma traces_tcp_send [tracing]:
  "(\<And>n. P (Send fd buf n)) \<Longrightarrow> P (Shutdown fd) \<Longrightarrow> P (Close fd) \<Longrightarrow> traces P (tcp_send os fd buf)"
  unfolding tcp_send_def by (intro tracing)

lemma traces_is_log: "traces is_log m \<Longrightarrow> visible (snd (run_state m w)) = visible w"
proof -
  assume "traces is_log m"
  then obtain es where "snd (run_state m w) = w @ es" "list_all is_log es" by (auto simp: traces_def)
  then show ?thesis by (auto simp: visible_def list_all_iff filter_empty_conv)
qed

lemma visible_logs [simp]:
  "visible (snd (run_state (logs_print os t m) w)) = visible w"
  "visible (snd (run_state (get_client_ip_port os fd) w)) = visible w"
  by (rule traces_is_log; intro tracing; simp)+

lemma run_tcp_send:
  "\<forall>w fd b. fst (os_send os w fd b) = int (length b) \<Longrightarrow>
   run_state (tcp_send os fd buf) w = (int (length buf), w @ [Send fd buf (int (length buf))])"
  by (simp add: tcp_send_def sys_send_def split_beta)

text \<open>Starting the log makes at most two calls, for the directory and for the file.\<close>

lemma logs_init_file_events:
  "\<exists>es. snd (run_state (logs_init_file malloc_ok d mk fo mu date (Some nm)) w) = w @ es
     \<and> length es \<le> 2 \<and> (\<forall>e \<in> set es. (\<exists>ok. e = MkDir ''logs'' ok) \<or> (\<exists>ok. e = FOpen (log_path nm date) ok))"
  by (auto simp: logs_init_file_def Let_def split: option.split)

lemma logs_init_file_opened:
  "fst (run_state (logs_init_file malloc_ok d mk fo mu date nm) w) = LogOpened p \<Longrightarrow>
   \<exists>n. nm = Some n \<and> p = log_path n date \<and> length p < 256 \<and> (d = Some True \<or> d = None \<and> mk)"
  by (auto simp: logs_init_file_def Let_def split: if_splits option.splits)

text \<open>The outcome does not depend on what happened before.\<close>

lemma logs_init_file_fst: "fst (run_state (logs_init_file malloc_ok d mk fo mu date nm) w) = fst (run_state (logs_init_file malloc_ok d mk fo mu date nm) [])"
  by (simp add: logs_init_file_def Let_def split: option.split)

end
