(* ===== verification/HttpServe.thy ===== *)
theory HttpServe
  imports HttpDate TcpLogs
begin

text \<open>
  The handlers of \<^verbatim>\<open>srclib/http.c\<close>: errors, files, scripts and the methods GET, POST and OPTIONS,
  in the state monad over the history of system calls. \<open>buff\<close> is the client's buffer, into which
  the pointers of the request point.
\<close>

section \<open>Configuration the handlers read\<close>

record server_conf =
  server_root :: bytes
  root_fd :: int
  listen_port :: int
  server_signature :: bytes
  conf_log_file :: bytes
  timeout_ms :: int
  queue_size :: int
  pool_size :: int
  backlog :: int

section \<open>Errors\<close>

definition error_body :: "http_status_t \<Rightarrow> bytes" where
  "error_body code =
     (let c = show_int (status_code code); text = status_text (status_code code)
      in ''<html><head><title>'' @ c @ '' '' @ text @ ''</title></head><body><h1>'' @ c @ '' '' @ text
         @ ''</h1></body></html>'')"

definition error_head :: "http_status_t \<Rightarrow> nat \<Rightarrow> bytes" where
  "error_head code body_len =
     ''HTTP/1.0 '' @ show_int (status_code code) @ '' '' @ status_text (status_code code) @ [CR, LF]
     @ ''Content-Type: text/html'' @ [CR, LF]
     @ ''Content-Length: '' @ show_int (int body_len) @ [CR, LF]
     @ ''Connection: close'' @ [CR, LF] @ [CR, LF]"

text \<open>Both texts fit their arrays (\<open>error_fits\<close> below), so \<^verbatim>\<open>snprintf\<close> does not truncate.\<close>

definition http_send_error :: "os \<Rightarrow> int \<Rightarrow> http_status_t \<Rightarrow> int io" where
  "http_send_error os clientfd code = do {
     let body = error_body code;
     let headers = error_head code (length body);
     ret \<leftarrow> tcp_send os clientfd headers;
     if ret < 0 then return (-1) else do {
       _ \<leftarrow> tcp_send os clientfd body;
       return 0
     }
   }"

section \<open>Files\<close>

text \<open>
  \<open>requested_path\<close> is the whole array: the string that starts at its second byte is what is
  opened, also when the first byte is already the terminator.
\<close>

definition open_safe :: "os \<Rightarrow> int \<Rightarrow> bytes \<Rightarrow> (int \<times> errno) io" where
  "open_safe os root requested_path = sys_openat2 os root (cstr (drop 1 requested_path))"

text \<open>
  The result is the return value with \<^verbatim>\<open>*file_size\<close> and \<^verbatim>\<open>*last_modified\<close>, which are only set
  when it is 0; \<open>want_info\<close> is False for two null pointers. The size is cut to an \<^verbatim>\<open>int\<close>.
\<close>

definition get_file_info :: "os \<Rightarrow> int \<Rightarrow> bytes \<Rightarrow> bool \<Rightarrow> (int \<times> int \<times> int) io" where
  "get_file_info os root requested_path want_info = do {
     (fd, err) \<leftarrow> open_safe os root requested_path;
     if fd < 0 then
       return (if err = EACCES then -3 else if err = ELOOP then -3 else if err = ENOENT then -2 else -1, 0, 0)
     else if \<not> want_info then do {
       _ \<leftarrow> sys_close os fd;
       return (0, 0, 0)
     } else do {
       st \<leftarrow> sys_fstat os fd;
       (case st of
          None \<Rightarrow> do { _ \<leftarrow> sys_close os fd; return (-1, 0, 0) }
        | Some (st_size, st_mtime) \<Rightarrow> do {
            _ \<leftarrow> sys_close os fd;
            return (0, sint (word_of_int st_size :: 32 word), st_mtime)
          })
     }
   }"

text \<open>The \<^verbatim>\<open>while\<close> loop: a positive result of \<^verbatim>\<open>sendfile\<close> advances the offset by as much.\<close>

function send_file_loop :: "os \<Rightarrow> int \<Rightarrow> int \<Rightarrow> int \<Rightarrow> int \<Rightarrow> world \<Rightarrow> int \<times> world" where
  "send_file_loop os clientfd fd st_size offset w =
     (if offset < st_size then
        (let bytes_sent = os_sendfile os w clientfd fd offset (st_size - offset);
             w = w @ [SendFile clientfd fd offset bytes_sent]
         in if bytes_sent \<le> 0 then (offset, w)
            else send_file_loop os clientfd fd st_size (offset + bytes_sent) w)
      else (offset, w))"
  by pat_completeness auto
termination
  by (relation "measure (\<lambda>(os, c, fd, st_size, offset, w). nat (st_size - offset))") auto

definition send_file :: "os \<Rightarrow> int \<Rightarrow> bytes \<Rightarrow> int \<Rightarrow> int io" where
  "send_file os root requested_path clientfd = do {
     (fd, err) \<leftarrow> open_safe os root requested_path;
     if fd < 0 then return (-1) else do {
       st \<leftarrow> sys_fstat os fd;
       (case st of
          None \<Rightarrow> do { _ \<leftarrow> sys_close os fd; return (-1) }
        | Some (st_size, st_mtime) \<Rightarrow> do {
            offset \<leftarrow> State (send_file_loop os clientfd fd st_size 0);
            if offset < st_size then return (-1)
            else do { _ \<leftarrow> sys_close os fd; return 0 }
          })
     }
   }"

section \<open>OPTIONS\<close>

text \<open>Adding a list of headers in order, ignoring the results as the callers do.\<close>

definition add_headers :: "http_response \<Rightarrow> (bytes \<times> bytes) list \<Rightarrow> http_response" where
  "add_headers response hs = foldl (\<lambda>r h. snd (add_header r (fst h) (snd h))) response hs"

definition process_options :: "os \<Rightarrow> int \<Rightarrow> int io" where
  "process_options os clientfd = do {
     let response = add_headers \<lparr>res_status = HTTP_NO_CONTENT, res_headers = []\<rparr>
           [(''Allow'', ''GET, POST, OPTIONS''), (''Content-Length'', ''0'')];
     (case serialize_response response MAX_BUFFR of
        None \<Rightarrow> do {
          _ \<leftarrow> logs_print os LOG_ERROR (''Response too long to fit in '' @ show_int (int MAX_BUFFR));
          _ \<leftarrow> http_send_error os clientfd HTTP_INTERNAL_ERROR;
          return 0
        }
      | Some buffer \<Rightarrow> do {
          ret \<leftarrow> tcp_send os clientfd (cstr buffer);
          ip_port_str \<leftarrow> get_client_ip_port os clientfd;
          if ret < 0 then return (-1) else do {
            _ \<leftarrow> logs_print os LOG_INFO (''Response sent - client: '' @ ip_port_str);
            return 0
          }
        })
   }"

section \<open>Scripts\<close>

text \<open>What the child executes; \<open>path\<close> is the C string.\<close>

definition child_argv :: "bytes \<Rightarrow> bytes \<Rightarrow> bytes list" where
  "child_argv path full_path =
     (let ext = strrchr path (CHR ''.'') in
      if ext = Some ''.py'' then [''/usr/bin/python3'', ''python3'', full_path]
      else if ext = Some ''.php'' then [''/usr/bin/php'', ''php'', full_path]
      else [full_path, full_path])"

text \<open>
  The writing loop. The bytes from \<^verbatim>\<open>script_args\<close> to the end of the buffer are \<open>script_args\<close>; when \<^verbatim>\<open>write\<close> is asked for
  more than these, what lies behind the buffer is written as well.
\<close>

definition memory_at :: "os \<Rightarrow> bytes \<Rightarrow> nat \<Rightarrow> nat \<Rightarrow> world \<Rightarrow> bytes \<times> world" where
  "memory_at os mem i n w =
     (let owned = take n (drop i mem); missing = n - length owned in
      if missing = 0 then (owned, w) else (owned @ mem_beyond os missing w, w @ [ReadBeyond missing]))"

function write_loop :: "os \<Rightarrow> int \<Rightarrow> bytes \<Rightarrow> int \<Rightarrow> int \<Rightarrow> world \<Rightarrow> int \<times> world" where
  "write_loop os fd script_args args_len total_bytes w =
     (if total_bytes < args_len then
        (let (chunk, w) = memory_at os script_args (nat total_bytes) (nat (args_len - total_bytes)) w;
             n_bytes = os_pipe_write os w fd chunk;
             w = w @ [PipeWrite fd chunk n_bytes]
         in if n_bytes \<le> 0 then (total_bytes, w)
            else write_loop os fd script_args args_len (total_bytes + n_bytes) w)
      else (total_bytes, w))"
  by pat_completeness auto
termination
  by (relation "measure (\<lambda>(os, fd, args, args_len, total_bytes, w). nat (args_len - total_bytes))") auto

text \<open>The reading loop: \<open>None\<close> when the output fills the buffer, otherwise the output.\<close>

function read_loop :: "os \<Rightarrow> int \<Rightarrow> bytes \<Rightarrow> world \<Rightarrow> bytes option \<times> world" where
  "read_loop os fd out w =
     (if MAX_BUFFR \<le> length out then (None, w)
      else (let data = take (MAX_BUFFR - length out) (os_pipe_read os w fd (MAX_BUFFR - length out));
                w = w @ [PipeRead fd data]
            in if data = [] then (Some out, w) else read_loop os fd (out @ data) w))"
  by pat_completeness auto
termination
proof (relation "measure (\<lambda>(os, fd, out, w). MAX_BUFFR - length out)")
  fix os :: os and fd :: int and out data :: bytes and w v :: world
  assume "\<not> MAX_BUFFR \<le> length out" "data = take (MAX_BUFFR - length out) (os_pipe_read os w fd (MAX_BUFFR - length out))" "data \<noteq> []"
  then have "length out < MAX_BUFFR" "0 < length data" by simp_all
  then have "MAX_BUFFR - (length out + length data) < MAX_BUFFR - length out" by linarith
  then show "((os, fd, out @ data, v), os, fd, out, w) \<in> measure (\<lambda>(os, fd, out, w). MAX_BUFFR - length out)"
    by simp
qed simp

declare send_file_loop.simps [simp del] write_loop.simps [simp del] read_loop.simps [simp del]

definition script_headers :: "server_conf \<Rightarrow> bytes \<Rightarrow> nat \<Rightarrow> (bytes \<times> bytes) list" where
  "script_headers sc date_str total_bytes =
     [(''Date'', date_str), (''Server'', server_signature sc), (''Content-Length'', show_int (int total_bytes)),
      (''Content-Type'', ''text/plain''), (''Connection'', ''Close'')]"

text \<open>The part after the script has ended.\<close>

definition send_script_output :: "os \<Rightarrow> server_conf \<Rightarrow> int \<Rightarrow> int \<Rightarrow> bytes \<Rightarrow> int io" where
  "send_script_output os sc clientfd now out =
     (case strftime_http MAX_HEADER_CONTENT (gmtime now) of
        None \<Rightarrow> do { _ \<leftarrow> http_send_error os clientfd HTTP_INTERNAL_ERROR; return (-1) }
      | Some date_str \<Rightarrow>
         (let response = add_headers \<lparr>res_status = HTTP_OK, res_headers = []\<rparr> (script_headers sc date_str (length out)) in
          (case serialize_response response MAX_BUFFR of
             None \<Rightarrow> do {
               _ \<leftarrow> logs_print os LOG_ERROR (''Response too long to fit in '' @ show_int (int MAX_BUFFR));
               _ \<leftarrow> http_send_error os clientfd HTTP_INTERNAL_ERROR;
               return 0
             }
           | Some buffer \<Rightarrow> do {
               ret \<leftarrow> tcp_send os clientfd (cstr buffer);
               if ret < 0 then return (-1) else do {
                 ret \<leftarrow> tcp_send os clientfd out;
                 if ret < 0 then return (-1) else return 0
               }
             })))"

text \<open>The part from \<^verbatim>\<open>pipe\<close> to \<^verbatim>\<open>waitpid\<close>: \<open>None\<close> for the returns of -1, otherwise the output of the script.\<close>

definition run_script :: "os \<Rightarrow> bytes \<Rightarrow> int \<Rightarrow> bytes \<Rightarrow> bytes \<Rightarrow> bytes option io" where
  "run_script os script_args args_len path full_path = do {
     inpipe \<leftarrow> sys_pipe os;
     (case inpipe of None \<Rightarrow> return None
      | Some (in0, in1) \<Rightarrow> do {
          outpipe \<leftarrow> sys_pipe os;
          (case outpipe of
             None \<Rightarrow> do { _ \<leftarrow> sys_close os in0; _ \<leftarrow> sys_close os in1; return None }
           | Some (out0, out1) \<Rightarrow> do {
               pid \<leftarrow> sys_fork os (child_argv path full_path);
               if pid < 0 then do {
                 _ \<leftarrow> sys_close os in0; _ \<leftarrow> sys_close os in1;
                 _ \<leftarrow> sys_close os out0; _ \<leftarrow> sys_close os out1;
                 return None
               } else do {
                 _ \<leftarrow> sys_close os in0;
                 _ \<leftarrow> sys_close os out1;
                 _ \<leftarrow> State (write_loop os in1 script_args args_len 0);
                 _ \<leftarrow> sys_close os in1;
                 out \<leftarrow> State (read_loop os out0 []);
                 _ \<leftarrow> sys_close os out0;
                 _ \<leftarrow> sys_waitpid os pid;
                 return out
               }
             })
        })
   }"

text \<open>
  \<open>path\<close> is the array of the caller. The descriptor of the script is passed on in
  \<open>full_path\<close> whether or not it could be opened, and is not closed.
\<close>

definition process_script :: "os \<Rightarrow> server_conf \<Rightarrow> bytes \<Rightarrow> int \<Rightarrow> bytes \<Rightarrow> int \<Rightarrow> int io" where
  "process_script os sc script_args args_len path clientfd = do {
     now \<leftarrow> sys_time os;
     ip_port_str \<leftarrow> get_client_ip_port os clientfd;
     (ret, _, _) \<leftarrow> get_file_info os (root_fd sc) path False;
     if ret = -2 then do {
       _ \<leftarrow> logs_print os LOG_WARNING (''Requested script not exists - client: '' @ ip_port_str);
       _ \<leftarrow> http_send_error os clientfd HTTP_NOT_FOUND;
       return (-2)
     } else if ret = -3 then do {
       _ \<leftarrow> logs_print os LOG_WARNING (''Requested script not allowed - client: '' @ ip_port_str);
       _ \<leftarrow> http_send_error os clientfd HTTP_NOT_ALLOWED;
       return (-2)
     } else if ret = -1 then return (-1)
     else do {
       (script_fd, _) \<leftarrow> open_safe os (root_fd sc) path;
       out \<leftarrow> run_script os script_args args_len (cstr path) (''/proc/self/fd/'' @ show_int script_fd);
       (case out of
          None \<Rightarrow> return (-1)
        | Some script_out \<Rightarrow> send_script_output os sc clientfd now script_out)
     }
   }"

section \<open>POST and GET\<close>

definition url_mem :: "bytes \<Rightarrow> http_request \<Rightarrow> bytes" where
  "url_mem buff request = drop (the (rq_url request)) buff"

definition forbid :: "os \<Rightarrow> int \<Rightarrow> bytes \<Rightarrow> unit io" where
  "forbid os clientfd ip_port_str = do {
     _ \<leftarrow> logs_print os LOG_WARNING (''Trying to access not allowed direction - client: '' @ ip_port_str);
     _ \<leftarrow> http_send_error os clientfd HTTP_FORBIDDEN;
     return ()
   }"

text \<open>Both handlers cut the query off \<^verbatim>\<open>url_size\<close> in the request, which they return with the result.\<close>

definition process_post :: "os \<Rightarrow> server_conf \<Rightarrow> bytes \<Rightarrow> http_request \<Rightarrow> int \<Rightarrow> (int \<times> http_request) io" where
  "process_post os sc buff request clientfd = do {
     path \<leftarrow> stack_array os MAX_PATH;
     ip_port_str \<leftarrow> get_client_ip_port os clientfd;
     let url = url_mem buff request;
     if check_path_traversal url (nat (rq_url_size request)) then do {
       _ \<leftarrow> forbid os clientfd ip_port_str;
       return (0, request)
     } else do {
       let (_, _, url_size) = split_query url (nat (rq_url_size request));
       let request = request\<lparr>rq_url_size := int url_size\<rparr>;
       let (ret, path) = build_path url url_size path;
       if ret = -2 then do {
         _ \<leftarrow> http_send_error os clientfd HTTP_BAD_REQUEST;
         return (0, request)
       } else if ret < 0 then return (-1, request)
       else if is_script (get_mime_type (cstr path)) then do {
         ret \<leftarrow> process_script os sc (drop (the (rq_body request)) buff) (rq_body_size request) path clientfd;
         if ret = -1 then return (-1, request)
         else if ret = -2 then return (0, request)
         else do {
           _ \<leftarrow> logs_print os LOG_INFO (''Executing POST script - client: '' @ ip_port_str);
           _ \<leftarrow> logs_print os LOG_INFO (''POST response sent - client: '' @ ip_port_str);
           return (0, request)
         }
       } else do {
         _ \<leftarrow> logs_print os LOG_INFO (''POST response sent - client: '' @ ip_port_str);
         return (0, request)
       }
     }
   }"

definition file_headers :: "server_conf \<Rightarrow> bytes \<Rightarrow> bytes \<Rightarrow> int \<Rightarrow> bytes \<Rightarrow> (bytes \<times> bytes) list" where
  "file_headers sc date_str last_mod_str file_size mime_type =
     [(''Date'', date_str), (''Server'', server_signature sc), (''Last-Modified'', last_mod_str),
      (''Content-Length'', show_int file_size), (''Content-Type'', mime_type), (''Connection'', ''Close'')]"

text \<open>The part of \<^verbatim>\<open>process_get\<close> that answers with a file, once its size and date are known.\<close>

definition respond_file :: "os \<Rightarrow> server_conf \<Rightarrow> bytes \<Rightarrow> bytes \<Rightarrow> int \<Rightarrow> int \<Rightarrow> int \<Rightarrow> int \<Rightarrow> int io" where
  "respond_file os sc path ip_port_str now file_size last_modified clientfd =
     (case strftime_http MAX_HEADER_CONTENT (gmtime now) of
        None \<Rightarrow> do {
          _ \<leftarrow> logs_print os LOG_ERROR (''Error formatting actual date - client: '' @ ip_port_str);
          _ \<leftarrow> http_send_error os clientfd HTTP_INTERNAL_ERROR;
          return 0
        }
      | Some date_str \<Rightarrow>
     (case strftime_http MAX_HEADER_CONTENT (gmtime last_modified) of
        None \<Rightarrow> do {
          _ \<leftarrow> logs_print os LOG_ERROR (''Error formatting last modified date - client: '' @ ip_port_str);
          _ \<leftarrow> http_send_error os clientfd HTTP_INTERNAL_ERROR;
          return 0
        }
      | Some last_mod_str \<Rightarrow>
     (case serialize_response (add_headers \<lparr>res_status = HTTP_OK, res_headers = []\<rparr>
             (file_headers sc date_str last_mod_str file_size (get_mime_type (cstr path)))) MAX_BUFFR of
        None \<Rightarrow> do {
          _ \<leftarrow> logs_print os LOG_ERROR (''Response too long to fit in '' @ show_int (int MAX_BUFFR));
          _ \<leftarrow> http_send_error os clientfd HTTP_INTERNAL_ERROR;
          return 0
        }
      | Some buffer \<Rightarrow> do {
          ret \<leftarrow> tcp_send os clientfd (cstr buffer);
          if ret < 0 then do {
            _ \<leftarrow> logs_print os LOG_ERROR (''Error sending HTTP response header - client: '' @ ip_port_str);
            _ \<leftarrow> http_send_error os clientfd HTTP_INTERNAL_ERROR;
            return 0
          } else do {
            ret \<leftarrow> send_file os (root_fd sc) path clientfd;
            if ret < 0 then return (-1)
            else do {
              _ \<leftarrow> logs_print os LOG_INFO
                     (''Response HTTP, with file '' @ cstr path @ '', sent - client: '' @ ip_port_str);
              return 0
            }
          }
        })))"

definition process_get :: "os \<Rightarrow> server_conf \<Rightarrow> bytes \<Rightarrow> http_request \<Rightarrow> int \<Rightarrow> (int \<times> http_request) io" where
  "process_get os sc buff request clientfd = do {
     path \<leftarrow> stack_array os MAX_PATH;
     now \<leftarrow> sys_time os;
     ip_port_str \<leftarrow> get_client_ip_port os clientfd;
     let url = url_mem buff request;
     if check_path_traversal url (nat (rq_url_size request)) then do {
       _ \<leftarrow> forbid os clientfd ip_port_str;
       return (0, request)
     } else do {
       let (script_args, args_len, url_size) = split_query url (nat (rq_url_size request));
       let request = request\<lparr>rq_url_size := int url_size\<rparr>;
       let (ret, path) = build_path url url_size path;
       if ret = -2 then do {
         _ \<leftarrow> http_send_error os clientfd HTTP_BAD_REQUEST;
         return (0, request)
       } else if ret < 0 then return (-1, request)
       else if is_script (get_mime_type (cstr path)) then do {
         ret \<leftarrow> process_script os sc (case script_args of None \<Rightarrow> [] | Some i \<Rightarrow> drop i url) (int args_len) path clientfd;
         if ret = -2 then return (0, request)
         else if ret = 0 then do {
           _ \<leftarrow> logs_print os LOG_INFO (''Executing GET script - client: '' @ ip_port_str);
           _ \<leftarrow> logs_print os LOG_INFO (''GET response sent - client: '' @ ip_port_str);
           return (ret, request)
         } else return (ret, request)
       } else do {
         (ret, file_size, last_modified) \<leftarrow> get_file_info os (root_fd sc) path True;
         if ret = -2 then do {
           _ \<leftarrow> logs_print os LOG_WARNING (''File '' @ cstr path @ '' not found - client: '' @ ip_port_str);
           _ \<leftarrow> http_send_error os clientfd HTTP_NOT_FOUND;
           return (0, request)
         } else if ret = -3 then do {
           _ \<leftarrow> logs_print os LOG_WARNING (''File '' @ cstr path @ '' not allowed - client: '' @ ip_port_str);
           _ \<leftarrow> http_send_error os clientfd HTTP_FORBIDDEN;
           return (0, request)
         } else if ret < 0 then return (-1, request)
         else do {
           ret \<leftarrow> respond_file os sc path ip_port_str now file_size last_modified clientfd;
           return (ret, request)
         }
       }
     }
   }"

section \<open>Dispatch\<close>

definition received :: "bytes \<Rightarrow> bytes \<Rightarrow> http_request \<Rightarrow> bytes \<Rightarrow> bytes" where
  "received name buff request ip_port_str =
     ''Received '' @ name @ '' petition '' @ take (nat (rq_url_size request)) (url_mem buff request)
     @ '' - client: '' @ ip_port_str"

definition http_process_request :: "os \<Rightarrow> server_conf \<Rightarrow> bytes \<Rightarrow> http_request \<Rightarrow> int \<Rightarrow> (int \<times> http_request) io" where
  "http_process_request os sc buff request clientfd = do {
     ip_port_str \<leftarrow> get_client_ip_port os clientfd;
     (case request_method_type (drop (the (rq_method request)) buff) (nat (rq_method_size request)) of
        HTTP_METHOD_GET \<Rightarrow> do {
          _ \<leftarrow> logs_print os LOG_INFO (received ''GET'' buff request ip_port_str);
          process_get os sc buff request clientfd
        }
      | HTTP_METHOD_POST \<Rightarrow> do {
          _ \<leftarrow> logs_print os LOG_INFO (received ''POST'' buff request ip_port_str);
          process_post os sc buff request clientfd
        }
      | HTTP_METHOD_OPTIONS \<Rightarrow> do {
          _ \<leftarrow> logs_print os LOG_INFO (received ''OPTIONS'' buff request ip_port_str);
          ret \<leftarrow> process_options os clientfd;
          return (ret, request)
        }
      | HTTP_METHOD_UNKNOWN \<Rightarrow> do {
          _ \<leftarrow> logs_print os LOG_ERROR (''Not supported method '' @ show_int (os_address os (the (rq_method request)))
                 @ '' - client: '' @ ip_port_str);
          ret \<leftarrow> http_send_error os clientfd HTTP_NOT_ALLOWED;
          return (ret, request)
        })
   }"

end
