(* ===== verification/HttpRoute.thy ===== *)
theory HttpRoute
  imports HttpServe "HOL-Library.Sublist"
begin

text \<open>
  What the GET and POST handlers decide, as a function of the URL alone, and the theorem that
  the code, with its loops over the buffer and its path array, decides exactly that.
\<close>

section \<open>The decision\<close>

datatype route = Reject http_status_t | RunScript bytes bytes | ServeFile bytes

text \<open>A backslash anywhere but at the end, two dots in a row or two slashes in a row.\<close>

definition suspicious :: "bytes \<Rightarrow> bool" where
  "suspicious u \<longleftrightarrow> CHR 0x5C \<in> set (butlast u) \<or> sublist ''..'' u \<or> sublist ''//'' u"

definition path_part :: "bytes \<Rightarrow> bytes" where
  "path_part u = takeWhile (\<lambda>c. c \<noteq> CHR ''?'') u"

definition query_part :: "bytes \<Rightarrow> bytes" where
  "query_part u = drop (length (path_part u) + 1) u"

definition file_path :: "bytes \<Rightarrow> bytes" where
  "file_path u = (if path_part u = ''/'' then ''/index.html'' else path_part u)"

definition route_url :: "bytes \<Rightarrow> route" where
  "route_url u =
     (if suspicious u then Reject HTTP_FORBIDDEN
      else if MAX_PATH \<le> length (path_part u) then Reject HTTP_BAD_REQUEST
      else if suffix ''.py'' (file_path u) \<or> suffix ''.php'' (file_path u) then RunScript (file_path u) (query_part u)
      else ServeFile (file_path u))"

text \<open>The handlers on the decision: only the array that holds the path is rebuilt.\<close>

definition get_spec :: "os \<Rightarrow> server_conf \<Rightarrow> bytes \<Rightarrow> int \<Rightarrow> int io" where
  "get_spec os sc u clientfd = do {
     now \<leftarrow> sys_time os;
     ip_port_str \<leftarrow> get_client_ip_port os clientfd;
     (case route_url u of
        Reject code \<Rightarrow> do {
          _ \<leftarrow> (if code = HTTP_FORBIDDEN then forbid os clientfd ip_port_str
               else do { _ \<leftarrow> http_send_error os clientfd code; return () });
          return 0
        }
      | RunScript path args \<Rightarrow> do {
          ret \<leftarrow> process_script os sc args (int (length args)) (path @ [NUL]) clientfd;
          if ret = -2 then return 0
          else if ret = 0 then do {
            _ \<leftarrow> logs_print os LOG_INFO (''Executing GET script - client: '' @ ip_port_str);
            _ \<leftarrow> logs_print os LOG_INFO (''GET response sent - client: '' @ ip_port_str);
            return ret
          } else return ret
        }
      | ServeFile path \<Rightarrow> do {
          (ret, file_size, last_modified) \<leftarrow> get_file_info os (root_fd sc) (path @ [NUL]) True;
          if ret = -2 then do {
            _ \<leftarrow> logs_print os LOG_WARNING (''File '' @ path @ '' not found - client: '' @ ip_port_str);
            _ \<leftarrow> http_send_error os clientfd HTTP_NOT_FOUND;
            return 0
          } else if ret = -3 then do {
            _ \<leftarrow> logs_print os LOG_WARNING (''File '' @ path @ '' not allowed - client: '' @ ip_port_str);
            _ \<leftarrow> http_send_error os clientfd HTTP_FORBIDDEN;
            return 0
          } else if ret < 0 then return (-1)
          else respond_file os sc (path @ [NUL]) ip_port_str now file_size last_modified clientfd
        })
   }"

definition post_spec :: "os \<Rightarrow> server_conf \<Rightarrow> bytes \<Rightarrow> bytes \<Rightarrow> int \<Rightarrow> int \<Rightarrow> int io" where
  "post_spec os sc u body body_size clientfd = do {
     ip_port_str \<leftarrow> get_client_ip_port os clientfd;
     (case route_url u of
        Reject code \<Rightarrow> do {
          _ \<leftarrow> (if code = HTTP_FORBIDDEN then forbid os clientfd ip_port_str
               else do { _ \<leftarrow> http_send_error os clientfd code; return () });
          return 0
        }
      | RunScript path args \<Rightarrow> do {
          ret \<leftarrow> process_script os sc body body_size (path @ [NUL]) clientfd;
          if ret = -1 then return (-1)
          else if ret = -2 then return 0
          else do {
            _ \<leftarrow> logs_print os LOG_INFO (''Executing POST script - client: '' @ ip_port_str);
            _ \<leftarrow> logs_print os LOG_INFO (''POST response sent - client: '' @ ip_port_str);
            return 0
          }
        }
      | ServeFile path \<Rightarrow> do {
          _ \<leftarrow> logs_print os LOG_INFO (''POST response sent - client: '' @ ip_port_str);
          return 0
        })
   }"

section \<open>The loops over the buffer\<close>

lemma split_query_loop_cong:
  "(\<And>k. k < n \<Longrightarrow> url ! k = url' ! k) \<Longrightarrow> split_query_loop url i n a l = split_query_loop url' i n a l"
proof (induction url i n a l rule: split_query_loop.induct)
  case (1 url i n a l)
  then show ?case
    by (subst (1 2) split_query_loop.simps) auto
qed

lemma split_query_take:
  assumes "n \<le> length m"
  shows "split_query m n = (if CHR ''?'' \<in> set (take n m)
     then (Some (length (path_part (take n m)) + 1), length (query_part (take n m)), length (path_part (take n m)))
     else (None, 0, n))"
proof -
  define u where "u = take n m"
  have n: "n = length u" using assms by (simp add: u_def)
  have "split_query m n = split_query u n"
    unfolding split_query_def using assms by (intro split_query_loop_cong) (simp add: u_def)
  also have "\<dots> = (if CHR ''?'' \<in> set u then (Some (length (path_part u) + 1), length (query_part u), length (path_part u)) else (None, 0, n))"
  proof (cases "CHR ''?'' \<in> set u")
    case True
    obtain p q where u: "u = p @ CHR ''?'' # q" "CHR ''?'' \<notin> set p" using split_list_first [OF True] by blast
    then have "path_part u = p" by (simp add: path_part_def takeWhile_append)
    moreover from this u(1) have "query_part u = q" by (simp add: query_part_def)
    ultimately show ?thesis using True split_query_found [OF u(2), of q] n u(1) by simp
  next
    case False
    then show ?thesis using split_query_none [OF False] n by simp
  qed
  finally show ?thesis by (simp add: u_def)
qed

lemma check_path_traversal_take:
  assumes "n \<le> length m"
  shows "check_path_traversal m n = suspicious (take n m)"
proof -
  have "check_path_traversal m n = check_path_traversal (take n m) (length (take n m))"
    using assms unfolding check_path_traversal_def check_path_traversal_loop_iff by (auto simp: min_def)
  also have "\<dots> = suspicious (take n m)"
    unfolding check_path_traversal_iff suspicious_def sublist_def by simp
  finally show ?thesis .
qed

lemma path_part_prefix: "path_part u = take (length (path_part u)) u"
  unfolding path_part_def by (rule takeWhile_eq_take)

lemma path_part_no_query: "CHR ''?'' \<notin> set u \<Longrightarrow> path_part u = u"
  unfolding path_part_def takeWhile_eq_all_conv by blast

lemma query_part_none: "CHR ''?'' \<notin> set u \<Longrightarrow> query_part u = []"
  by (simp add: query_part_def path_part_no_query)

text \<open>The path array after \<^verbatim>\<open>build_path\<close>: the path, its terminator, and old contents.\<close>

lemma build_path_take:
  assumes n: "n \<le> length m" and u: "u = take n m" and p: "p = length (path_part u)"
  shows "if MAX_PATH \<le> length (path_part u) then build_path m p arr = (-2, arr)
     else \<exists>junk. build_path m p arr = (0, file_path u @ NUL # junk)"
proof -
  have pn: "p \<le> n" using n unfolding p u by (metis length_take length_takeWhile_le min.absorb2 path_part_def)
  have t: "take p m = path_part u" using pn path_part_prefix [of u] unfolding p u by (metis min.absorb1 take_take)
  show ?thesis
  proof (cases "MAX_PATH \<le> length (path_part u)")
    case True
    then show ?thesis by (simp add: build_path_long p)
  next
    case False
    have c: "m ! 0 = CHR ''/'' \<and> p = 1 \<longleftrightarrow> path_part u = ''/''"
    proof
      assume a: "m ! 0 = CHR ''/'' \<and> p = 1"
      then have "m \<noteq> []" using pn n by auto
      then show "path_part u = ''/''" using a t by (cases m) auto
    next
      assume a: "path_part u = ''/''"
      then have "p = 1" unfolding p by simp
      with a t show "m ! 0 = CHR ''/'' \<and> p = 1" by (cases m) auto
    qed
    show ?thesis using False c t by (auto simp: build_path_def file_path_def p http_limits)
  qed
qed

section \<open>Only the string in the path array matters\<close>

lemma cstr_path: "NUL \<notin> set p \<Longrightarrow> p \<noteq> [] \<Longrightarrow> cstr (drop (Suc 0) (p @ NUL # junk)) = tl p"
  by (cases p) auto

lemma cstr_path_end: "NUL \<notin> set p \<Longrightarrow> cstr (p @ [NUL]) = p"
  by (rule cstr_append_NUL)

lemma open_safe_path:
  assumes "NUL \<notin> set p" "p \<noteq> []"
  shows "open_safe os root (p @ NUL # junk) = sys_openat2 os root (tl p)"
  unfolding open_safe_def using cstr_path [OF assms] by (simp del: drop_append)

lemma get_file_info_path:
  assumes "NUL \<notin> set p" "p \<noteq> []"
  shows "get_file_info os root (p @ NUL # junk) b = get_file_info os root (p @ [NUL]) b"
  unfolding get_file_info_def by (simp only: open_safe_path [OF assms])

lemma send_file_path:
  assumes "NUL \<notin> set p" "p \<noteq> []"
  shows "send_file os root (p @ NUL # junk) fd = send_file os root (p @ [NUL]) fd"
  unfolding send_file_def by (simp only: open_safe_path [OF assms])

lemma respond_file_path:
  assumes "NUL \<notin> set p" "p \<noteq> []"
  shows "respond_file os sc (p @ NUL # junk) ip now n t fd = respond_file os sc (p @ [NUL]) ip now n t fd"
  unfolding respond_file_def by (simp only: send_file_path [OF assms, where junk = junk] cstr_append_NUL [OF assms(1)])

lemma memory_at_take: "i + n \<le> k \<Longrightarrow> memory_at os (take k mem) i n w = memory_at os mem i n w"
  by (simp add: memory_at_def drop_take)

lemma memory_at_inside: "i + n \<le> length mem \<Longrightarrow> memory_at os mem i n w = (take n (drop i mem), w)"
  by (simp add: memory_at_def)

lemma write_loop_take_world: "0 \<le> t \<Longrightarrow> write_loop os fd (take (nat n) args) n t w = write_loop os fd args n t w"
proof (induction os fd args n t w rule: write_loop.induct)
  case (1 os fd args n t w)
  then have "memory_at os (take (nat n) args) (nat t) (nat (n - t)) w = memory_at os args (nat t) (nat (n - t)) w" if "t < n"
    using that by (intro memory_at_take) linarith
  with 1 show ?case
    by (subst (1 2) write_loop.simps) (simp add: Let_def split_beta)
qed

lemma write_loop_take: "write_loop os fd (take (nat n) args) n 0 = write_loop os fd args n 0"
  by (rule ext) (simp add: write_loop_take_world)

lemma run_script_take: "run_script os (take (nat n) args) n path fp = run_script os args n path fp"
  unfolding run_script_def write_loop_take ..

lemma process_script_path:
  assumes "NUL \<notin> set p" "p \<noteq> []"
  shows "process_script os sc args n (p @ NUL # junk) fd = process_script os sc (take (nat n) args) n (p @ [NUL]) fd"
  unfolding process_script_def run_script_take
  by (simp only: get_file_info_path [OF assms, where junk = junk] open_safe_path [OF assms] cstr_append_NUL [OF assms(1)])

section \<open>The handlers implement the decision\<close>

lemma file_path_nonempty: "u \<noteq> [] \<Longrightarrow> hd u \<noteq> CHR ''?'' \<Longrightarrow> file_path u \<noteq> []"
  by (cases u) (auto simp: file_path_def path_part_def)

lemma file_path_NUL:
  assumes "NUL \<notin> set u"
  shows "NUL \<notin> set (file_path u)"
proof -
  have "NUL \<notin> set (path_part u)" using assms unfolding path_part_def by (meson set_takeWhileD)
  then show ?thesis by (simp add: file_path_def)
qed

lemma script_route: "is_script (get_mime_type p) \<longleftrightarrow> suffix ''.py'' p \<or> suffix ''.php'' p"
  by (auto simp: is_script_ext suffix_def)

lemma run_stack_array [simp]: "snd (run_state (stack_array os n) w) = w"
  by (simp add: stack_array_def)

text \<open>A URL as the parser leaves it: inside the buffer, no NUL, not empty and not just a query.\<close>

definition url_ok :: "bytes \<Rightarrow> http_request \<Rightarrow> bytes \<Rightarrow> bool" where
  "url_ok buff r u \<longleftrightarrow> rq_url_size r = int (length u) \<and> prefix u (url_mem buff r) \<and> NUL \<notin> set u \<and> u \<noteq> [] \<and> hd u \<noteq> CHR ''?''"

definition cut_query :: "http_request \<Rightarrow> bytes \<Rightarrow> http_request" where
  "cut_query r u = (if suspicious u then r else r\<lparr>rq_url_size := int (length (path_part u))\<rparr>)"

lemma url_ok_steps:
  assumes "url_ok buff r u"
  obtains rest where "url_mem buff r = u @ rest" "nat (rq_url_size r) = length u"
    "check_path_traversal (url_mem buff r) (length u) = suspicious u"
    "snd (snd (split_query (url_mem buff r) (length u))) = length (path_part u)"
    "fst (snd (split_query (url_mem buff r) (length u))) = length (query_part u)"
    "take (length (query_part u)) (case fst (split_query (url_mem buff r) (length u)) of None \<Rightarrow> [] | Some i \<Rightarrow> drop i (url_mem buff r)) = query_part u"
    "\<And>arr. if MAX_PATH \<le> length (path_part u) then build_path (url_mem buff r) (length (path_part u)) arr = (-2, arr)
       else \<exists>junk. build_path (url_mem buff r) (length (path_part u)) arr = (0, file_path u @ NUL # junk)"
    "NUL \<notin> set (file_path u)" "file_path u \<noteq> []"
proof -
  obtain rest where m: "url_mem buff r = u @ rest" using assms by (auto simp: url_ok_def prefix_def)
  have n: "nat (rq_url_size r) = length u" using assms by (simp add: url_ok_def)
  have l: "length u \<le> length (url_mem buff r)" and t: "take (length u) (url_mem buff r) = u" using m by simp_all
  note sq = split_query_take [OF l, unfolded t]
  have q: "take (length (query_part u)) (drop (length (path_part u) + 1) (url_mem buff r)) = query_part u" if c: "CHR ''?'' \<in> set u"
  proof -
    obtain p q where "u = p @ CHR ''?'' # q" "CHR ''?'' \<notin> set p" using split_list_first [OF c] by blast
    then have "length (path_part u) + 1 \<le> length u" by (simp add: path_part_def takeWhile_append)
    then show ?thesis by (simp add: query_part_def m)
  qed
  show thesis
  proof (rule that)
    show "url_mem buff r = u @ rest" by (fact m)
    show "nat (rq_url_size r) = length u" by (fact n)
    show "check_path_traversal (url_mem buff r) (length u) = suspicious u"
      using check_path_traversal_take [OF l] by (simp add: t)
    show "snd (snd (split_query (url_mem buff r) (length u))) = length (path_part u)"
      "fst (snd (split_query (url_mem buff r) (length u))) = length (query_part u)"
      by (simp_all add: sq path_part_no_query query_part_none)
    show "take (length (query_part u)) (case fst (split_query (url_mem buff r) (length u)) of None \<Rightarrow> [] | Some i \<Rightarrow> drop i (url_mem buff r)) = query_part u"
      using q by (cases "CHR ''?'' \<in> set u") (simp_all add: sq query_part_none)
    show "if MAX_PATH \<le> length (path_part u) then build_path (url_mem buff r) (length (path_part u)) arr = (-2, arr)
       else \<exists>junk. build_path (url_mem buff r) (length (path_part u)) arr = (0, file_path u @ NUL # junk)" for arr
      by (rule build_path_take [OF l]) (simp_all add: t)
    show "NUL \<notin> set (file_path u)" "file_path u \<noteq> []"
      using assms file_path_NUL file_path_nonempty by (auto simp: url_ok_def)
  qed
qed

lemma process_get_spec:
  assumes ok: "url_ok buff r u"
  shows "run_state (process_get os sc buff r fd) w =
    (let p = run_state (get_spec os sc u fd) w in ((fst p, cut_query r u), snd p))"
proof (rule url_ok_steps [OF ok])
  fix rest
  let ?m = "url_mem buff r"
  let ?arr = "fst (run_state (stack_array os MAX_PATH) w)"
  assume m: "?m = u @ rest" and n: "nat (rq_url_size r) = length u"
    and c: "check_path_traversal ?m (length u) = suspicious u"
    and s: "snd (snd (split_query ?m (length u))) = length (path_part u)" "fst (snd (split_query ?m (length u))) = length (query_part u)"
    and a: "take (length (query_part u)) (case fst (split_query ?m (length u)) of None \<Rightarrow> [] | Some i \<Rightarrow> drop i ?m) = query_part u"
    and b: "\<And>arr. if MAX_PATH \<le> length (path_part u) then build_path ?m (length (path_part u)) arr = (-2, arr)
       else \<exists>junk. build_path ?m (length (path_part u)) arr = (0, file_path u @ NUL # junk)"
    and f: "NUL \<notin> set (file_path u)" "file_path u \<noteq> []"
  show ?thesis
  proof (cases "suspicious u")
    case True
    then show ?thesis by (simp add: process_get_def get_spec_def route_url_def n c cut_query_def Let_def)
  next
    case ns: False
    show ?thesis
    proof (cases "MAX_PATH \<le> length (path_part u)")
      case True
      with ns b [of ?arr] show ?thesis
        by (simp add: process_get_def get_spec_def route_url_def n c s cut_query_def split_beta)
    next
      case False
      with b [of ?arr] obtain junk where bp: "build_path ?m (length (path_part u)) ?arr = (0, file_path u @ NUL # junk)"
        by auto
      note path = process_script_path [OF f, where junk = junk] get_file_info_path [OF f, where junk = junk]
        respond_file_path [OF f, where junk = junk] cstr_append_NUL [OF f(1)]
      show ?thesis
        using ns False
        by (simp add: process_get_def get_spec_def route_url_def n c s cut_query_def split_beta bp path a script_route Let_def)
    qed
  qed
qed

lemma process_post_spec:
  assumes ok: "url_ok buff r u"
  shows "run_state (process_post os sc buff r fd) w =
    (let p = run_state (post_spec os sc u (take (nat (rq_body_size r)) (drop (the (rq_body r)) buff)) (rq_body_size r) fd) w
     in ((fst p, cut_query r u), snd p))"
proof (rule url_ok_steps [OF ok])
  fix rest
  let ?m = "url_mem buff r"
  let ?arr = "fst (run_state (stack_array os MAX_PATH) w)"
  assume n: "nat (rq_url_size r) = length u"
    and c: "check_path_traversal ?m (length u) = suspicious u"
    and s: "snd (snd (split_query ?m (length u))) = length (path_part u)"
    and b: "\<And>arr. if MAX_PATH \<le> length (path_part u) then build_path ?m (length (path_part u)) arr = (-2, arr)
       else \<exists>junk. build_path ?m (length (path_part u)) arr = (0, file_path u @ NUL # junk)"
    and f: "NUL \<notin> set (file_path u)" "file_path u \<noteq> []"
  show ?thesis
  proof (cases "suspicious u")
    case True
    then show ?thesis by (simp add: process_post_def post_spec_def route_url_def n c cut_query_def Let_def)
  next
    case ns: False
    show ?thesis
    proof (cases "MAX_PATH \<le> length (path_part u)")
      case True
      with ns b [of ?arr] show ?thesis
        by (simp add: process_post_def post_spec_def route_url_def n c s cut_query_def split_beta Let_def)
    next
      case False
      with b [of ?arr] obtain junk where bp: "build_path ?m (length (path_part u)) ?arr = (0, file_path u @ NUL # junk)"
        by auto
      note path = process_script_path [OF f, where junk = junk] cstr_append_NUL [OF f(1)]
      show ?thesis
        using ns False
        by (simp add: process_post_def post_spec_def route_url_def n c s cut_query_def split_beta bp path script_route Let_def)
    qed
  qed
qed

end
