(* ===== verification/HttpHandlers.thy ===== *)
theory HttpHandlers
  imports HttpRoute
begin

text \<open>
  What the handlers do to the outside: which files and programs they touch, what the client is
  sent, and which descriptors they leave open.
\<close>

section \<open>Views of a history under computations\<close>

lemma traces_sent:
  assumes "traces (\<lambda>e. sent_event fd e = []) m"
  shows "sent fd (snd (run_state m w)) = sent fd w"
proof -
  obtain es where "snd (run_state m w) = w @ es" "list_all (\<lambda>e. sent_event fd e = []) es"
    using assms by (auto simp: traces_def)
  then show ?thesis by (auto simp: sent_def list_all_iff)
qed

lemma sent_visible: "sent fd (visible w) = sent fd w"
  by (induction w) (auto simp: sent_Cons sent_event_def is_log_def split: event.splits)

lemma fds_visible: "opened_fds (visible w) = opened_fds w" "closed_fds (visible w) = closed_fds w"
  by (induction w) (auto simp: event_opens_def event_closes_def is_log_def split: event.splits)

lemma traces_cong: "(\<And>w. snd (run_state m w) = snd (run_state m' w)) \<Longrightarrow> traces P m' \<Longrightarrow> traces P m"
  by (simp add: traces_def)

lemma send_file_loop_events:
  "(\<And>off n. P (SendFile c fd off n)) \<Longrightarrow>
   \<exists>es. snd (send_file_loop os c fd st_size off w) = w @ es \<and> list_all P es"
proof (induction os c fd st_size off w rule: send_file_loop.induct)
  case (1 os c fd st_size off w)
  then show ?case by (subst send_file_loop.simps) (force simp: Let_def)
qed

text \<open>Either the \<open>n\<close> bytes from the start of \<open>mem\<close> are inside the buffer, or the predicate allows reading behind it.\<close>

definition covered :: "(event \<Rightarrow> bool) \<Rightarrow> bytes \<Rightarrow> int \<Rightarrow> bool" where
  "covered P mem n \<longleftrightarrow> nat n \<le> length mem \<or> (\<forall>k. P (ReadBeyond k))"

lemma memory_at_events:
  assumes "covered P mem n" "0 \<le> t"
  shows "\<exists>es. snd (memory_at os mem (nat t) (nat (n - t)) w) = w @ es \<and> list_all P es"
proof (cases "nat n \<le> length mem")
  case True
  then consider "nat t + nat (n - t) \<le> length mem" | "nat (n - t) = 0" using assms(2) by linarith
  then show ?thesis by cases (simp_all add: memory_at_inside memory_at_def)
next
  case False
  with assms(1) show ?thesis by (simp add: covered_def memory_at_def Let_def)
qed

lemma write_loop_step:
  assumes "memory_at os args (nat t) (nat (n - t)) w = (chunk, v)"
  shows "write_loop os fd args n t w =
    (if t < n then
       if os_pipe_write os v fd chunk \<le> 0 then (t, v @ [PipeWrite fd chunk (os_pipe_write os v fd chunk)])
       else write_loop os fd args n (t + os_pipe_write os v fd chunk) (v @ [PipeWrite fd chunk (os_pipe_write os v fd chunk)])
     else (t, w))"
  by (subst write_loop.simps) (simp add: assms Let_def)

lemma write_loop_events:
  assumes P: "\<And>b n. P (PipeWrite fd b n)" "covered P args n" "0 \<le> t"
  shows "\<exists>es. snd (write_loop os fd args n t w) = w @ es \<and> list_all P es"
  using P
proof (induction os fd args n t w rule: write_loop.induct)
  case (1 os fd args n t w)
  obtain chunk v where m: "memory_at os args (nat t) (nat (n - t)) w = (chunk, v)" by fastforce
  obtain es where es: "v = w @ es" "list_all P es"
    using memory_at_events [OF "1.prems"(2,3), of os w] m by auto
  let ?k = "os_pipe_write os v fd chunk"
  show ?case
  proof (cases "t < n \<and> 0 < ?k")
    case True
    then obtain fs where "snd (write_loop os fd args n (t + ?k) (v @ [PipeWrite fd chunk ?k])) = (v @ [PipeWrite fd chunk ?k]) @ fs" "list_all P fs"
      using "1.IH" [OF _ m [symmetric] refl refl refl] "1.prems" by auto
    with True es "1.prems" show ?thesis by (auto simp: write_loop_step [OF m])
  next
    case False
    with es "1.prems" show ?thesis by (auto simp: write_loop_step [OF m])
  qed
qed

lemma read_loop_events:
  "(\<And>d. P (PipeRead fd d)) \<Longrightarrow> \<exists>es. snd (read_loop os fd out w) = w @ es \<and> list_all P es"
proof (induction os fd out w rule: read_loop.induct)
  case (1 os fd out w)
  then show ?case by (subst read_loop.simps) (force simp: Let_def)
qed

lemma traces_loops [tracing]:
  "(\<And>off n. P (SendFile c fd off n)) \<Longrightarrow> traces P (State (send_file_loop os c fd st_size off))"
  "(\<And>b n. P (PipeWrite fd b n)) \<Longrightarrow> covered P args n \<Longrightarrow> traces P (State (write_loop os fd args n 0))"
  "(\<And>d. P (PipeRead fd d)) \<Longrightarrow> traces P (State (read_loop os fd out))"
  by (simp_all add: traces_def send_file_loop_events write_loop_events read_loop_events)

lemma traces_http_send_error [tracing]:
  "(\<And>b n. P (Send fd b n)) \<Longrightarrow> P (Shutdown fd) \<Longrightarrow> P (Close fd) \<Longrightarrow> traces P (http_send_error os fd code)"
  unfolding http_send_error_def Let_def by (intro tracing)

text \<open>What a handler for the client \<open>c\<close> may do besides opening files and starting programs.\<close>

definition client_events :: "int \<Rightarrow> (event \<Rightarrow> bool) \<Rightarrow> bool" where
  "client_events c P \<longleftrightarrow> (\<forall>b n. P (Send c b n)) \<and> P (Shutdown c) \<and> (\<forall>fd. P (Close fd)) \<and> (\<forall>s. P (LogWrite s))
     \<and> (\<forall>fd off n. P (SendFile c fd off n)) \<and> (\<forall>r s. P (Pipe r s)) \<and> (\<forall>fd b n. P (PipeWrite fd b n))
     \<and> (\<forall>fd d. P (PipeRead fd d)) \<and> (\<forall>pid. P (WaitPid pid))"

lemma traces_run_script:
  "client_events c P \<Longrightarrow> covered P args n \<Longrightarrow> (\<And>pid. P (Fork pid (child_argv path full_path))) \<Longrightarrow> traces P (run_script os args n path full_path)"
  unfolding run_script_def by (intro tracing) (auto simp: client_events_def)

lemma traces_send_script_output: "client_events c P \<Longrightarrow> traces P (send_script_output os sc c now out)"
  unfolding send_script_output_def by (intro tracing) (auto simp: client_events_def)

lemma traces_open_safe: "(\<And>fd. P (OpenAt root (cstr (drop 1 path)) fd)) \<Longrightarrow> traces P (open_safe os root path)"
  unfolding open_safe_def by (intro tracing)

lemma traces_get_file_info:
  "client_events c P \<Longrightarrow> (\<And>fd. P (OpenAt root (cstr (drop 1 path)) fd)) \<Longrightarrow> traces P (get_file_info os root path b)"
  unfolding get_file_info_def by (intro tracing traces_open_safe) (auto simp: client_events_def)

lemma traces_send_file:
  "client_events c P \<Longrightarrow> (\<And>fd. P (OpenAt root (cstr (drop 1 path)) fd)) \<Longrightarrow> traces P (send_file os root path c)"
  unfolding send_file_def by (intro tracing traces_open_safe) (auto simp: client_events_def)

lemma traces_process_script:
  assumes "client_events c P" and "\<And>fd. P (OpenAt (root_fd sc) (cstr (drop 1 path)) fd)"
    and "\<And>pid full_path. P (Fork pid (child_argv (cstr path) full_path))" and "covered P args n"
  shows "traces P (process_script os sc args n path c)"
  unfolding process_script_def
  by (intro tracing traces_get_file_info [OF assms(1)] traces_open_safe traces_run_script [OF assms(1)]
        traces_send_script_output [OF assms(1)] assms) (insert assms(1), auto simp: client_events_def)

lemma traces_respond_file:
  assumes "client_events c P" and "\<And>fd. P (OpenAt (root_fd sc) (cstr (drop 1 path)) fd)"
  shows "traces P (respond_file os sc path ip now n t c)"
  unfolding respond_file_def
  by (intro tracing traces_send_file [OF assms(1)] assms) (insert assms(1), auto simp: client_events_def)

section \<open>Confinement\<close>

text \<open>A relative path without a parent or an empty component.\<close>

definition safe_path :: "bytes \<Rightarrow> bool" where
  "safe_path p \<longleftrightarrow> \<not> sublist ''..'' p \<and> \<not> sublist ''//'' p \<and> \<not> prefix ''/'' p"

text \<open>
  The events allowed while a request of client \<open>c\<close> is processed: files are opened below the
  document root and by a safe path, programs are started through one of the two interpreters, and
  only the client is written to.
\<close>

definition confined :: "int \<Rightarrow> int \<Rightarrow> event \<Rightarrow> bool" where
  "confined root c e = (case e of
     OpenAt r p fd \<Rightarrow> r = root \<and> safe_path p
   | Fork pid argv \<Rightarrow> \<exists>fp. argv = [''/usr/bin/python3'', ''python3'', fp] \<or> argv = [''/usr/bin/php'', ''php'', fp]
   | Send fd b n \<Rightarrow> fd = c
   | Shutdown fd \<Rightarrow> fd = c
   | SendFile out fd off n \<Rightarrow> out = c
   | Recv fd n \<Rightarrow> False
   | Socket fd \<Rightarrow> False
   | Accept fd \<Rightarrow> False
   | EpollAdd fd \<Rightarrow> False
   | EpollDel fd \<Rightarrow> False
   | _ \<Rightarrow> True)"

lemma client_events_confined: "client_events c (confined root c)"
  by (simp add: client_events_def confined_def)

lemma covered_confined: "covered (confined root c) mem n"
  by (simp add: covered_def confined_def)

lemma sublist_in_tl: "sublist x (tl p) \<Longrightarrow> sublist x p"
  by (erule sublist_order.order_trans) (rule sublist_tl)

lemma path_part_sublist: "sublist x (path_part u) \<Longrightarrow> sublist x u"
  unfolding path_part_def by (erule sublist_order.order_trans) (rule sublist_takeWhile)

lemma file_path_safe:
  assumes "\<not> suspicious u" and "prefix ''/'' u"
  shows "safe_path (tl (file_path u))"
proof (cases "path_part u = ''/''")
  case True
  then show ?thesis by (simp add: file_path_def safe_path_def sublist_code)
next
  case False
  then have f: "file_path u = path_part u" by (simp add: file_path_def)
  obtain v where u: "u = CHR ''/'' # v" using assms(2) by (auto simp: prefix_def)
  have "\<not> prefix ''/'' (tl (path_part u))"
  proof
    assume "prefix ''/'' (tl (path_part u))"
    then obtain s where "tl (path_part u) = CHR ''/'' # s" by (auto simp: prefix_def)
    moreover have "path_part u = CHR ''/'' # tl (path_part u)" by (simp add: u path_part_def)
    ultimately have "path_part u = ''//'' @ s" by simp
    then have "prefix ''//'' (path_part u)" unfolding prefix_def by (rule exI)
    then have "sublist ''//'' u" by (rule path_part_sublist [OF prefix_imp_sublist])
    with assms(1) show False by (simp add: suspicious_def)
  qed
  moreover have "\<not> sublist ''..'' (tl (path_part u))" "\<not> sublist ''//'' (tl (path_part u))"
    using assms(1) path_part_sublist [OF sublist_in_tl, of _ u] unfolding suspicious_def by blast+
  ultimately show ?thesis unfolding safe_path_def f by blast
qed

lemma child_argv_script:
  assumes "suffix ''.py'' p \<or> suffix ''.php'' p"
  shows "\<exists>x. child_argv p fp = [''/usr/bin/python3'', ''python3'', fp] \<or> child_argv p fp = [''/usr/bin/php'', ''php'', fp]"
proof -
  have "strrchr p (CHR ''.'') = Some ''.py'' \<or> strrchr p (CHR ''.'') = Some ''.php''"
    using assms unfolding strrchr_Some suffix_def by (elim disjE exE) simp_all
  then show ?thesis by (auto simp: child_argv_def)
qed

lemma traces_get_spec:
  assumes ok: "NUL \<notin> set u" "u \<noteq> []" "prefix ''/'' u"
  shows "traces (confined (root_fd sc) c) (get_spec os sc u c)"
proof -
  let ?P = "confined (root_fd sc) c"
  have ne: "hd u \<noteq> CHR ''?''" using ok(3) by (auto simp: prefix_def)
  note f = file_path_NUL [OF ok(1)] file_path_nonempty [OF ok(2) ne]
  have o: "?P (OpenAt (root_fd sc) (cstr (drop 1 (file_path u @ [NUL]))) fd)" if "\<not> suspicious u" for fd
    using file_path_safe [OF that ok(3)] cstr_path [OF f, of "[]"] by (simp add: confined_def)
  have x: "?P (Fork pid (child_argv (cstr (file_path u @ [NUL])) fp))"
    if "suffix ''.py'' (file_path u) \<or> suffix ''.php'' (file_path u)" for pid fp
    using child_argv_script [OF that] cstr_path_end [OF f(1)] by (auto simp: confined_def)
  note parts = traces_process_script [OF client_events_confined o x covered_confined] traces_get_file_info [OF client_events_confined o]
    traces_respond_file [OF client_events_confined o]
  show ?thesis
    unfolding get_spec_def forbid_def
    by (intro tracing) (auto simp: route_url_def confined_def split: if_splits route.split intro!: parts tracing)
qed

lemma traces_post_spec:
  assumes ok: "NUL \<notin> set u" "u \<noteq> []" "prefix ''/'' u"
  shows "traces (confined (root_fd sc) c) (post_spec os sc u body n c)"
proof -
  let ?P = "confined (root_fd sc) c"
  have ne: "hd u \<noteq> CHR ''?''" using ok(3) by (auto simp: prefix_def)
  note f = file_path_NUL [OF ok(1)] file_path_nonempty [OF ok(2) ne]
  have o: "?P (OpenAt (root_fd sc) (cstr (drop 1 (file_path u @ [NUL]))) fd)" if "\<not> suspicious u" for fd
    using file_path_safe [OF that ok(3)] cstr_path [OF f, of "[]"] by (simp add: confined_def)
  have x: "?P (Fork pid (child_argv (cstr (file_path u @ [NUL])) fp))"
    if "suffix ''.py'' (file_path u) \<or> suffix ''.php'' (file_path u)" for pid fp
    using child_argv_script [OF that] cstr_path_end [OF f(1)] by (auto simp: confined_def)
  note parts = traces_process_script [OF client_events_confined o x covered_confined]
  show ?thesis
    unfolding post_spec_def forbid_def
    by (intro tracing) (auto simp: route_url_def confined_def split: if_splits route.split intro!: parts tracing)
qed

lemma traces_process_options: "client_events c P \<Longrightarrow> traces P (process_options os c)"
  unfolding process_options_def by (intro tracing) (auto simp: client_events_def)

lemma url_ok_slash:
  "prefix ''/'' u \<Longrightarrow> url_ok buff r u \<longleftrightarrow> rq_url_size r = int (length u) \<and> prefix u (url_mem buff r) \<and> NUL \<notin> set u"
  by (auto simp: url_ok_def prefix_def)

lemma traces_http_process_request:
  assumes "url_ok buff r u" and "prefix ''/'' u"
  shows "traces (confined (root_fd sc) c) (http_process_request os sc buff r c)"
proof -
  have u: "NUL \<notin> set u" "u \<noteq> []" using assms(1) by (simp_all add: url_ok_def)
  have "traces (confined (root_fd sc) c) (process_get os sc buff r c)"
    by (rule traces_cong [OF _ traces_get_spec [OF u assms(2)]]) (simp add: process_get_spec [OF assms(1)] Let_def)
  moreover have "traces (confined (root_fd sc) c) (process_post os sc buff r c)"
    by (rule traces_cong [OF _ traces_post_spec [OF u assms(2)]]) (simp add: process_post_spec [OF assms(1)] Let_def)
  moreover note traces_process_options [OF client_events_confined]
  ultimately show ?thesis
    unfolding http_process_request_def
    by (intro tracing) (auto simp: confined_def split: http_method_t.split intro!: tracing)
qed

text \<open>What any request may do, well formed or not: the reads stay inside the buffer if its URL and its body do.\<close>

definition request_inside :: "bytes \<Rightarrow> http_request \<Rightarrow> bool" where
  "request_inside buff r \<longleftrightarrow> nat (rq_url_size r) \<le> length (url_mem buff r) \<and> nat (rq_body_size r) \<le> length (drop (the (rq_body r)) buff)"

definition in_bounds :: "event \<Rightarrow> bool" where
  "in_bounds e = (case e of ReadBeyond n \<Rightarrow> False | _ \<Rightarrow> True)"

lemma in_bounds_client: "client_events c in_bounds" "in_bounds (OpenAt root p fd)" "in_bounds (Fork pid argv)"
  by (simp_all add: client_events_def in_bounds_def)

lemma split_query_covered:
  assumes "n \<le> length m" "split_query m n = (script_args, args_len, url_size)"
  shows "covered P (case script_args of None \<Rightarrow> [] | Some i \<Rightarrow> drop i m) (int args_len)"
proof -
  have "length (query_part (take n m)) \<le> length m - Suc (length (path_part (take n m)))"
    using assms(1) by (simp add: query_part_def)
  with assms show ?thesis by (auto simp: covered_def split_query_take split: if_splits)
qed

lemma traces_process_get_any:
  assumes c: "client_events c P" and o: "\<And>p fd. P (OpenAt (root_fd sc) p fd)"
    and f: "\<And>pid p fp. is_script (get_mime_type p) \<Longrightarrow> P (Fork pid (child_argv p fp))"
    and b: "(\<forall>k. P (ReadBeyond k)) \<or> nat (rq_url_size r) \<le> length (url_mem buff r)"
  shows "traces P (process_get os sc buff r c)"
proof -
  have l: "P (LogWrite s)" "P (Send c b n)" "P (Shutdown c)" "P (Close fd)" for s b n fd using c by (auto simp: client_events_def)
  note parts = traces_process_script [OF c o f] traces_get_file_info [OF c o] traces_respond_file [OF c o]
  have q: "covered P (case x of None \<Rightarrow> [] | Some i \<Rightarrow> drop i (url_mem buff r)) (int k)"
    if "split_query (url_mem buff r) (nat (rq_url_size r)) = (x, k, z)" for x k z
  proof (cases "\<forall>k. P (ReadBeyond k)")
    case False
    with b that show ?thesis by (intro split_query_covered) auto
  qed (simp add: covered_def)
  show ?thesis
    unfolding process_get_def forbid_def Let_def split_beta by (intro tracing parts l) (auto intro!: q [of _ _ "snd (snd p)" for p] simp: prod_eq_iff)
qed

lemma traces_process_post_any:
  assumes c: "client_events c P" and o: "\<And>p fd. P (OpenAt (root_fd sc) p fd)"
    and f: "\<And>pid p fp. is_script (get_mime_type p) \<Longrightarrow> P (Fork pid (child_argv p fp))"
    and b: "covered P (drop (the (rq_body r)) buff) (rq_body_size r)"
  shows "traces P (process_post os sc buff r c)"
proof -
  have l: "P (LogWrite s)" "P (Send c b n)" "P (Shutdown c)" "P (Close fd)" for s b n fd using c by (auto simp: client_events_def)
  show ?thesis
    unfolding process_post_def forbid_def Let_def split_beta by (intro tracing traces_process_script [OF c o f] l) (auto simp: b)
qed

lemma traces_process_any:
  assumes c: "client_events c P" and o: "\<And>p fd. P (OpenAt (root_fd sc) p fd)"
    and f: "\<And>pid p fp. is_script (get_mime_type p) \<Longrightarrow> P (Fork pid (child_argv p fp))"
    and b: "(\<forall>k. P (ReadBeyond k)) \<or> request_inside buff r"
  shows "traces P (http_process_request os sc buff r c)"
proof -
  have l: "P (LogWrite s)" "P (Send c b n)" "P (Shutdown c)" "P (Close fd)" for s b n fd using c by (auto simp: client_events_def)
  have "traces P (process_get os sc buff r c)"
    using b by (intro traces_process_get_any c o f) (auto simp: request_inside_def)
  moreover have "traces P (process_post os sc buff r c)"
    using b by (intro traces_process_post_any c o f) (auto simp: request_inside_def covered_def)
  ultimately show ?thesis
    unfolding http_process_request_def
    by (intro tracing l) (auto split: http_method_t.split intro!: tracing traces_process_options [OF c] l)
qed

section \<open>What the client is sent\<close>

text \<open>A connection that takes everything it is given.\<close>

definition all_sent :: "os \<Rightarrow> bool" where
  "all_sent os \<longleftrightarrow> (\<forall>w fd b. fst (os_send os w fd b) = int (length b))"

definition send_event :: "int \<Rightarrow> bytes \<Rightarrow> event" where
  "send_event fd b = Send fd b (int (length b))"

definition error_events :: "int \<Rightarrow> http_status_t \<Rightarrow> event list" where
  "error_events c code = [send_event c (error_head code (length (error_body code))), send_event c (error_body code)]"

lemma is_log_send_event [simp]: "is_log (send_event c b) = False"
  by (simp add: send_event_def)

lemma run_send [simp]:
  "all_sent os \<Longrightarrow> run_state (tcp_send os fd buf) w = (int (length buf), w @ [send_event fd buf])"
  by (simp add: run_tcp_send all_sent_def send_event_def)

lemma run_http_send_error [simp]:
  "all_sent os \<Longrightarrow> run_state (http_send_error os c code) w = (0, w @ error_events c code)"
  by (simp add: http_send_error_def error_events_def Let_def)

lemma visible_error_events [simp]: "visible (error_events c code) = error_events c code"
  by (simp add: error_events_def)

lemma run_sys_time [simp]: "run_state (sys_time os) w = (os_time os w, w)"
  by (simp add: sys_time_def)

lemma get_spec_reject:
  assumes "all_sent os" and "route_url u = Reject code"
  shows "fst (run_state (get_spec os sc u c) w) = 0"
    and "visible (snd (run_state (get_spec os sc u c) w)) = visible w @ error_events c code"
  using assms by (simp_all add: get_spec_def forbid_def)

lemma post_spec_reject:
  assumes "all_sent os" and "route_url u = Reject code"
  shows "fst (run_state (post_spec os sc u body n c) w) = 0"
    and "visible (snd (run_state (post_spec os sc u body n c) w)) = visible w @ error_events c code"
  using assms by (simp_all add: post_spec_def forbid_def)

text \<open>No text the server composes contains a NUL, so \<^verbatim>\<open>strlen\<close> is its full length.\<close>

lemma cstr_id: "NUL \<notin> set t \<Longrightarrow> cstr t = t"
  unfolding cstr_def takeWhile_eq_all_conv by blast

lemma digit_not_NUL: "is_digit c \<Longrightarrow> c \<noteq> NUL"
  by (auto simp: is_digit_def uchar_def)

lemma show_int_NUL [simp]: "NUL \<notin> set (show_int n)"
proof -
  have "NUL \<notin> set (show_nat k)" for k
    using show_nat_digits [of k] digit_not_NUL by blast
  then show ?thesis by (simp add: show_int_def)
qed

lemma digit_char_NUL [simp]: "n < 10 \<Longrightarrow> NUL \<noteq> digit_char n"
  using digit_not_NUL [of "digit_char n"] by (auto simp: is_digit_def uchar_digit_char)

lemma two_digits_NUL: "0 \<le> n \<Longrightarrow> n < 100 \<Longrightarrow> NUL \<notin> set (two_digits n)"
  by (auto simp: two_digits_def)

lemma names_NUL: "0 \<le> d \<Longrightarrow> d \<le> 6 \<Longrightarrow> NUL \<notin> set (day_name d)" "1 \<le> m \<Longrightarrow> m \<le> 12 \<Longrightarrow> NUL \<notin> set (month_name m)"
proof -
  assume "0 \<le> d" "d \<le> 6"
  then have "d = 0 \<or> d = 1 \<or> d = 2 \<or> d = 3 \<or> d = 4 \<or> d = 5 \<or> d = 6" by arith
  then show "NUL \<notin> set (day_name d)" unfolding day_name_def by (elim disjE) simp_all
next
  assume "1 \<le> m" "m \<le> 12"
  then have "m = 1 \<or> m = 2 \<or> m = 3 \<or> m = 4 \<or> m = 5 \<or> m = 6 \<or> m = 7 \<or> m = 8 \<or> m = 9 \<or> m = 10 \<or> m = 11 \<or> m = 12"
    by arith
  then show "NUL \<notin> set (month_name m)" unfolding month_name_def by (elim disjE) simp_all
qed

lemma http_date_NUL: "NUL \<notin> set (http_date (gmtime t))"
  using gmtime_ok [of t] by (simp add: http_date_def tm_ok_def two_digits_NUL names_NUL)

lemma mime_NUL: "NUL \<notin> set (get_mime_type p)"
  by (simp add: get_mime_type_def Let_def split: option.split)

lemma status_NUL [simp]: "NUL \<notin> set (status_text n)"
  by (simp add: status_text_def)

lemma response_NUL:
  "\<forall>h \<in> set hs. NUL \<notin> set (fst h) \<and> NUL \<notin> set (snd h) \<Longrightarrow> NUL \<notin> set (response_text \<lparr>res_status = s, res_headers = hs\<rparr>)"
  by (auto simp: response_text_def status_line_def header_line_def)

lemma add_headers_eq:
  "length (res_headers r) + length hs \<le> MAX_HEADERS \<Longrightarrow> add_headers r hs = r\<lparr>res_headers := res_headers r @ hs\<rparr>"
proof (induction hs arbitrary: r)
  case (Cons h hs)
  let ?r = "r\<lparr>res_headers := res_headers r @ [h]\<rparr>"
  have "add_headers r (h # hs) = add_headers ?r hs" using Cons.prems by (simp add: add_headers_def add_header_def)
  also have "\<dots> = ?r\<lparr>res_headers := res_headers ?r @ hs\<rparr>" using Cons.prems by (intro Cons.IH) simp
  finally show ?case by simp
qed (simp add: add_headers_def)

definition options_text :: bytes where
  "options_text = response_text \<lparr>res_status = HTTP_NO_CONTENT,
     res_headers = [(''Allow'', ''GET, POST, OPTIONS''), (''Content-Length'', ''0'')]\<rparr>"

definition file_text :: "server_conf \<Rightarrow> int \<Rightarrow> int \<Rightarrow> int \<Rightarrow> bytes \<Rightarrow> bytes" where
  "file_text sc now last_modified file_size path = response_text \<lparr>res_status = HTTP_OK,
     res_headers = file_headers sc (http_date (gmtime now)) (http_date (gmtime last_modified)) file_size (get_mime_type path)\<rparr>"

definition script_text :: "server_conf \<Rightarrow> int \<Rightarrow> nat \<Rightarrow> bytes" where
  "script_text sc now n = response_text \<lparr>res_status = HTTP_OK, res_headers = script_headers sc (http_date (gmtime now)) n\<rparr>"

lemma options_text_ok: "NUL \<notin> set options_text" "length options_text < MAX_BUFFR"
  unfolding options_text_def by (rule response_NUL, simp) (simp add: response_text_def status_line_def header_line_def show_int_def
      show_nat.simps status_text_def http_limits)

lemma run_process_options:
  assumes "all_sent os"
  shows "fst (run_state (process_options os c) w) = 0"
    and "visible (snd (run_state (process_options os c) w)) = visible w @ [send_event c options_text]"
proof -
  let ?hs = "[(''Allow'', ''GET, POST, OPTIONS''), (''Content-Length'', ''0'')]"
  have "serialize_response (add_headers \<lparr>res_status = HTTP_NO_CONTENT, res_headers = []\<rparr> ?hs) MAX_BUFFR = Some options_text"
    using options_text_ok by (simp add: add_headers_eq serialize_response_eq options_text_def MAX_HEADERS_def)
  with assms options_text_ok show "fst (run_state (process_options os c) w) = 0"
    "visible (snd (run_state (process_options os c) w)) = visible w @ [send_event c options_text]"
    by (simp_all add: process_options_def cstr_id)
qed

section \<open>Files\<close>

text \<open>The events of a file going out in consecutive pieces of the given sizes.\<close>

fun chunk_events :: "int \<Rightarrow> int \<Rightarrow> int \<Rightarrow> int list \<Rightarrow> event list" where
  "chunk_events c fd off [] = []"
| "chunk_events c fd off (n # ns) = SendFile c fd off n # chunk_events c fd (off + n) ns"

lemma visible_chunk_events [simp]: "visible (chunk_events c fd off ns) = chunk_events c fd off ns"
  by (induction ns arbitrary: off) simp_all

lemma fds_chunk_events [simp]: "opened_fds (chunk_events c fd off ns) = {#}" "closed_fds (chunk_events c fd off ns) = {#}"
  by (induction ns arbitrary: off) (simp_all add: event_opens_def event_closes_def)

text \<open>\<^verbatim>\<open>sendfile\<close> makes progress and never sends more than asked.\<close>

definition file_flows :: "os \<Rightarrow> int \<Rightarrow> int \<Rightarrow> bool" where
  "file_flows os c fd \<longleftrightarrow> (\<forall>w off k. 0 < k \<longrightarrow> 0 < os_sendfile os w c fd off k \<and> os_sendfile os w c fd off k \<le> k)"

lemma send_file_loop_complete:
  "file_flows os c fd \<Longrightarrow> off \<le> st_size \<Longrightarrow>
   \<exists>ns. send_file_loop os c fd st_size off w = (st_size, w @ chunk_events c fd off ns)
     \<and> (\<forall>n \<in> set ns. 0 < n) \<and> off + sum_list ns = st_size"
proof (induction os c fd st_size off w rule: send_file_loop.induct)
  case (1 os c fd st_size off w)
  show ?case
  proof (cases "off < st_size")
    case False
    with "1.prems" show ?thesis by (intro exI [of _ "[]"]) (simp add: send_file_loop.simps)
  next
    case True
    define n where "n = os_sendfile os w c fd off (st_size - off)"
    have n: "0 < n" "n \<le> st_size - off" using "1.prems"(1) True unfolding file_flows_def n_def by simp_all
    then obtain ns where "send_file_loop os c fd st_size (off + n) (w @ [SendFile c fd off n]) =
        (st_size, (w @ [SendFile c fd off n]) @ chunk_events c fd (off + n) ns)"
        "\<forall>n \<in> set ns. 0 < n" "off + n + sum_list ns = st_size"
      using "1.IH" [OF True n_def refl] "1.prems"(1) by auto
    with True n show ?thesis
      by (intro exI [of _ "n # ns"]) (simp add: send_file_loop.simps [of os c fd st_size off w] n_def [symmetric])
  qed
qed

text \<open>A regular file below the root that does not change while the request is processed.\<close>

definition file_at :: "os \<Rightarrow> int \<Rightarrow> bytes \<Rightarrow> int \<Rightarrow> int \<Rightarrow> int \<Rightarrow> bool" where
  "file_at os root p fd st_size mtime \<longleftrightarrow> 0 \<le> fd \<and> 0 \<le> st_size \<and>
     (\<forall>w. fst (os_openat2 os w root p) = fd \<and> os_fstat os w fd = Some (st_size, mtime))"

lemma run_open_safe:
  assumes "NUL \<notin> set p" "p \<noteq> []"
  shows "run_state (open_safe os root (p @ [NUL])) w =
    (os_openat2 os w root (tl p), w @ [OpenAt root (tl p) (fst (os_openat2 os w root (tl p)))])"
  by (simp add: open_safe_path [OF assms] sys_openat2_def)

lemma run_send_file:
  assumes p: "NUL \<notin> set p" "p \<noteq> []" and f: "file_at os root (tl p) fd st_size mtime" "file_flows os c fd"
  shows "\<exists>ns. run_state (send_file os root (p @ [NUL]) c) w =
      (0, w @ [OpenAt root (tl p) fd] @ chunk_events c fd 0 ns @ [Close fd])
    \<and> (\<forall>n \<in> set ns. 0 < n) \<and> sum_list ns = st_size"
proof -
  have fd: "fst (os_openat2 os w root (tl p)) = fd" "0 \<le> fd" "0 \<le> st_size" "os_fstat os v fd = Some (st_size, mtime)" for v
    using f(1) by (simp_all add: file_at_def)
  obtain ns where "send_file_loop os c fd st_size 0 (w @ [OpenAt root (tl p) fd]) =
      (st_size, (w @ [OpenAt root (tl p) fd]) @ chunk_events c fd 0 ns)" "\<forall>n \<in> set ns. 0 < n" "sum_list ns = st_size"
    using send_file_loop_complete [OF f(2) fd(3), of "w @ [OpenAt root (tl p) fd]"] by auto
  with fd show ?thesis
    by (intro exI [of _ ns]) (simp add: send_file_def run_open_safe [OF p] split_beta sys_fstat_def sys_close_def)
qed

lemma run_get_file_info:
  assumes p: "NUL \<notin> set p" "p \<noteq> []" and f: "file_at os root (tl p) fd st_size mtime" and s: "st_size < 2 ^ 31"
  shows "run_state (get_file_info os root (p @ [NUL]) True) w =
    ((0, st_size, mtime), w @ [OpenAt root (tl p) fd, Close fd])"
  using f s sint_in_range [of st_size]
  by (simp add: get_file_info_def run_open_safe [OF p] split_beta sys_fstat_def sys_close_def file_at_def)

lemma run_get_file_info_missing:
  assumes p: "NUL \<notin> set p" "p \<noteq> []" and "fst (os_openat2 os w root (tl p)) < 0"
  shows "run_state (get_file_info os root (p @ [NUL]) b) w =
    ((if snd (os_openat2 os w root (tl p)) \<in> {EACCES, ELOOP} then -3
      else if snd (os_openat2 os w root (tl p)) = ENOENT then -2 else -1, 0, 0),
     w @ [OpenAt root (tl p) (fst (os_openat2 os w root (tl p)))])"
  using assms(3) by (auto simp: get_file_info_def run_open_safe [OF p] split_beta)

text \<open>Response times the formatter accepts: years 1970 to 9999.\<close>

definition dated :: "int \<Rightarrow> bool" where
  "dated t \<longleftrightarrow> 0 \<le> t \<and> t < 253402300800"

lemma strftime_dated: "dated t \<Longrightarrow> strftime_http MAX_HEADER_CONTENT (gmtime t) = Some (http_date (gmtime t))"
  using http_date_length [of t] by (simp add: dated_def strftime_http_def MAX_HEADER_CONTENT_def)

lemma file_text_NUL: "NUL \<notin> set (server_signature sc) \<Longrightarrow> NUL \<notin> set (file_text sc now mt n p)"
  unfolding file_text_def by (rule response_NUL) (simp add: file_headers_def http_date_NUL mime_NUL)

lemma script_text_NUL: "NUL \<notin> set (server_signature sc) \<Longrightarrow> NUL \<notin> set (script_text sc now n)"
  unfolding script_text_def by (rule response_NUL) (simp add: script_headers_def http_date_NUL)

lemma run_respond_file:
  assumes snd: "all_sent os" and p: "NUL \<notin> set p" "p \<noteq> []"
    and f: "file_at os (root_fd sc) (tl p) fd st_size mtime" "file_flows os c fd"
    and d: "dated now" "dated mtime" and sig: "NUL \<notin> set (server_signature sc)"
    and fits: "length (file_text sc now mtime st_size p) < MAX_BUFFR"
  shows "\<exists>ns. fst (run_state (respond_file os sc (p @ [NUL]) ip now st_size mtime c) w) = 0
    \<and> visible (snd (run_state (respond_file os sc (p @ [NUL]) ip now st_size mtime c) w)) =
       visible w @ [send_event c (file_text sc now mtime st_size p), OpenAt (root_fd sc) (tl p) fd] @ chunk_events c fd 0 ns @ [Close fd]
    \<and> (\<forall>n \<in> set ns. 0 < n) \<and> sum_list ns = st_size"
proof -
  let ?t = "file_text sc now mtime st_size p"
  let ?w = "w @ [send_event c ?t]"
  have s: "serialize_response (add_headers \<lparr>res_status = HTTP_OK, res_headers = []\<rparr>
      (file_headers sc (http_date (gmtime now)) (http_date (gmtime mtime)) st_size (get_mime_type (cstr (p @ [NUL]))))) MAX_BUFFR = Some ?t"
    using fits by (simp add: add_headers_eq serialize_response_eq file_text_def file_headers_def MAX_HEADERS_def cstr_path_end [OF p(1)])
  obtain ns where ns: "run_state (send_file os (root_fd sc) (p @ [NUL]) c) ?w =
      (0, ?w @ [OpenAt (root_fd sc) (tl p) fd] @ chunk_events c fd 0 ns @ [Close fd])" "\<forall>n \<in> set ns. 0 < n" "sum_list ns = st_size"
    using run_send_file [OF p f] by blast
  then show ?thesis
    using snd d file_text_NUL [OF sig]
    by (intro exI [of _ ns]) (simp add: respond_file_def strftime_dated s cstr_id)
qed

text \<open>GET of a file: the head, then the whole file in order, exactly once; every descriptor is closed.\<close>

lemma get_spec_file:
  assumes snd: "all_sent os" and r: "route_url u = ServeFile p" and p: "NUL \<notin> set p" "p \<noteq> []"
    and f: "file_at os (root_fd sc) (tl p) fd st_size mtime" "file_flows os c fd" "st_size < 2 ^ 31"
    and d: "dated (os_time os w)" "dated mtime" and sig: "NUL \<notin> set (server_signature sc)"
    and fits: "length (file_text sc (os_time os w) mtime st_size p) < MAX_BUFFR"
  shows "\<exists>ns. fst (run_state (get_spec os sc u c) w) = 0
    \<and> visible (snd (run_state (get_spec os sc u c) w)) =
       visible w @ [OpenAt (root_fd sc) (tl p) fd, Close fd, send_event c (file_text sc (os_time os w) mtime st_size p),
         OpenAt (root_fd sc) (tl p) fd] @ chunk_events c fd 0 ns @ [Close fd]
    \<and> (\<forall>n \<in> set ns. 0 < n) \<and> sum_list ns = st_size"
proof -
  let ?w = "snd (run_state (get_client_ip_port os c) w)"
  have "\<exists>ns. fst (run_state (respond_file os sc (p @ [NUL]) (fst (run_state (get_client_ip_port os c) w)) (os_time os w) st_size mtime c)
        (?w @ [OpenAt (root_fd sc) (tl p) fd, Close fd])) = 0
    \<and> visible (snd (run_state (respond_file os sc (p @ [NUL]) (fst (run_state (get_client_ip_port os c) w)) (os_time os w) st_size mtime c)
        (?w @ [OpenAt (root_fd sc) (tl p) fd, Close fd]))) =
       visible (?w @ [OpenAt (root_fd sc) (tl p) fd, Close fd]) @ [send_event c (file_text sc (os_time os w) mtime st_size p),
         OpenAt (root_fd sc) (tl p) fd] @ chunk_events c fd 0 ns @ [Close fd]
    \<and> (\<forall>n \<in> set ns. 0 < n) \<and> sum_list ns = st_size"
    by (rule run_respond_file [OF snd p f(1,2) d sig fits])
  then show ?thesis
    using run_get_file_info [OF p f(1,3)] by (auto simp: get_spec_def r)
qed

lemma get_spec_missing:
  assumes snd: "all_sent os" and r: "route_url u = ServeFile p" and p: "NUL \<notin> set p" "p \<noteq> []"
    and f: "\<And>w. os_openat2 os w (root_fd sc) (tl p) = (fd, err)" "fd < 0" and e: "err \<in> {ENOENT, EACCES, ELOOP}"
  shows "fst (run_state (get_spec os sc u c) w) = 0"
    and "visible (snd (run_state (get_spec os sc u c) w)) =
      visible w @ OpenAt (root_fd sc) (tl p) fd # error_events c (if err = ENOENT then HTTP_NOT_FOUND else HTTP_FORBIDDEN)"
  using f e snd by (auto simp: get_spec_def r run_get_file_info_missing [OF p])

section \<open>Scripts\<close>

lemma read_loop_bound: "fst (read_loop os fd out w) = Some b \<Longrightarrow> length b < MAX_BUFFR"
proof (induction os fd out w rule: read_loop.induct)
  case (1 os fd out w)
  then show ?case by (subst (asm) (2) read_loop.simps) (auto simp: Let_def split: if_splits)
qed

text \<open>The output is what was read from the pipe, byte for byte, up to the first empty read.\<close>

lemma read_loop_piped: "fst (read_loop os fd out w) = Some b \<Longrightarrow> piped (snd (read_loop os fd out w)) = piped w @ drop (length out) b \<and> prefix out b"
proof (induction os fd out w rule: read_loop.induct)
  case (1 os fd out w)
  show ?case
  proof (cases "MAX_BUFFR \<le> length out")
    case True
    then show ?thesis using "1.prems" by (subst (asm) read_loop.simps) simp
  next
    case False
    define d where "d = take (MAX_BUFFR - length out) (os_pipe_read os w fd (MAX_BUFFR - length out))"
    show ?thesis
    proof (cases "d = []")
      case True
      then have "read_loop os fd out w = (Some out, w @ [PipeRead fd []])"
        using False by (simp add: read_loop.simps [of os fd out w] d_def [symmetric])
      with "1.prems" show ?thesis by (simp add: piped_event_def)
    next
      case ne: False
      have l: "read_loop os fd out w = read_loop os fd (out @ d) (w @ [PipeRead fd d])"
        using False ne by (simp add: read_loop.simps [of os fd out w] d_def [symmetric])
      from "1.IH" [OF False d_def refl ne] "1.prems"
      have "piped (snd (read_loop os fd out w)) = piped (w @ [PipeRead fd d]) @ drop (length (out @ d)) b" "prefix (out @ d) b"
        unfolding l by simp_all
      then show ?thesis by (auto simp: piped_event_def prefix_def)
    qed
  qed
qed

lemma traces_piped:
  assumes "traces (\<lambda>e. piped_event e = []) m"
  shows "piped (snd (run_state m w)) = piped w"
proof -
  obtain es where "snd (run_state m w) = w @ es" "list_all (\<lambda>e. piped_event e = []) es"
    using assms by (auto simp: traces_def)
  then show ?thesis by (auto simp: piped_def list_all_iff)
qed

lemma piped_write_loop [simp]: "piped (snd (write_loop os fd args n 0 w)) = piped w"
  using traces_piped [of "State (write_loop os fd args n 0)" w] by (simp add: traces_loops(2) covered_def piped_event_def)

lemma piped_calls [simp]:
  "piped_event (Pipe a b) = []" "piped_event (Fork a x) = []" "piped_event (Close a) = []" "piped_event (WaitPid a) = []"
  by (simp_all add: piped_event_def)

lemma run_script_piped:
  assumes r: "fst (run_state (run_script os args n path fp) w) = Some out"
  shows "piped (snd (run_state (run_script os args n path fp) w)) = piped w @ out"
proof -
  obtain in0 in1 where i: "os_pipe os w = Some (in0, in1)"
    using r by (cases "os_pipe os w") (auto simp: run_script_def sys_pipe_def)
  obtain out0 out1 where o: "os_pipe os (w @ [Pipe in0 in1]) = Some (out0, out1)"
    using r i by (cases "os_pipe os (w @ [Pipe in0 in1])") (auto simp: run_script_def sys_pipe_def)
  show ?thesis
    using r i o read_loop_piped [of os out0 "[]" _ out]
    by (auto simp: run_script_def sys_pipe_def sys_fork_def sys_close_def sys_waitpid_def split: if_splits)
qed

lemma run_script_bound: "fst (run_state (run_script os args n path fp) w) = Some out \<Longrightarrow> length out < MAX_BUFFR"
  by (auto simp: run_script_def split_beta split: option.splits if_splits intro: read_loop_bound)

text \<open>\<open>balanced w w'\<close>: between the two histories as many descriptors were closed as opened, the same ones.\<close>

definition balanced :: "world \<Rightarrow> world \<Rightarrow> bool" where
  "balanced w w' \<longleftrightarrow> opened_fds w' + closed_fds w = closed_fds w' + opened_fds w"

lemma traces_fds:
  assumes "traces (\<lambda>e. event_opens e = {#} \<and> event_closes e = {#}) m"
  shows "opened_fds (snd (run_state m w)) = opened_fds w" "closed_fds (snd (run_state m w)) = closed_fds w"
proof -
  obtain es where es: "snd (run_state m w) = w @ es" "list_all (\<lambda>e. event_opens e = {#} \<and> event_closes e = {#}) es"
    using assms by (auto simp: traces_def)
  from es(2) have "opened_fds es = {#} \<and> closed_fds es = {#}" by (induction es) auto
  then show "opened_fds (snd (run_state m w)) = opened_fds w" "closed_fds (snd (run_state m w)) = closed_fds w"
    using es(1) by simp_all
qed

lemma fds_write_loop [simp]:
  "opened_fds (snd (write_loop os fd args n 0 w)) = opened_fds w" "closed_fds (snd (write_loop os fd args n 0 w)) = closed_fds w"
  using traces_fds [of "State (write_loop os fd args n 0)" w] traces_loops(2)
  by (simp_all add: covered_def event_opens_def event_closes_def)

lemma fds_read_loop [simp]:
  "opened_fds (snd (read_loop os fd out w)) = opened_fds w" "closed_fds (snd (read_loop os fd out w)) = closed_fds w"
  using traces_fds [of "State (read_loop os fd out)" w] traces_loops(3)
  by (simp_all add: event_opens_def event_closes_def)

lemma fds_logs [simp]:
  "opened_fds (snd (run_state (logs_print os t m) w)) = opened_fds w" "closed_fds (snd (run_state (logs_print os t m) w)) = closed_fds w"
  "opened_fds (snd (run_state (get_client_ip_port os c) w)) = opened_fds w"
  "closed_fds (snd (run_state (get_client_ip_port os c) w)) = closed_fds w"
  by (rule traces_fds; intro tracing; simp add: event_opens_def event_closes_def)+

text \<open>Every end of the two pipes is closed exactly once, whatever happens.\<close>

lemma run_script_balanced: "balanced w (snd (run_state (run_script os args n path fp) w))"
proof (cases "os_pipe os w")
  case None
  then show ?thesis by (simp add: balanced_def run_script_def sys_pipe_def)
next
  case (Some ip)
  obtain in0 in1 where ip: "ip = (in0, in1)" by fastforce
  show ?thesis
  proof (cases "os_pipe os (w @ [Pipe in0 in1])")
    case None
    with Some ip show ?thesis
      by (simp add: balanced_def run_script_def sys_pipe_def sys_close_def event_opens_def event_closes_def)
  next
    case op: (Some op)
    obtain out0 out1 where "op = (out0, out1)" by fastforce
    with Some ip op show ?thesis
      by (simp add: balanced_def run_script_def sys_pipe_def sys_close_def sys_fork_def sys_waitpid_def
          event_opens_def event_closes_def)
  qed
qed

lemma run_script_sent: "sent c (snd (run_state (run_script os args n path fp) w)) = sent c w"
  by (rule traces_sent) (auto simp: run_script_def sent_event_def covered_def intro!: tracing)

lemma fds_sends [simp]:
  "opened_fds (error_events c code) = {#}" "closed_fds (error_events c code) = {#}"
  "event_opens (send_event c b) = {#}" "event_closes (send_event c b) = {#}"
  by (simp_all add: error_events_def send_event_def event_opens_def event_closes_def)

lemma piped_send [simp]: "piped_event (send_event c b) = []"
  by (simp add: piped_event_def send_event_def)

lemma sent_send [simp]: "sent c [send_event c b] = b" "sent c [send_event c a, send_event c b] = a @ b"
  by (simp_all add: sent_def sent_event_def send_event_def)

lemma run_send_script_output:
  assumes "all_sent os" and "dated now" and "NUL \<notin> set (server_signature sc)"
    and "length (script_text sc now (length out)) < MAX_BUFFR"
  shows "run_state (send_script_output os sc c now out) w =
    (0, w @ [send_event c (script_text sc now (length out)), send_event c out])"
proof -
  have "serialize_response (add_headers \<lparr>res_status = HTTP_OK, res_headers = []\<rparr>
      (script_headers sc (http_date (gmtime now)) (length out))) MAX_BUFFR = Some (script_text sc now (length out))"
    using assms(4) by (simp add: add_headers_eq serialize_response_eq script_text_def script_headers_def MAX_HEADERS_def)
  with assms show ?thesis
    by (simp add: send_script_output_def strftime_dated cstr_id script_text_NUL)
qed

text \<open>The history when the script is started: it was opened twice and closed once.\<close>

definition script_world :: "os \<Rightarrow> int \<Rightarrow> bytes \<Rightarrow> int \<Rightarrow> int \<Rightarrow> world \<Rightarrow> world" where
  "script_world os root p fd c w =
     snd (run_state (get_client_ip_port os c) w) @ [OpenAt root (tl p) fd, Close fd, OpenAt root (tl p) fd]"

lemma process_script_unfold:
  assumes p: "NUL \<notin> set p" "p \<noteq> []" and f: "\<And>w. fst (os_openat2 os w (root_fd sc) (tl p)) = fd" "0 \<le> fd"
  shows "run_state (process_script os sc args n (p @ [NUL]) c) w =
    (let (out, w') = run_state (run_script os args n p (''/proc/self/fd/'' @ show_int fd)) (script_world os (root_fd sc) p fd c w)
     in case out of None \<Rightarrow> (-1, w') | Some out \<Rightarrow> run_state (send_script_output os sc c (os_time os w) out) w')"
proof -
  have "\<not> fd < 0" using f(2) by simp
  then show ?thesis
    by (simp add: process_script_def get_file_info_def run_open_safe [OF p] f(1) sys_close_def split_beta script_world_def
        cstr_path_end [OF p(1)] split: option.split)
qed

lemma process_script_outcome:
  assumes s: "all_sent os" and p: "NUL \<notin> set p" "p \<noteq> []"
    and f: "\<And>w. fst (os_openat2 os w (root_fd sc) (tl p)) = fd" "0 \<le> fd"
    and d: "dated (os_time os w)" and sig: "NUL \<notin> set (server_signature sc)"
    and fits: "\<And>k. k < MAX_BUFFR \<Longrightarrow> length (script_text sc (os_time os w) k) < MAX_BUFFR"
  shows "(let (ret, w') = run_state (process_script os sc args n (p @ [NUL]) c) w in
     (ret = -1 \<and> sent c w' = sent c w
      \<or> (\<exists>out. ret = 0 \<and> piped w' = piped w @ out \<and> length out < MAX_BUFFR
           \<and> sent c w' = sent c w @ script_text sc (os_time os w) (length out) @ out))
     \<and> opened_fds w' + closed_fds w = add_mset fd (closed_fds w' + opened_fds w))"
proof -
  let ?w = "script_world os (root_fd sc) p fd c w"
  define r where "r = run_state (run_script os args n p (''/proc/self/fd/'' @ show_int fd)) ?w"
  have v: "sent c ?w = sent c w" "opened_fds ?w = opened_fds w + {#fd, fd#}" "closed_fds ?w = closed_fds w + {#fd#}" "piped ?w = piped w"
    using traces_sent [OF traces_get_client_ip_port, of c os c w] traces_piped [OF traces_get_client_ip_port, of os c w] f(2)
    by (simp_all add: script_world_def sent_def sent_event_def event_opens_def event_closes_def piped_event_def)
  have r: "sent c (snd r) = sent c w" "opened_fds (snd r) + closed_fds w = add_mset fd (closed_fds (snd r) + opened_fds w)"
    using run_script_balanced [of ?w os args n p "''/proc/self/fd/'' @ show_int fd"] v run_script_sent
    by (simp_all add: balanced_def r_def)
  note run = process_script_unfold [OF p f, of args n c w, folded r_def]
  show ?thesis
  proof (cases "fst r")
    case None
    with r show ?thesis by (simp add: run split_beta)
  next
    case (Some out)
    then have b: "length out < MAX_BUFFR" unfolding r_def by (rule run_script_bound)
    have pi: "piped (snd r) = piped w @ out" using Some run_script_piped v(4) unfolding r_def by metis
    with Some have "run_state (process_script os sc args n (p @ [NUL]) c) w =
        (0, snd r @ [send_event c (script_text sc (os_time os w) (length out)), send_event c out])"
      using run_send_script_output [OF s d sig fits [OF b]] by (simp add: run split_beta)
    with b r pi show ?thesis by auto
  qed
qed

section \<open>What the parser hands on\<close>

lemma parsed_url:
  assumes p: "http_parse_request buff r0 n l = (r, PRet e)" and n: "n \<le> length buff" "n < 2 ^ 31"
  obtains u where "rq_url_size r = int (length u)" "prefix u (url_mem buff r)" "u \<noteq> []" "\<forall>c \<in> set u. path_char c"
proof -
  let ?b = "take n buff"
  obtain out where o: "phr_parse_request ?b (parser_out r0) l = (out, PRet e)" and r: "r = request_store (r0\<lparr>rq_num_headers := int MAX_HEADERS\<rparr>) out"
    using p by (cases "phr_parse_request ?b (parser_out r0) l") (auto simp: http_parse_request_def Let_def)
  have "phr_parse_request ?b (parser_out r0) 0 = (out, PRet e)" using o phr_parse_request_gate by blast
  then have "request_ok ?b out" unfolding phr_parse_request_0 by (rule parse_request_ok) simp
  then obtain q where q: "o_path out = Some q" "0 < o_path_len out" "q + o_path_len out \<le> length ?b"
    "\<forall>c \<in> set (bslice ?b q (o_path_len out)). path_char c" by (auto simp: request_ok_def)
  let ?u = "bslice ?b q (o_path_len out)"
  have len: "length ?u = o_path_len out" using q(3) by (auto simp: bslice_def min_def)
  have pre: "take (o_path_len out) (drop q ?b) = take (o_path_len out) (drop q buff)"
    using q(3) n(1) by (simp add: drop_take min_absorb1)
  have "prefix ?u (url_mem buff r)"
    using pre q(1) by (simp add: bslice_def url_mem_def r request_store_def take_is_prefix)
  moreover have "rq_url_size r = int (length ?u)"
    using q(3) n lo32_small [of "o_path_len out"] unfolding len by (simp add: r request_store_def)
  moreover have "?u \<noteq> []" using len q(2) by (metis less_nat_zero_code list.size(3))
  ultimately show thesis using that [of ?u] q(4) by simp
qed

text \<open>A request that was parsed from the buffer and has no body lies in it.\<close>

lemma parsed_inside:
  assumes "http_parse_request buff r0 n l = (r, PRet e)" "n \<le> length buff" "n < 2 ^ 31" "rq_body_size r = 0"
  shows "request_inside buff r"
proof -
  obtain u where "rq_url_size r = int (length u)" "prefix u (url_mem buff r)" using parsed_url [OF assms(1-3)] by blast
  then show ?thesis using assms(4) by (auto simp: request_inside_def dest: prefix_length_le)
qed

lemma http_parse_request_body: "rq_body_size (fst (http_parse_request buff r n l)) = rq_body_size r"
  by (simp add: http_parse_request_def request_store_def Let_def)

end
