(* ===== verification/HttpProperties.thy ===== *)
theory HttpProperties
  imports HttpHandlers PicoRoundtrip
begin

text \<open>
  The correctness properties of the HTTP layer (\<^verbatim>\<open>srclib/http.c\<close>), with concrete instances on a
  small system.
\<close>

section \<open>From the parser to the handlers\<close>

lemma parsed_url_ok:
  assumes "http_parse_request buff r0 n l = (r, PRet e)" "n \<le> length buff" "n < 2 ^ 31" "url_mem buff r ! 0 = CHR ''/''"
  obtains u where "url_ok buff r u" "prefix ''/'' u"
proof -
  obtain u where u: "rq_url_size r = int (length u)" "prefix u (url_mem buff r)" "u \<noteq> []" "\<forall>c \<in> set u. path_char c"
    using parsed_url [OF assms(1-3)] by blast
  have "NUL \<notin> set u" using u(4) by (auto simp: path_char_def uchar_def)
  moreover have "hd u = CHR ''/''" using u(2,3) assms(4) by (cases u) (auto simp: prefix_def)
  ultimately have "url_ok buff r u" "prefix ''/'' u"
    using u by (auto simp: url_ok_def prefix_def neq_Nil_conv)
  then show thesis using that by blast
qed

section \<open>A small system\<close>

text \<open>One document, \<^verbatim>\<open>index.html\<close>, of ten bytes; a script \<^verbatim>\<open>s.py\<close> that prints \<^verbatim>\<open>ok\<close>; a client that takes everything.\<close>

definition demo_os :: os where
  "demo_os = \<lparr>os_send = \<lambda>w fd b. (int (length b), EAGAIN),
     os_recv = \<lambda>w fd n. Inl EAGAIN,
     os_shutdown = \<lambda>w fd. (0, EAGAIN), os_close = \<lambda>w fd. (0, EAGAIN),
     os_openat2 = \<lambda>w root p. if p = ''index.html'' then (7, EAGAIN) else if p = ''s.py'' then (8, EAGAIN) else (-1, ENOENT),
     os_fstat = \<lambda>w fd. Some (10, 0),
     os_sendfile = \<lambda>w c fd off n. min 6 n,
     os_getpeername = \<lambda>w fd. Some ''1.2.3.4:5'',
     os_time = \<lambda>w. 86400,
     os_log_date = \<lambda>w. ''now'', os_fprintf = \<lambda>w s. True,
     os_pipe = \<lambda>w. Some (20, 21), os_fork = \<lambda>w. 99,
     os_pipe_write = \<lambda>w fd b. int (length b),
     os_pipe_read = \<lambda>w fd n. if PipeRead 20 ''ok'' \<in> set w then [] else ''ok'',
     os_stack = \<lambda>w. [], os_beyond = \<lambda>w. [], os_active_null = True, os_address = int,
     os_socket = \<lambda>w. 3, os_setsockopt = \<lambda>w fd. 0, os_bind = \<lambda>w fd p. 0, os_listen = \<lambda>w fd n. 0,
     os_accept = \<lambda>w fd. 4, os_epoll_add = \<lambda>w fd. True, os_epoll_create = \<lambda>w. 9, os_getfl = \<lambda>w fd. 2, os_setfl = \<lambda>w fd f. 0,
     os_errno = \<lambda>w. EINTR, os_strerror = \<lambda>e. ''error''\<rparr>"

definition demo_conf :: server_conf where
  "demo_conf = \<lparr>server_root = ''www/'', root_fd = 6, listen_port = 8000, server_signature = ''Server'',
     conf_log_file = ''server_logs'', timeout_ms = 1000, queue_size = 32, pool_size = 8, backlog = 10\<rparr>"

text \<open>The request for \<open>u\<close> with method \<open>m\<close>, as the parser leaves it.\<close>

definition demo_request :: "bytes \<Rightarrow> bytes \<Rightarrow> http_request" where
  "demo_request m u = zero_request\<lparr>rq_method := Some 0, rq_method_size := int (length m),
     rq_url := Some (length m + 1), rq_url_size := int (length u)\<rparr>"

definition demo_buffer :: "bytes \<Rightarrow> bytes \<Rightarrow> bytes" where
  "demo_buffer m u = m @ SP # u @ '' HTTP/1.0'' @ [CR, LF, CR, LF]"

lemma demo_url_ok: "NUL \<notin> set u \<Longrightarrow> u \<noteq> [] \<Longrightarrow> hd u \<noteq> CHR ''?'' \<Longrightarrow> url_ok (demo_buffer m u) (demo_request m u) u"
  by (simp add: url_ok_def url_mem_def demo_buffer_def demo_request_def)

lemma demo_parsed:
  assumes "wf_request m u (CHR ''0'') []"
  shows "\<exists>r. http_parse_request (demo_buffer m u) zero_request (length (demo_buffer m u)) 0 = (r, PRet (length (demo_buffer m u)))
    \<and> rq_url r = Some (length m + 1) \<and> rq_method r = Some 0 \<and> rq_method_size r = lo32 (length m) \<and> rq_num_headers r = lo32 0"
proof -
  have b: "demo_buffer m u = print_request m u (CHR ''0'') []" by (simp add: demo_buffer_def print_request_def)
  have c: "o_num_headers (parser_out zero_request) \<le> length (o_headers (parser_out zero_request))"
    using parser_out_headers [OF request_inv_zero] by simp
  show ?thesis
    using parse_request_run [OF assms, of "(parser_out zero_request)\<lparr>o_method := None, o_method_len := 0, o_path := None,
        o_path_len := 0, o_minor_version := -1, o_num_headers := 0\<rparr>" "o_num_headers (parser_out zero_request)" "[]"] c
    by (simp add: b http_parse_request_def Let_def phr_parse_request_0 request_store_def store_headers_def)
qed

lemma demo_os_simps [simp]:
  "all_sent demo_os" "file_flows demo_os c fd" "os_time demo_os w = 86400"
  "file_at demo_os root ''index.html'' 7 10 0" "os_openat2 demo_os w root ''none'' = (-1, ENOENT)"
  "os_openat2 demo_os w root ''s.py'' = (8, EAGAIN)"
  by (simp_all add: demo_os_def all_sent_def file_flows_def file_at_def)

lemma demo_dated [simp]: "dated 86400" "dated 0"
  by (simp_all add: dated_def)

lemma demo_conf_simps [simp]: "NUL \<notin> set (server_signature demo_conf)" "root_fd demo_conf = 6"
  by (simp_all add: demo_conf_def)

section \<open>Properties: requests and confinement\<close>

text \<open>
  C22: parsing into a client's structure is safe. With the array at its declared length and zeroed
  padding (as \<^verbatim>\<open>calloc\<close> leaves it) \<^verbatim>\<open>http_parse_request\<close> stays inside buffer and array, and leaves
  a structure for which the same holds, so it can be called again and again.
\<close>
theorem http_parse_request_safe:
  assumes "request_inv r" and "last_len \<le> buff_len" and "buff_len \<le> length buff"
  shows "snd (http_parse_request buff r buff_len last_len) \<noteq> PFault \<and> request_inv (fst (http_parse_request buff r buff_len last_len))"
  using assms http_parse_request_no_fault http_parse_request_inv by blast

theorem http_parse_request_safe_witness:
  "snd (http_parse_request (demo_buffer ''GET'' ''/'') zero_request 18 0) \<noteq> PFault
     \<and> request_inv (fst (http_parse_request (demo_buffer ''GET'' ''/'') zero_request 18 0))"
  by (rule http_parse_request_safe [OF request_inv_zero]) (simp_all add: demo_buffer_def)



text \<open>
  C9: what GET decides. On a URL inside the buffer, without NUL, not empty and not starting with
  a question mark, \<^verbatim>\<open>process_get\<close> (traversal check, query loop, path array, MIME type) behaves exactly
  like \<open>get_spec\<close>, which acts on \<open>route_url\<close> of the URL alone; it cuts the query off \<^verbatim>\<open>url_size\<close>.
\<close>
theorem process_get_refines_route:
  assumes "url_ok buff r u"
  shows "run_state (process_get os sc buff r clientfd) w =
    (let p = run_state (get_spec os sc u clientfd) w in ((fst p, cut_query r u), snd p))"
  using assms by (rule process_get_spec)

theorem process_get_refines_route_witness:
  "snd (fst (run_state (process_get demo_os demo_conf (demo_buffer ''GET'' ''/a?b'') (demo_request ''GET'' ''/a?b'') 4) []))
     = (demo_request ''GET'' ''/a?b'')\<lparr>rq_url_size := 2\<rparr>"
proof -
  have "cut_query (demo_request ''GET'' ''/a?b'') ''/a?b'' = (demo_request ''GET'' ''/a?b'')\<lparr>rq_url_size := 2\<rparr>" by code_simp
  then show ?thesis
    using process_get_refines_route [OF demo_url_ok, of "''/a?b''" demo_os demo_conf "''GET''" 4 "[]"] by (simp add: Let_def)
qed

text \<open>
  C23: what POST decides. When the body the request points to lies inside the buffer, \<^verbatim>\<open>process_post\<close> behaves exactly like
  \<open>post_spec\<close>, which acts on \<open>route_url\<close> of the URL and hands a script the bytes of that body, and no byte
  behind the buffer is read.
\<close>
theorem process_post_refines_route:
  assumes "url_ok buff r u" and "rq_body_size r = int (length body)" and "prefix body (drop (the (rq_body r)) buff)"
  shows "run_state (process_post os sc buff r clientfd) w =
      (let p = run_state (post_spec os sc u body (int (length body)) clientfd) w in ((fst p, cut_query r u), snd p))
    \<and> traces in_bounds (process_post os sc buff r clientfd)"
proof -
  have "take (nat (rq_body_size r)) (drop (the (rq_body r)) buff) = body" "nat (rq_body_size r) \<le> length (drop (the (rq_body r)) buff)"
    using assms(2,3) prefix_length_le [OF assms(3)] by (auto simp: prefix_def)
  then show ?thesis
    using process_post_spec [OF assms(1), of os sc clientfd w] assms(2)
    by (auto intro!: traces_process_post_any in_bounds_client simp: covered_def)
qed

definition post_request :: "bytes \<Rightarrow> bytes \<Rightarrow> http_request" where
  "post_request u body = http_add_body (demo_request ''POST'' u) (length (demo_buffer ''POST'' u)) (int (length body))"

theorem process_post_refines_route_witness:
  "sent 4 (snd (run_state (process_post demo_os demo_conf (demo_buffer ''POST'' ''/s.py'' @ ''a=1'') (post_request ''/s.py'' ''a=1'') 4) []))
     = sent 4 (snd (run_state (post_spec demo_os demo_conf ''/s.py'' ''a=1'' 3 4) []))"
proof -
  have "url_ok (demo_buffer ''POST'' ''/s.py'' @ ''a=1'') (post_request ''/s.py'' ''a=1'') ''/s.py''"
    by (simp add: url_ok_def url_mem_def demo_buffer_def post_request_def demo_request_def http_add_body_def)
  from process_post_refines_route [OF this, of "''a=1''" demo_os demo_conf 4 "[]"] show ?thesis
    by (simp add: post_request_def demo_buffer_def http_add_body_def Let_def)
qed

text \<open>
  C24: a file is delivered. When the path names an unchanging file of less than 2 GiB, the client
  takes everything and \<^verbatim>\<open>sendfile\<close> makes progress, GET returns 0; the client gets the head with the
  size of the file as its length and then every byte of the file in order, exactly once; both
  descriptors that were opened are closed.
\<close>
theorem process_get_delivers_file:
  assumes "url_ok buff r u" and "route_url u = ServeFile p" and "all_sent os"
    and "file_at os (root_fd sc) (tl p) fd st_size mtime" and "file_flows os clientfd fd" and "st_size < 2 ^ 31"
    and "dated (os_time os w)" and "dated mtime" and "NUL \<notin> set (server_signature sc)"
    and "length (file_text sc (os_time os w) mtime st_size p) < MAX_BUFFR"
  shows "\<exists>ns. fst (run_state (process_get os sc buff r clientfd) w) = (0, cut_query r u)
    \<and> visible (snd (run_state (process_get os sc buff r clientfd) w)) =
       visible w @ [OpenAt (root_fd sc) (tl p) fd, Close fd, send_event clientfd (file_text sc (os_time os w) mtime st_size p),
         OpenAt (root_fd sc) (tl p) fd] @ chunk_events clientfd fd 0 ns @ [Close fd]
    \<and> (\<forall>n \<in> set ns. 0 < n) \<and> sum_list ns = st_size"
proof -
  have "p = file_path u" using assms(2) by (auto simp: route_url_def split: if_splits)
  then have p: "NUL \<notin> set p" "p \<noteq> []"
    using assms(1) file_path_NUL file_path_nonempty by (auto simp: url_ok_def)
  show ?thesis
    using get_spec_file [OF assms(3,2) p assms(4-10)] by (simp add: process_get_spec [OF assms(1)] Let_def)
qed

theorem process_get_delivers_file_witness:
  "\<exists>ns. visible (snd (run_state (process_get demo_os demo_conf (demo_buffer ''GET'' ''/'') (demo_request ''GET'' ''/'') 4) [])) =
     [OpenAt 6 ''index.html'' 7, Close 7, send_event 4 (file_text demo_conf 86400 0 10 ''/index.html''),
      OpenAt 6 ''index.html'' 7] @ chunk_events 4 7 0 ns @ [Close 7] \<and> sum_list ns = 10"
proof -
  have r: "route_url ''/'' = ServeFile ''/index.html''" and f: "length (file_text demo_conf 86400 0 10 ''/index.html'') < MAX_BUFFR"
    by code_simp+
  from process_get_delivers_file [OF demo_url_ok r demo_os_simps(1), of demo_conf 7 10 0 4 "[]" "''GET''"] f show ?thesis
    by auto
qed

text \<open>
  C25: rejected URLs. A URL with \<^verbatim>\<open>..\<close>, \<^verbatim>\<open>//\<close> or a backslash before its end is answered 403, one whose
  path does not fit the path array 400, by GET and POST alike: the client gets exactly that page,
  nothing is opened or started, and the handler returns 0.
\<close>
theorem rejected_url_answered:
  assumes "url_ok buff r u" and "route_url u = Reject code" and "all_sent os"
  shows "fst (run_state (process_get os sc buff r clientfd) w) = (0, cut_query r u)
    \<and> visible (snd (run_state (process_get os sc buff r clientfd) w)) = visible w @ error_events clientfd code
    \<and> fst (run_state (process_post os sc buff r clientfd) w) = (0, cut_query r u)
    \<and> visible (snd (run_state (process_post os sc buff r clientfd) w)) = visible w @ error_events clientfd code"
  by (simp add: process_get_spec [OF assms(1)] process_post_spec [OF assms(1)] Let_def
      get_spec_reject [OF assms(3,2)] post_spec_reject [OF assms(3,2)])

theorem rejected_url_answered_witness:
  "visible (snd (run_state (process_get demo_os demo_conf (demo_buffer ''GET'' ''/../x'') (demo_request ''GET'' ''/../x'') 4) []))
     = error_events 4 HTTP_FORBIDDEN"
proof -
  have "route_url ''/../x'' = Reject HTTP_FORBIDDEN" by code_simp
  from rejected_url_answered [OF demo_url_ok [where m = "''GET''"] this demo_os_simps(1), where sc = demo_conf and clientfd = 4 and w = "[]"] show ?thesis by simp
qed

text \<open>
  missing and forbidden files. When the file cannot be opened because it does not exist, GET
  answers 404; when a symbolic link or the permissions forbid it, 403; nothing else is sent.
\<close>
theorem process_get_missing_file:
  assumes "url_ok buff r u" and "route_url u = ServeFile p" and "all_sent os"
    and "\<forall>w. os_openat2 os w (root_fd sc) (tl p) = (fd, err)" and "fd < 0" and "err \<in> {ENOENT, EACCES, ELOOP}"
  shows "fst (run_state (process_get os sc buff r clientfd) w) = (0, cut_query r u)
    \<and> visible (snd (run_state (process_get os sc buff r clientfd) w)) =
      visible w @ OpenAt (root_fd sc) (tl p) fd # error_events clientfd (if err = ENOENT then HTTP_NOT_FOUND else HTTP_FORBIDDEN)"
proof -
  have "p = file_path u" using assms(2) by (auto simp: route_url_def split: if_splits)
  then have p: "NUL \<notin> set p" "p \<noteq> []"
    using assms(1) file_path_NUL file_path_nonempty by (auto simp: url_ok_def)
  have o: "os_openat2 os w (root_fd sc) (tl p) = (fd, err)" for w using assms(4) by simp
  show ?thesis
    by (simp add: process_get_spec [OF assms(1)] Let_def get_spec_missing [OF assms(3,2) p o assms(5,6)])
qed

theorem process_get_missing_file_witness:
  "visible (snd (run_state (process_get demo_os demo_conf (demo_buffer ''GET'' ''/none'') (demo_request ''GET'' ''/none'') 4) []))
     = OpenAt 6 ''none'' (-1) # error_events 4 HTTP_NOT_FOUND"
proof -
  have r: "route_url ''/none'' = ServeFile ''/none''" by code_simp
  from process_get_missing_file [OF demo_url_ok r demo_os_simps(1), of demo_conf "-1" ENOENT "''GET''" 4 "[]"] show ?thesis by simp
qed

text \<open>
  C26: scripts. When the script exists and the client takes everything, \<^verbatim>\<open>process_script\<close> either
  returns -1 without sending anything, or returns 0 after sending the head, with the length of
  the output as its length, followed by the output: exactly the bytes read from the script's pipe, which are fewer
  than the buffer holds. Of the descriptors it opens, the script's own is left open, and no other.
\<close>
theorem process_script_answers:
  assumes "all_sent os" and "NUL \<notin> set p" and "p \<noteq> []" and "\<forall>w. fst (os_openat2 os w (root_fd sc) (tl p)) = fd" and "0 \<le> fd"
    and "dated (os_time os w)" and "NUL \<notin> set (server_signature sc)"
    and "\<forall>k < MAX_BUFFR. length (script_text sc (os_time os w) k) < MAX_BUFFR"
  shows "(let (ret, w') = run_state (process_script os sc args n (p @ [NUL]) clientfd) w in
     (ret = -1 \<and> sent clientfd w' = sent clientfd w
      \<or> (\<exists>out. ret = 0 \<and> piped w' = piped w @ out \<and> length out < MAX_BUFFR
           \<and> sent clientfd w' = sent clientfd w @ script_text sc (os_time os w) (length out) @ out))
     \<and> opened_fds w' + closed_fds w = add_mset fd (closed_fds w' + opened_fds w))"
  using assms by (intro process_script_outcome) simp_all

lemma show_int_4: "k < 10000 \<Longrightarrow> length (show_int (int k)) \<le> 4"
proof -
  have d: "n < 10 \<Longrightarrow> length (show_nat n) = 1" "10 \<le> n \<Longrightarrow> length (show_nat n) = Suc (length (show_nat (n div 10)))" for n
    by (simp_all add: show_nat.simps [of n])
  assume "k < 10000"
  then have "k div 10 div 10 div 10 < 10" by simp
  then show ?thesis
    using d [of k] d [of "k div 10"] d [of "k div 10 div 10"] d [of "k div 10 div 10 div 10"]
    by (cases "k < 10"; cases "k div 10 < 10"; cases "k div 10 div 10 < 10") (auto simp: show_int_def)
qed

lemma demo_script_text: "k < MAX_BUFFR \<Longrightarrow> length (script_text demo_conf 86400 k) < MAX_BUFFR"
proof -
  assume "k < MAX_BUFFR"
  then have "length (show_int (int k)) \<le> 4" by (intro show_int_4) (simp add: MAX_BUFFR_def)
  moreover have "length (http_date (gmtime 86400)) = 29" by (rule http_date_length) simp_all
  ultimately show ?thesis
    by (simp add: script_text_def script_headers_def response_text_def status_line_def header_line_def demo_conf_def
        show_int_def [of 200] show_nat.simps status_text_def MAX_BUFFR_def)
qed

theorem process_script_answers_witness:
  "(let (ret, w') = run_state (process_script demo_os demo_conf [] 0 (''/s.py'' @ [NUL]) 4) [] in
     (ret = -1 \<and> sent 4 w' = [] \<or> (\<exists>out. ret = 0 \<and> piped w' = out \<and> length out < MAX_BUFFR \<and> sent 4 w' = script_text demo_conf 86400 (length out) @ out))
     \<and> opened_fds w' = add_mset 8 (closed_fds w'))"
  using process_script_answers [of demo_os "''/s.py''" demo_conf 8 "[]" "[]" 0 4] demo_script_text
  by (simp add: split_beta Let_def)

text \<open>
  C27: pipes do not leak. On every path through the execution of a script (a pipe or the fork
  fails, the script is cut off for its output, the script ends) each end of each pipe that was
  created is closed exactly once, and nothing else is closed.
\<close>
theorem script_pipes_balanced:
  "balanced w (snd (run_state (run_script os script_args args_len path full_path) w))"
  by (rule run_script_balanced)

text \<open>
  methods that are not implemented. A request whose method is not GET, POST or OPTIONS is
  answered 405 and nothing else happens.
\<close>
theorem unknown_method_answered:
  assumes "request_method_type (drop (the (rq_method r)) buff) (nat (rq_method_size r)) = HTTP_METHOD_UNKNOWN" and "all_sent os"
  shows "fst (run_state (http_process_request os sc buff r clientfd) w) = (0, r)
    \<and> visible (snd (run_state (http_process_request os sc buff r clientfd) w)) = visible w @ error_events clientfd HTTP_NOT_ALLOWED"
  using assms by (simp add: http_process_request_def)

theorem unknown_method_answered_witness:
  "visible (snd (run_state (http_process_request demo_os demo_conf (demo_buffer ''PUT'' ''/'') (demo_request ''PUT'' ''/'') 4) []))
     = error_events 4 HTTP_NOT_ALLOWED"
  using unknown_method_answered [of "demo_request ''PUT'' ''/''" "demo_buffer ''PUT'' ''/''" demo_os demo_conf 4 "[]"]
  by (simp add: demo_request_def demo_buffer_def request_method_type_def)

text \<open>
  OPTIONS is answered with one message, status 204 with the supported methods and an empty
  body, whatever the target is; the message fits the buffer, so the error branch is never taken.
\<close>
theorem options_answered:
  assumes "request_method_type (drop (the (rq_method r)) buff) (nat (rq_method_size r)) = HTTP_METHOD_OPTIONS" and "all_sent os"
  shows "fst (run_state (http_process_request os sc buff r clientfd) w) = (0, r)
    \<and> visible (snd (run_state (http_process_request os sc buff r clientfd) w)) = visible w @ [send_event clientfd options_text]
    \<and> length options_text < MAX_BUFFR"
  using assms run_process_options [OF assms(2)] options_text_ok by (simp add: http_process_request_def)

theorem options_answered_witness:
  "sent 4 (visible (snd (run_state (http_process_request demo_os demo_conf (demo_buffer ''OPTIONS'' ''*'') (demo_request ''OPTIONS'' ''*'') 4) [])))
     = ''HTTP/1.0 204 No Content'' @ [CR, LF] @ ''Allow: GET, POST, OPTIONS'' @ [CR, LF] @ ''Content-Length: 0'' @ [CR, LF, CR, LF]"
proof -
  have "options_text = ''HTTP/1.0 204 No Content'' @ [CR, LF] @ ''Allow: GET, POST, OPTIONS'' @ [CR, LF] @ ''Content-Length: 0'' @ [CR, LF, CR, LF]"
    by code_simp
  then show ?thesis
    using options_answered [of "demo_request ''OPTIONS'' ''*''" "demo_buffer ''OPTIONS'' ''*''" demo_os demo_conf 4 "[]"]
    by (simp add: demo_request_def demo_buffer_def request_method_type_def)
qed

text \<open>
  an interrupted transfer leaks its descriptor. When \<^verbatim>\<open>sendfile\<close> stops before the end of the
  file (a slow client on a non-blocking socket is enough), \<^verbatim>\<open>send_file\<close> returns -1 and the file
  stays open: it was opened once and nothing was closed.
\<close>
theorem send_file_leaks:
  assumes "NUL \<notin> set p" and "p \<noteq> []" and "file_at os root (tl p) fd st_size mtime" and "0 < st_size"
    and "\<forall>w off k. os_sendfile os w clientfd fd off k \<le> 0"
  shows "fst (run_state (send_file os root (p @ [NUL]) clientfd) w) = -1
    \<and> opened_fds (snd (run_state (send_file os root (p @ [NUL]) clientfd) w)) = add_mset fd (opened_fds w)
    \<and> closed_fds (snd (run_state (send_file os root (p @ [NUL]) clientfd) w)) = closed_fds w"
  using assms
  by (simp add: send_file_def run_open_safe split_beta file_at_def sys_fstat_def send_file_loop.simps [of os clientfd fd st_size 0]
      Let_def event_opens_def event_closes_def)

theorem send_file_leaks_witness:
  "fst (run_state (send_file (demo_os\<lparr>os_sendfile := \<lambda>w c fd off n. -1\<rparr>) 6 (''/index.html'' @ [NUL]) 4) []) = -1
    \<and> opened_fds (snd (run_state (send_file (demo_os\<lparr>os_sendfile := \<lambda>w c fd off n. -1\<rparr>) 6 (''/index.html'' @ [NUL]) 4) [])) = {#7#}
    \<and> closed_fds (snd (run_state (send_file (demo_os\<lparr>os_sendfile := \<lambda>w c fd off n. -1\<rparr>) 6 (''/index.html'' @ [NUL]) 4) [])) = {#}"
  using send_file_leaks [of "''/index.html''" "demo_os\<lparr>os_sendfile := \<lambda>w c fd off n. -1\<rparr>" 6 7 10 0 4 "[]"]
  by (simp add: file_at_def demo_os_def)

text \<open>
  POST to a target that is not a script is not answered. The handler logs that a response
  was sent and returns 0, but the client receives nothing, and no file is opened.
\<close>
theorem post_plain_target_silent:
  assumes "url_ok buff r u" and "route_url u = ServeFile p"
  shows "fst (run_state (process_post os sc buff r clientfd) w) = (0, cut_query r u)
    \<and> visible (snd (run_state (process_post os sc buff r clientfd) w)) = visible w"
  using assms(2) by (simp add: process_post_spec [OF assms(1)] Let_def post_spec_def)

theorem post_plain_target_silent_witness:
  "visible (snd (run_state (process_post demo_os demo_conf (demo_buffer ''POST'' ''/index.html'') (demo_request ''POST'' ''/index.html'') 4) [])) = []"
proof -
  have "route_url ''/index.html'' = ServeFile ''/index.html''" by code_simp
  from post_plain_target_silent [OF demo_url_ok [where m = "''POST''"] this, of demo_os demo_conf 4 "[]"] show ?thesis by simp
qed

lemma get_file_info_first:
  "\<exists>fd es. snd (run_state (get_file_info os root path b) v) = v @ OpenAt root (cstr (drop 1 path)) fd # es"
  by (auto simp: get_file_info_def open_safe_def sys_openat2_def split_beta sys_fstat_def sys_close_def split: option.split)

lemma first_event_bind:
  "snd (run_state m w) = v @ e # es \<Longrightarrow> (\<And>x. traces (\<lambda>_. True) (f x)) \<Longrightarrow> \<exists>es. snd (run_state (State_Monad.bind m f) w) = v @ e # es"
  unfolding traces_def by (metis append.assoc append_Cons run_bind)

lemma later_event_bind:
  "run_state m w = (x, w') \<Longrightarrow> \<exists>es. snd (run_state (f x) w') = v @ e # es \<Longrightarrow> \<exists>es. snd (run_state (State_Monad.bind m f) w) = v @ e # es"
  by simp

text \<open>
  a target that is only a query opens stale memory. For a URL that starts with a question
  mark the path is empty and the name passed to \<^verbatim>\<open>openat2\<close> is taken from behind its terminator:
  whatever string the uninitialised array holds there is opened.
\<close>
theorem query_only_opens_stale_name:
  assumes "url_mem buff r = CHR ''?'' # q @ rest" and "rq_url_size r = int (Suc (length q))" and "\<not> suspicious (CHR ''?'' # q)"
    and "os_stack os w = x # name @ [NUL]" and "NUL \<notin> set name" and "length name < 130"
  shows "\<exists>fd es. snd (run_state (process_get os sc buff r clientfd) w) =
     snd (run_state (get_client_ip_port os clientfd) w) @ OpenAt (root_fd sc) name fd # es"
proof -
  define A where "A = fst (run_state (stack_array os MAX_PATH) w)"
  define v where "v = snd (run_state (get_client_ip_port os clientfd) w)"
  obtain k where k: "MAX_PATH = Suc (length name + Suc k)" using assms(6) by (auto simp: MAX_PATH_def dest!: less_imp_Suc_add)
  have A: "cstr (drop (Suc 0) A) = name"
    using cstr_append_NUL [OF assms(5), of "take k (replicate MAX_PATH NUL)"] by (simp add: A_def stack_array_def assms(4) k)
  have l: "length (CHR ''?'' # q) \<le> length (url_mem buff r)" and t: "take (length (CHR ''?'' # q)) (url_mem buff r) = CHR ''?'' # q"
    by (simp_all add: assms(1))
  have c: "\<not> check_path_traversal (url_mem buff r) (Suc (length q))"
    using check_path_traversal_take [OF l] assms(3) t by simp
  have s: "snd (snd (split_query (url_mem buff r) (Suc (length q)))) = 0"
    using split_query_take [OF l] t by (simp add: path_part_def)
  have b: "build_path (url_mem buff r) 0 A = (0, NUL # drop (Suc 0) A)"
    by (simp add: build_path_def)
  have m: "\<not> is_script (get_mime_type (cstr (NUL # drop (Suc 0) A)))" by (simp add: get_mime_type_def strrchr_def is_script_def cstr_def)
  obtain fd es where g: "snd (run_state (get_file_info os (root_fd sc) (NUL # drop (Suc 0) A) True) v) = v @ OpenAt (root_fd sc) name fd # es"
    using get_file_info_first [of os "root_fd sc" "NUL # drop (Suc 0) A" True v] A by auto
  have n: "nat (rq_url_size r) = Suc (length q)" using assms(2) by simp
  have tr: "traces (\<lambda>_. True) (respond_file os sc p ip now n mt clientfd)" for p ip now n mt
    by (rule traces_respond_file) (simp_all add: client_events_def)
  have "run_state (stack_array os MAX_PATH) w = (A, w)" "run_state (sys_time os) w = (os_time os w, w)"
    "run_state (get_client_ip_port os clientfd) w = (fst (run_state (get_client_ip_port os clientfd) w), v)"
    by (simp_all add: A_def v_def prod_eq_iff)
  then have "\<exists>es. snd (run_state (process_get os sc buff r clientfd) w) = v @ OpenAt (root_fd sc) name fd # es"
    unfolding process_get_def Let_def
    by (elim later_event_bind) (simp add: n c s b m split_beta del: run_bind,
        rule first_event_bind [OF g], intro tracing tr, simp_all)
  then show ?thesis by (auto simp: v_def)
qed

theorem query_only_opens_stale_name_witness:
  "\<exists>fd es. snd (run_state (process_get (demo_os\<lparr>os_stack := \<lambda>w. ''x../etc'' @ [NUL]\<rparr>) demo_conf (demo_buffer ''GET'' ''?a'')
     (demo_request ''GET'' ''?a'') 4) []) = OpenAt 6 ''../etc'' fd # es"
proof -
  have s: "\<not> suspicious ''?a''" by code_simp
  have "snd (run_state (get_client_ip_port (demo_os\<lparr>os_stack := \<lambda>w. ''x../etc'' @ [NUL]\<rparr>) 4) []) = []"
    by (simp add: get_client_ip_port_def stack_array_def sys_getpeername_def demo_os_def)
  then show ?thesis
    using query_only_opens_stale_name [of "demo_buffer ''GET'' ''?a''" "demo_request ''GET'' ''?a''" "''a''" "'' HTTP/1.0'' @ [CR, LF, CR, LF]"
        "demo_os\<lparr>os_stack := \<lambda>w. ''x../etc'' @ [NUL]\<rparr>" "[]" "CHR ''x''" "''../etc''" demo_conf 4] s
    by (simp add: demo_buffer_def demo_request_def url_mem_def)
qed

end
