(* ===== verification/MessageProperties.thy ===== *)
theory MessageProperties
  imports HttpHandlers PicoRoundtrip
begin

text \<open>
  Properties of the pure part of \<^verbatim>\<open>srclib/http.c\<close>: reading a head from a connection, the limits of
  the request structure, lengths, dates and the texts of responses.
\<close>

section \<open>Reading a head\<close>

text \<open>
  piecewise reading. If a byte sequence contains a complete request head, a reader that calls
  \<^verbatim>\<open>http_parse_request\<close> on what it has received, with the previous length as \<^verbatim>\<open>last_len\<close>, after
  every piece of any partition, waits until the head is complete and then accepts it with the
  length it has in the whole sequence; it never rejects it and never waits longer.
\<close>
theorem head_read_in_pieces:
  assumes "head_verdict b 0 = PRet e" and "concat ds = b"
  shows "\<exists>n. http_head.read_pieces [] ds = (take n b, PRet e) \<and> e \<le> n \<and> n \<le> length b"
  using http_head.read_pieces_complete [OF assms(1), of "[]" ds] http_head.consumed [OF assms(1)] assms(2) by simp

lemma printed_head: "wf_request m u minor [] \<Longrightarrow> head_verdict (print_request m u minor []) 0 = PRet (length (print_request m u minor []))"
proof -
  assume "wf_request m u minor []"
  moreover have "o_num_headers (parser_out zero_request) \<le> length (o_headers (parser_out zero_request))"
    using parser_out_headers [OF request_inv_zero] by simp
  ultimately show ?thesis
    using parse_request_run [of m u minor "[]" "(parser_out zero_request)\<lparr>o_method := None, o_method_len := 0, o_path := None,
        o_path_len := 0, o_minor_version := -1, o_num_headers := 0\<rparr>" "o_num_headers (parser_out zero_request)" "[]"]
    by (simp add: head_verdict_eq phr_parse_request_0)
qed

theorem head_read_in_pieces_witness:
  "\<exists>n. http_head.read_pieces [] [''GE'', ''T / HTT'', ''P/1.0'' @ [CR], [LF, CR, LF]] =
     (take n (print_request ''GET'' ''/'' (CHR ''0'') []), PRet 18) \<and> 18 \<le> n"
proof -
  have "wf_request ''GET'' ''/'' (CHR ''0'') []" by code_simp
  from printed_head [OF this] have v: "head_verdict (print_request ''GET'' ''/'' (CHR ''0'') []) 0 = PRet 18"
    by (simp add: print_request_def)
  from head_read_in_pieces [OF v, of "[''GE'', ''T / HTT'', ''P/1.0'' @ [CR], [LF, CR, LF]]"] show ?thesis
    by (auto simp: print_request_def)
qed

text \<open>
  C40: the padding of the structure matters. \<^verbatim>\<open>num_headers\<close> is an \<^verbatim>\<open>int\<close> handed over as a
  \<^verbatim>\<open>size_t *\<close>: if the four bytes behind it are not zero, as in the structure on the stack of a
  worker, the parser is told of at least \<^verbatim>\<open>2^32\<close> elements, and a well-formed request with more
  headers than the array has elements makes it write outside the array.
\<close>
theorem dirty_padding_overflows:
  assumes "rq_num_headers_pad r \<noteq> 0" and "length (rq_headers r) = MAX_HEADERS"
    and "wf_request m u minor hs" and "MAX_HEADERS < length hs" and "length hs < 2 ^ 32"
  shows "snd (http_parse_request (print_request m u minor hs) r (length (print_request m u minor hs)) 0) = PFault"
proof -
  have "unat (rq_num_headers_pad r) \<noteq> 0" using assms(1) by (simp add: unat_eq_0)
  then have "2 ^ 32 * 1 \<le> 2 ^ 32 * unat (rq_num_headers_pad r)" by (intro mult_le_mono2) simp
  then have n: "length hs \<le> o_num_headers (parser_out r)" using assms(5) by (simp add: request_out_def join32_def)
  have "snd (parse_request (print_request m u minor hs) 0 ((parser_out r)\<lparr>o_method := None, o_method_len := 0, o_path := None,
        o_path_len := 0, o_minor_version := -1, o_num_headers := 0\<rparr>) (o_num_headers (parser_out r))) = PFault"
    using assms by (intro parse_request_overrun [OF assms(3) _ _ n]) (simp_all add: request_out_def)
  then show ?thesis by (simp add: http_parse_request_snd phr_parse_request_0)
qed

theorem dirty_padding_overflows_witness:
  "snd (http_parse_request (print_request ''GET'' ''/'' (CHR ''0'') (replicate 51 (''A'', ''b'')))
     (zero_request\<lparr>rq_num_headers_pad := 1\<rparr>) (length (print_request ''GET'' ''/'' (CHR ''0'') (replicate 51 (''A'', ''b'')))) 0) = PFault"
proof -
  have "wf_header (''A'', ''b'')" "wf_request ''GET'' ''/'' (CHR ''0'') []" by code_simp+
  then have "wf_request ''GET'' ''/'' (CHR ''0'') (replicate 51 (''A'', ''b''))" by (simp add: wf_request_def)
  then show ?thesis
    by (intro dirty_padding_overflows) (simp_all add: zero_request_def http_limits)
qed

section \<open>Lengths\<close>

text \<open>
  C34: the body length. If a header called exactly \<^verbatim>\<open>Content-Length\<close> is the first of its name and
  its value is the decimal text of an \<^verbatim>\<open>int\<close> of at most fifteen characters, then
  \<^verbatim>\<open>http_get_content_length\<close> returns that number.
\<close>
theorem content_length_read:
  assumes "rq_headers r = hs @ h # rest" and "int (length hs) < rq_num_headers r"
    and "\<forall>x \<in> set hs. \<not> (h_name_len x = 14 \<and> bslice buff (the (h_name x)) 14 = ''Content-Length'')"
    and "h_name_len h = 14" and "bslice buff (the (h_name h)) 14 = ''Content-Length''"
    and "bslice buff (the (h_value h)) (h_value_len h) = show_int n" and "h_value_len h < MAX_HEADER_VALUE_LEN"
    and "- (2 ^ 31) \<le> n" and "n < 2 ^ 31"
  shows "http_get_content_length buff r = n"
proof -
  have skip: "content_length_loop buff (xs @ h # rest) (length xs + Suc k) = content_length_loop buff (h # rest) (Suc k)"
    if "\<forall>x \<in> set xs. \<not> (h_name_len x = 14 \<and> bslice buff (the (h_name x)) 14 = ''Content-Length'')" for xs k
    using that by (induction xs) auto
  have v: "atoi (cstr (show_int n)) = n"
    using atoi_show_int [OF assms(8,9)] cstr_id [OF show_int_NUL] by simp
  obtain k where "nat (rq_num_headers r) = length hs + Suc k"
    using assms(2) by (metis nat_int less_nat_zero_code zless_nat_conj less_imp_Suc_add add_Suc_right zless_nat_eq_int_zless)
  then show ?thesis
    using skip [OF assms(3), of k] assms(4-7) v by (simp add: http_get_content_length_def assms(1) Let_def)
qed

theorem content_length_read_witness:
  "http_get_content_length (''Content-Length: 42'') (zero_request\<lparr>rq_num_headers := 1,
     rq_headers := [\<lparr>h_name = Some 0, h_name_len = 14, h_value = Some 16, h_value_len = 2\<rparr>]\<rparr>) = 42"
proof -
  have "show_int 42 = ''42''" by code_simp
  then show ?thesis
    by (intro content_length_read [where hs = "[]" and rest = "[]"
          and h = "\<lparr>h_name = Some 0, h_name_len = 14, h_value = Some 16, h_value_len = 2\<rparr>"])
       (simp_all add: bslice_def http_limits)
qed

text \<open>
  C35: the traversal check rejects exactly the URLs that contain two consecutive dots, two
  consecutive slashes, or a backslash that is not the last character.
\<close>
theorem check_path_traversal_exact:
  "check_path_traversal url (length url) \<longleftrightarrow>
     CHR 0x5C \<in> set (butlast url) \<or> (\<exists>p s. url = p @ ''..'' @ s) \<or> (\<exists>p s. url = p @ ''//'' @ s)"
  by (rule check_path_traversal_iff)

section \<open>Texts\<close>

text \<open>
  serialisation. \<^verbatim>\<open>serialize_response\<close> either fills the buffer with the status line, the
  headers in the order they were added and the empty line, leaving room for the terminator, or
  fails; it fails exactly when that text and its terminator do not fit.
\<close>
theorem serialize_response_exact:
  "serialize_response res buffer_size =
     (if length (response_text res) < buffer_size then Some (response_text res) else None)"
  by (rule serialize_response_eq)

text \<open>
  error pages fit. For every status the texts \<^verbatim>\<open>http_send_error\<close> formats are shorter than the
  arrays \<^verbatim>\<open>body\<close> (512) and \<^verbatim>\<open>headers\<close> (256), so nothing is cut and no byte beyond them is sent; the
  length the head announces is, read back with \<^verbatim>\<open>atoi\<close>, the length of the body.
\<close>
theorem error_pages_fit:
  "length (error_body code) < 512 \<and> length (error_head code (length (error_body code))) < 256
     \<and> atoi (show_int (int (length (error_body code)))) = int (length (error_body code))"
proof -
  have b: "length (error_body code) < 512" "length (error_head code (length (error_body code))) < 256"
    by (cases code; simp add: error_body_def error_head_def Let_def show_int_def show_nat.simps status_text_def)+
  moreover have "atoi (show_int (int (length (error_body code)))) = int (length (error_body code))"
    using b(1) by (intro atoi_show_int) simp_all
  ultimately show ?thesis by simp
qed

text \<open>
  dates. From 1970 to the end of 9999 the date of a response has the 29 characters of the
  fixed HTTP format, so it fits the array of 64 bytes and \<^verbatim>\<open>strftime\<close> does not fail.
\<close>
theorem response_date_fits:
  assumes "0 \<le> t" and "t < 253402300800"
  shows "length (http_date (gmtime t)) = 29 \<and> strftime_http MAX_HEADER_CONTENT (gmtime t) = Some (http_date (gmtime t))"
  using http_date_length [OF assms] assms strftime_dated [of t] by (simp add: dated_def)

theorem response_date_fits_witness:
  "length (http_date (gmtime 784111777)) = 29 \<and> http_date (gmtime 784111777) = ''Sun, 06 Nov 1994 08:49:37 GMT''"
proof
  show "length (http_date (gmtime 784111777)) = 29" using response_date_fits [of 784111777] by simp
  show "http_date (gmtime 784111777) = ''Sun, 06 Nov 1994 08:49:37 GMT''" by code_simp
qed

text \<open>
  the calendar loses nothing. The fields the dates are printed from determine the time they
  were computed from.
\<close>
theorem calendar_roundtrip: "timegm (gmtime t) = t"
  by (rule timegm_gmtime)

end
