(* ===== verification/EpollServer.thy ===== *)
theory EpollServer
  imports HttpHandlers
begin

text \<open>
  The event loop of \<^verbatim>\<open>src/server.c\<close> (\<^verbatim>\<open>USE_EPOLL\<close>): the list of client structures, what one ready
  descriptor causes, and the loop over batches of ready descriptors. Messages to the terminal
  are left out.
\<close>

unbundle bit_operations_syntax

section \<open>Descriptors and events\<close>

abbreviation (input) O_NONBLOCK :: int where "O_NONBLOCK \<equiv> 0x800"

definition set_non_blocking :: "os \<Rightarrow> int \<Rightarrow> int io" where
  "set_non_blocking os fd = do {
     flags \<leftarrow> sys_getfl os fd;
     if flags = -1 then return (-1)
     else do {
       ret \<leftarrow> sys_setfl os fd (flags OR O_NONBLOCK);
       return (if ret = -1 then -1 else 0)
     }
   }"

text \<open>The array of events is only allocated; \<open>calloc_ok\<close> says whether that succeeds.\<close>

definition initialize_events :: "bool \<Rightarrow> int" where
  "initialize_events calloc_ok = (if calloc_ok then 0 else -1)"

section \<open>Clients\<close>

datatype client_state = CLIENT_READING_HEADERS | CLIENT_READING_BODY | CLIENT_SENDING_RESPONSE

record client_data =
  cd_fd :: int
  cd_state :: client_state
  cd_rq :: bytes
  cd_rq_size :: int
  cd_http_rq :: http_request
  cd_last_len :: int
  cd_body_len :: int
  cd_header_len :: int

text \<open>The linked list from its head: the address of each structure with its contents.\<close>

type_synonym client_list = "(nat \<times> client_data) list"

fun remove_client :: "client_list \<Rightarrow> nat \<Rightarrow> client_list" where
  "remove_client [] client = []"
| "remove_client ((a, cd) # clients) client = (if a = client then clients else (a, cd) # remove_client clients client)"

definition add_client :: "client_list \<Rightarrow> nat \<Rightarrow> client_data \<Rightarrow> client_list" where
  "add_client clients a cd = (a, cd) # clients"

text \<open>
  Whether the walk comes to an end. The head \<^verbatim>\<open>active_clients\<close> is never initialised, so behind the oldest structure the
  list goes on with whatever the stack held: \<open>os_active_null\<close> says whether that is NULL. Nothing else walks past
  the oldest structure, \<^verbatim>\<open>remove_client\<close> being only called with one that is in the list.
\<close>

fun free_clients :: "os \<Rightarrow> client_list \<Rightarrow> bool io" where
  "free_clients os [] = return (os_active_null os)"
| "free_clients os ((a, cd) # clients) = do { _ \<leftarrow> sys_close os (cd_fd cd); free_clients os clients }"

text \<open>A structure fresh from \<^verbatim>\<open>calloc\<close> with its descriptor and state set.\<close>

definition new_client :: "int \<Rightarrow> client_data" where
  "new_client clientfd = \<lparr>cd_fd = clientfd, cd_state = CLIENT_READING_HEADERS, cd_rq = replicate MAX_BUFFR NUL,
     cd_rq_size = 0, cd_http_rq = zero_request, cd_last_len = 0, cd_body_len = 0, cd_header_len = 0\<rparr>"

section \<open>A ready client\<close>

definition wrap32 :: "int \<Rightarrow> int" where
  "wrap32 n = sint (word_of_int n :: 32 word)"

text \<open>\<open>data\<close> stored in the array at offset \<open>i\<close>.\<close>

definition store_at :: "bytes \<Rightarrow> nat \<Rightarrow> bytes \<Rightarrow> bytes" where
  "store_at arr i data = take i arr @ data @ drop (i + length data) arr"

text \<open>
  What the code decides after bytes were read: keep the structure and wait, close, or call
  \<^verbatim>\<open>http_process_request\<close> and close; \<open>Overflow\<close> is an access outside the structure.
\<close>

datatype verdict = Wait | Drop | Process | Overflow

text \<open>The branch \<^verbatim>\<open>CLIENT_READING_HEADERS\<close>, after \<open>data\<close> was received into the buffer.\<close>

definition read_headers :: "client_data \<Rightarrow> bytes \<Rightarrow> client_data \<times> verdict" where
  "read_headers cd data =
     (let cd = cd\<lparr>cd_rq := store_at (cd_rq cd) (nat (cd_rq_size cd)) data, cd_last_len := cd_rq_size cd,
                  cd_rq_size := cd_rq_size cd + int (length data)\<rparr>;
          p = http_parse_request (cd_rq cd) (cd_http_rq cd) (nat (cd_rq_size cd)) (nat (cd_last_len cd));
          cd = cd\<lparr>cd_http_rq := fst p\<rparr>
      in case snd p of
           PBad \<Rightarrow> (cd, Drop)
         | PPartial \<Rightarrow> (cd, if int MAX_BUFFR \<le> cd_rq_size cd then Drop else Wait)
         | PFault \<Rightarrow> (cd, Overflow)
         | PRet _ \<Rightarrow>
            (let cd = cd\<lparr>cd_body_len := http_get_content_length (cd_rq cd) (cd_http_rq cd)\<rparr> in
             if int MAX_BUFFR \<le> wrap32 (cd_body_len cd + cd_rq_size cd) then (cd, Drop)
             else if cd_body_len cd = 0 then (cd, Process)
             else (cd\<lparr>cd_state := CLIENT_READING_BODY\<rparr>, Wait)))"

text \<open>
  The branch \<^verbatim>\<open>CLIENT_READING_BODY\<close>: the size is advanced once before the test and once more when
  the body is taken to be incomplete; the body is said to begin at \<^verbatim>\<open>rq + rq_size\<close>, and
  \<^verbatim>\<open>header_len\<close> has never been set.
\<close>

definition read_body :: "client_data \<Rightarrow> bytes \<Rightarrow> client_data \<times> verdict" where
  "read_body cd data =
     (let cd = cd\<lparr>cd_rq := store_at (cd_rq cd) (nat (cd_rq_size cd)) data,
                  cd_rq_size := cd_rq_size cd + int (length data)\<rparr>
      in if cd_body_len cd \<le> wrap32 (cd_rq_size cd - cd_body_len cd) then
           (cd\<lparr>cd_http_rq := http_add_body (cd_http_rq cd) (nat (cd_rq_size cd)) (cd_rq_size cd - cd_header_len cd)\<rparr>, Process)
         else (cd\<lparr>cd_rq_size := cd_rq_size cd + int (length data)\<rparr>, Wait))"

definition on_data :: "client_data \<Rightarrow> bytes \<Rightarrow> client_data \<times> verdict" where
  "on_data cd data = (case cd_state cd of
     CLIENT_READING_HEADERS \<Rightarrow> read_headers cd data
   | CLIENT_READING_BODY \<Rightarrow> read_body cd data
   | CLIENT_SENDING_RESPONSE \<Rightarrow> (cd, Wait))"

definition drop_client :: "os \<Rightarrow> int \<Rightarrow> unit io" where
  "drop_client os clientfd = do { _ \<leftarrow> sys_close os clientfd; sys_epoll_del os clientfd }"

datatype client_result = Kept client_data | Removed | Corrupted

text \<open>
  One ready client. \<^verbatim>\<open>recv\<close> is told to store at \<^verbatim>\<open>rq + rq_size\<close> and is given \<^verbatim>\<open>MAX_BUFFR - rq_size\<close> as an unsigned
  number; \<open>Corrupted\<close> is the outcome when bytes it received went outside the array \<^verbatim>\<open>rq\<close>.
\<close>

definition client_ready :: "os \<Rightarrow> server_conf \<Rightarrow> client_data \<Rightarrow> client_result io" where
  "client_ready os sc cd = do {
     r \<leftarrow> tcp_recv os (cd_fd cd) (recv_len (int MAX_BUFFR - cd_rq_size cd));
     (case r of
        Inl err \<Rightarrow> if err \<noteq> EAGAIN then do { _ \<leftarrow> drop_client os (cd_fd cd); return Removed } else return (Kept cd)
      | Inr data \<Rightarrow>
         if data = [] then do { _ \<leftarrow> drop_client os (cd_fd cd); return Removed }
         else if int MAX_BUFFR < cd_rq_size cd + int (length data) then return Corrupted
         else (let (cd, v) = on_data cd data in case v of
                 Wait \<Rightarrow> return (Kept cd)
               | Drop \<Rightarrow> do { _ \<leftarrow> drop_client os (cd_fd cd); return Removed }
               | Overflow \<Rightarrow> return Corrupted
               | Process \<Rightarrow> do {
                   _ \<leftarrow> http_process_request os sc (cd_rq cd) (cd_http_rq cd) (cd_fd cd);
                   _ \<leftarrow> (if cd_state cd = CLIENT_READING_HEADERS
                        then do { _ \<leftarrow> sys_epoll_del os (cd_fd cd); _ \<leftarrow> sys_close os (cd_fd cd); return () }
                        else drop_client os (cd_fd cd));
                   return Removed
                 }))
   }"

section \<open>The server\<close>

text \<open>
  One entry of the array \<^verbatim>\<open>events\<close>: the listening socket (with the address \<^verbatim>\<open>calloc\<close> gives the new
  structure, \<open>None\<close> for NULL) or the structure of a client.
\<close>

datatype ready = NewConnection "nat option" | ClientIO nat

datatype status = Running client_list | Exited int | Crashed

definition accept_client :: "os \<Rightarrow> int \<Rightarrow> int \<Rightarrow> nat option \<Rightarrow> client_list \<Rightarrow> status io" where
  "accept_client os sockfd epollfd addr clients = do {
     (connfd, ret) \<leftarrow> tcp_accept_connection os False sockfd;
     if ret \<noteq> 0 then do { _ \<leftarrow> sys_close os epollfd; return (Exited (-1)) }
     else do {
       let clientfd = the connfd;
       _ \<leftarrow> set_non_blocking os clientfd;
       (case addr of
          None \<Rightarrow> return Crashed
        | Some a \<Rightarrow> do {
            let clients = add_client clients a (new_client clientfd);
            ok \<leftarrow> sys_epoll_add os clientfd;
            if ok then return (Running clients)
            else do {
              _ \<leftarrow> sys_close os epollfd;
              ended \<leftarrow> free_clients os clients;
              return (if ended then Exited (-1) else Crashed)
            }
          })
     }
   }"

fun update_client :: "client_list \<Rightarrow> nat \<Rightarrow> client_data \<Rightarrow> client_list" where
  "update_client [] a cd = []"
| "update_client ((b, x) # clients) a cd = (if b = a then (b, cd) # clients else (b, x) # update_client clients a cd)"

definition handle_event :: "os \<Rightarrow> server_conf \<Rightarrow> int \<Rightarrow> int \<Rightarrow> ready \<Rightarrow> client_list \<Rightarrow> status io" where
  "handle_event os sc sockfd epollfd e clients = (case e of
     NewConnection addr \<Rightarrow> accept_client os sockfd epollfd addr clients
   | ClientIO a \<Rightarrow> (case map_of clients a of
        None \<Rightarrow> return Crashed
      | Some cd \<Rightarrow> do {
          r \<leftarrow> client_ready os sc cd;
          return (case r of
             Kept cd \<Rightarrow> Running (update_client clients a cd)
           | Removed \<Rightarrow> Running (remove_client clients a)
           | Corrupted \<Rightarrow> Crashed)
        }))"

fun handle_batch :: "os \<Rightarrow> server_conf \<Rightarrow> int \<Rightarrow> int \<Rightarrow> ready list \<Rightarrow> client_list \<Rightarrow> status io" where
  "handle_batch os sc sockfd epollfd [] clients = return (Running clients)"
| "handle_batch os sc sockfd epollfd (e # es) clients = do {
     s \<leftarrow> handle_event os sc sockfd epollfd e clients;
     (case s of Running clients \<Rightarrow> handle_batch os sc sockfd epollfd es clients | _ \<Rightarrow> return s)
   }"

text \<open>
  The loop: one element per call of \<^verbatim>\<open>epoll_wait\<close>, which fails (\<open>Inl\<close>, with the value of
  \<^verbatim>\<open>sigint\<close>) or returns a batch.
\<close>

fun epoll_loop :: "os \<Rightarrow> server_conf \<Rightarrow> int \<Rightarrow> int \<Rightarrow> (bool + ready list) list \<Rightarrow> client_list \<Rightarrow> status io" where
  "epoll_loop os sc sockfd epollfd [] clients = return (Running clients)"
| "epoll_loop os sc sockfd epollfd (Inl sigint # bs) clients = do {
     _ \<leftarrow> sys_close os epollfd;
     return (Exited (if sigint then 0 else -1))
   }"
| "epoll_loop os sc sockfd epollfd (Inr batch # bs) clients = do {
     s \<leftarrow> handle_batch os sc sockfd epollfd batch clients;
     (case s of Running clients \<Rightarrow> epoll_loop os sc sockfd epollfd bs clients | _ \<Rightarrow> return s)
   }"

definition epoll_server :: "os \<Rightarrow> server_conf \<Rightarrow> bool \<Rightarrow> (bool + ready list) list \<Rightarrow> status io" where
  "epoll_server os sc calloc_ok waits = do {
     (fd, _) \<leftarrow> tcp_start_connection os False (listen_port sc) 16;
     let sockfd = the fd;
     ret \<leftarrow> set_non_blocking os sockfd;
     if ret \<noteq> 0 then return (Exited (-1))
     else if initialize_events calloc_ok \<noteq> 0 then return (Exited (-1))
     else do {
       epollfd \<leftarrow> sys_epoll_create os;
       if epollfd = -1 then return (Exited (-1))
       else do {
         ok \<leftarrow> sys_epoll_add os sockfd;
         if \<not> ok then do { _ \<leftarrow> sys_close os epollfd; return (Exited (-1)) }
         else epoll_loop os sc sockfd epollfd waits []
       }
     }
   }"

text \<open>The calls of \<^verbatim>\<open>fcntl\<close> leave nothing in the history.\<close>

lemma run_set_non_blocking [simp]: "snd (run_state (set_non_blocking os fd) w) = w"
  by (simp add: set_non_blocking_def sys_getfl_def sys_setfl_def)

lemma traces_set_non_blocking [tracing]: "traces P (set_non_blocking os fd)"
  by (simp add: traces_def)

end
