(* ===== verification/EpollProps.thy ===== *)
theory EpollProps
  imports EpollServer
begin

text \<open>
  The event loop: the buffer of a client while its head is read, the independence of the way
  the head arrives, the list of clients, and the end of a connection.
\<close>

section \<open>The buffer while the head is read\<close>

text \<open>What a client structure has received so far.\<close>

definition received_bytes :: "client_data \<Rightarrow> bytes" where
  "received_bytes cd = take (nat (cd_rq_size cd)) (cd_rq cd)"

definition client_ok :: "client_data \<Rightarrow> bool" where
  "client_ok cd \<longleftrightarrow> length (cd_rq cd) = MAX_BUFFR \<and> request_inv (cd_http_rq cd) \<and> 0 \<le> cd_rq_size cd
     \<and> (cd_state cd = CLIENT_READING_HEADERS \<longrightarrow> cd_rq_size cd < int MAX_BUFFR \<and> rq_body_size (cd_http_rq cd) = 0)"

lemma new_client_ok: "client_ok (new_client fd)"
  by (simp add: client_ok_def new_client_def request_inv_zero http_limits) (simp add: zero_request_def)

lemma received_new [simp]: "received_bytes (new_client fd) = []"
  by (simp add: received_bytes_def new_client_def)

lemma length_store_at [simp]: "i + length data \<le> length arr \<Longrightarrow> length (store_at arr i data) = length arr"
  by (simp add: store_at_def)

lemma take_store_at: "i + length data \<le> length arr \<Longrightarrow> take (i + length data) (store_at arr i data) = take i arr @ data"
  by (simp add: store_at_def)

text \<open>The parse the header branch performs.\<close>

definition head_parse :: "client_data \<Rightarrow> bytes \<Rightarrow> http_request \<times> nat pres" where
  "head_parse cd data = http_parse_request (store_at (cd_rq cd) (nat (cd_rq_size cd)) data) (cd_http_rq cd)
     (nat (cd_rq_size cd) + length data) (nat (cd_rq_size cd))"

lemma read_headers_eq:
  assumes "0 \<le> cd_rq_size cd"
  shows "read_headers cd data =
    (let p = head_parse cd data;
         cd = cd\<lparr>cd_rq := store_at (cd_rq cd) (nat (cd_rq_size cd)) data, cd_last_len := cd_rq_size cd,
                 cd_rq_size := cd_rq_size cd + int (length data), cd_http_rq := fst p\<rparr>
     in case snd p of
          PBad \<Rightarrow> (cd, Drop)
        | PPartial \<Rightarrow> (cd, if int MAX_BUFFR \<le> cd_rq_size cd then Drop else Wait)
        | PFault \<Rightarrow> (cd, Overflow)
        | PRet _ \<Rightarrow>
           (let cd = cd\<lparr>cd_body_len := http_get_content_length (cd_rq cd) (cd_http_rq cd)\<rparr> in
            if int MAX_BUFFR \<le> wrap32 (cd_body_len cd + cd_rq_size cd) then (cd, Drop)
            else if cd_body_len cd = 0 then (cd, Process)
            else (cd\<lparr>cd_state := CLIENT_READING_BODY\<rparr>, Wait)))"
  using assms by (simp add: read_headers_def head_parse_def Let_def nat_add_distrib cong: pres.case_cong)

lemma head_parse_ok:
  assumes "client_ok cd" and "nat (cd_rq_size cd) + length data \<le> MAX_BUFFR"
  shows "request_inv (fst (head_parse cd data))" and "snd (head_parse cd data) \<noteq> PFault"
proof -
  have r: "request_inv (cd_http_rq cd)" using assms(1) by (simp add: client_ok_def)
  then show "request_inv (fst (head_parse cd data))" unfolding head_parse_def by (rule http_parse_request_inv)
  show "snd (head_parse cd data) \<noteq> PFault"
    unfolding head_parse_def using r by (rule http_parse_request_no_fault) (insert assms, simp_all add: client_ok_def)
qed

text \<open>While the head is read nothing outside the structure is touched, and the invariant is kept.\<close>

lemma read_headers_safe:
  assumes ok: "client_ok cd" and st: "cd_state cd = CLIENT_READING_HEADERS"
    and len: "nat (cd_rq_size cd) + length data \<le> MAX_BUFFR"
  shows "snd (read_headers cd data) \<noteq> Overflow"
    and "client_ok (fst (read_headers cd data)) \<or> snd (read_headers cd data) \<noteq> Wait"
    and "cd_fd (fst (read_headers cd data)) = cd_fd cd"
  using ok st len head_parse_ok [OF ok len] http_parse_request_body
  by (auto simp: read_headers_eq head_parse_def Let_def client_ok_def split: pres.splits)

text \<open>A request that is processed at the end of its head lies in the buffer.\<close>

lemma read_headers_inside:
  assumes ok: "client_ok cd" and st: "cd_state cd = CLIENT_READING_HEADERS"
    and len: "nat (cd_rq_size cd) + length data \<le> MAX_BUFFR" and v: "snd (read_headers cd data) = Process"
  shows "request_inside (cd_rq (fst (read_headers cd data))) (cd_http_rq (fst (read_headers cd data)))"
proof -
  let ?b = "store_at (cd_rq cd) (nat (cd_rq_size cd)) data" and ?n = "nat (cd_rq_size cd) + length data"
  have z: "0 \<le> cd_rq_size cd" "length (cd_rq cd) = MAX_BUFFR" "rq_body_size (cd_http_rq cd) = 0" using ok st by (simp_all add: client_ok_def)
  obtain e where e: "snd (head_parse cd data) = PRet e"
    using v z(1) by (cases "snd (head_parse cd data)") (auto simp: read_headers_eq Let_def split: if_splits)
  then have p: "http_parse_request ?b (cd_http_rq cd) ?n (nat (cd_rq_size cd)) = (fst (head_parse cd data), PRet e)"
    by (metis head_parse_def prod.collapse)
  have r: "cd_rq (fst (read_headers cd data)) = ?b" "cd_http_rq (fst (read_headers cd data)) = fst (head_parse cd data)"
    using z(1) e by (simp_all add: read_headers_eq Let_def)
  have "length ?b = MAX_BUFFR" using z(2) len by simp
  moreover have "?n < 2 ^ 31" using len by (simp add: MAX_BUFFR_def)
  ultimately show ?thesis
    unfolding r using z(3) len http_parse_request_body [of ?b "cd_http_rq cd"] by (intro parsed_inside [OF p]) (simp_all add: head_parse_def)
qed

section \<open>The way the head arrives does not matter\<close>

text \<open>Pieces handed to the client one after the other, until the code decides.\<close>

fun feed :: "client_data \<Rightarrow> bytes list \<Rightarrow> client_data \<times> verdict" where
  "feed cd [] = (cd, Wait)"
| "feed cd (d # ds) = (case on_data cd d of (cd, v) \<Rightarrow> if v = Wait then feed cd ds else (cd, v))"

text \<open>A client whose buffer holds exactly \<open>b\<close>, still reading the head.\<close>

definition holds :: "int \<Rightarrow> bytes \<Rightarrow> client_data \<Rightarrow> bool" where
  "holds fd b cd \<longleftrightarrow> cd_fd cd = fd \<and> cd_state cd = CLIENT_READING_HEADERS \<and> cd_rq_size cd = int (length b)
     \<and> cd_rq cd = b @ replicate (MAX_BUFFR - length b) NUL \<and> length b < MAX_BUFFR \<and> request_inv (cd_http_rq cd)"

lemma holds_new: "holds fd [] (new_client fd)"
  by (simp add: holds_def new_client_def request_inv_zero http_limits)

text \<open>The fields of a request that a successful parse defines.\<close>

definition same_request :: "http_request \<Rightarrow> http_request \<Rightarrow> bool" where
  "same_request r s \<longleftrightarrow> rq_method r = rq_method s \<and> rq_method_size r = rq_method_size s \<and> rq_url r = rq_url s
     \<and> rq_url_size r = rq_url_size s \<and> rq_version r = rq_version s \<and> rq_num_headers r = rq_num_headers s
     \<and> take (nat (rq_num_headers r)) (rq_headers r) = take (nat (rq_num_headers s)) (rq_headers s)"

lemma same_request_store:
  assumes "agree a d" and "o_num_headers a < 2 ^ 31"
  shows "same_request (request_store r a) (request_store s d)"
  using assms lo32_small [of "o_num_headers a"] by (auto simp: agree_def same_request_def request_store_def)

lemma content_length_loop_take: "content_length_loop buff hs n = content_length_loop buff (take n hs) n"
  by (induction buff hs n rule: content_length_loop.induct) simp_all

lemma same_request_content_length: "same_request r s \<Longrightarrow> http_get_content_length buff r = http_get_content_length buff s"
  unfolding http_get_content_length_def same_request_def
  by (metis content_length_loop_take)

lemma head_parse_holds:
  assumes "holds fd b cd" and "length b + length d \<le> MAX_BUFFR"
  shows "head_parse cd d = http_parse_request (b @ d @ replicate (MAX_BUFFR - length b - length d) NUL)
      (cd_http_rq cd) (length b + length d) (length b)"
  using assms by (simp add: head_parse_def holds_def store_at_def)

text \<open>The structures a server parses into all accept the same requests.\<close>

lemma parser_out_agree:
  assumes "request_inv r" and "phr_parse_request b (parser_out zero_request) 0 = (out0, PRet e)"
  obtains out where "phr_parse_request b (parser_out r) 0 = (out, PRet e)" "agree out out0"
proof -
  have "rel2 agree (phr_parse_request b (parser_out r) 0) (phr_parse_request b (parser_out zero_request) 0)"
    using parser_out_headers [OF assms(1)] parser_out_headers [OF request_inv_zero] by (intro phr_parse_request_agree) simp_all
  with assms(2) have "snd (phr_parse_request b (parser_out r) 0) = PRet e" "agree (fst (phr_parse_request b (parser_out r) 0)) out0"
    by (simp_all add: rel2_def)
  then show thesis using that [of "fst (phr_parse_request b (parser_out r) 0)"] by (metis prod.collapse)
qed

lemma parser_out_cap: "request_inv r \<Longrightarrow> o_num_headers (parser_out r) \<le> length (o_headers (parser_out r))"
  using parser_out_headers by simp

lemma read_headers_incomplete:
  assumes h: "holds fd b cd" and full: "phr_parse_request (b @ d @ rest) (parser_out zero_request) 0 = (out0, PRet e)"
    and e: "length (b @ d) < e" and m: "length (b @ d @ rest) \<le> MAX_BUFFR"
  shows "\<exists>cd'. read_headers cd d = (cd', Wait) \<and> holds fd (b @ d) cd'"
proof -
  have r: "request_inv (cd_http_rq cd)" using h by (simp add: holds_def)
  obtain out where o: "phr_parse_request (b @ d @ rest) (parser_out (cd_http_rq cd)) 0 = (out, PRet e)"
    using parser_out_agree [OF r full] by blast
  have "e \<le> length (b @ d @ rest)" using phr_parse_request_consumed [of "b @ d @ rest" "parser_out (cd_http_rq cd)" e] o by simp
  with e m have lt: "length (b @ d) < MAX_BUFFR" by simp
  note hp = head_parse_holds [OF h, of d]
  have "snd (phr_parse_request (take (length (b @ d)) (b @ d @ rest)) (parser_out (cd_http_rq cd)) (length b)) = PPartial"
    by (rule phr_parse_request_partial [OF o e _ parser_out_cap [OF r]]) simp
  then have p: "snd (head_parse cd d) = PPartial"
    using lt by (simp add: hp http_parse_request_snd)
  have "request_inv (fst (head_parse cd d))" using lt r by (simp add: hp http_parse_request_inv)
  with p lt h show ?thesis
    by (auto simp: read_headers_eq holds_def store_at_def)
qed

lemma read_headers_complete:
  assumes h: "holds fd b cd" and full: "phr_parse_request (b @ d) (parser_out zero_request) 0 = (out0, PRet e)"
    and e: "length b < e" and m: "length (b @ d) \<le> MAX_BUFFR"
  shows "\<exists>r. head_parse cd d = (r, PRet e) \<and> same_request r (fst (http_parse_request (b @ d) zero_request (length (b @ d)) 0))"
proof -
  have r: "request_inv (cd_http_rq cd)" using h by (simp add: holds_def)
  obtain out where o: "phr_parse_request (b @ d) (parser_out (cd_http_rq cd)) 0 = (out, PRet e)" and a: "agree out out0"
    using parser_out_agree [OF r full] by blast
  have "snd (phr_parse_request (take (length b) (b @ d)) (parser_out (cd_http_rq cd)) 0) = PPartial"
    by (rule phr_parse_request_partial [OF o e _ parser_out_cap [OF r]]) simp
  then have "phr_parse_request (b @ d) (parser_out (cd_http_rq cd)) (length b) = (out, PRet e)"
    using phr_parse_request_resume [of "length b" "b @ d" "parser_out (cd_http_rq cd)" out e] o by simp
  moreover have "array_kept (parser_out (cd_http_rq cd)) out"
    using phr_parse_request_fst [of "parser_out (cd_http_rq cd)" "b @ d" 0] by (simp only: o fst_conv)
  then have "o_num_headers out \<le> MAX_HEADERS" using parser_out_headers [OF r] by (simp add: array_kept_def)
  then have "o_num_headers out < 2 ^ 31" by (simp add: MAX_HEADERS_def)
  ultimately show ?thesis
    using m full same_request_store [OF a] by (simp add: head_parse_holds [OF h] http_parse_request_def Let_def)
qed

text \<open>All at once: the decision on \<open>b\<close> as a function of the parsed request.\<close>

definition head_decision :: "bytes \<Rightarrow> http_request \<Rightarrow> verdict" where
  "head_decision b r =
     (let body_len = http_get_content_length (b @ replicate (MAX_BUFFR - length b) NUL) r in
      if int MAX_BUFFR \<le> wrap32 (body_len + int (length b)) then Drop
      else if body_len = 0 then Process else Wait)"

lemma feed_decision:
  assumes full: "snd (http_parse_request b zero_request (length b) 0) = PRet e" and m: "length b \<le> MAX_BUFFR"
  shows "holds fd p cd \<Longrightarrow> b = p @ concat (ds @ [d]) \<Longrightarrow> length (p @ concat ds) < e \<Longrightarrow>
    \<exists>cd'. feed cd (ds @ [d]) = (cd', head_decision b (cd_http_rq cd'))
      \<and> same_request (cd_http_rq cd') (fst (http_parse_request b zero_request (length b) 0))
      \<and> cd_rq cd' = b @ replicate (MAX_BUFFR - length b) NUL"
proof (induction ds arbitrary: p cd)
  case Nil
  obtain out0 where o: "phr_parse_request b (parser_out zero_request) 0 = (out0, PRet e)"
    using full by (metis http_parse_request_snd order_refl prod.collapse take_all)
  have b: "b = p @ d" using Nil.prems(2) by simp
  have "length p < e" using Nil.prems(3) by simp
  from read_headers_complete [OF Nil.prems(1) o [unfolded b] this m [unfolded b]]
  obtain r where r: "head_parse cd d = (r, PRet e)" "same_request r (fst (http_parse_request b zero_request (length b) 0))"
    unfolding b by blast
  have st: "cd_state cd = CLIENT_READING_HEADERS" "cd_rq_size cd = int (length p)"
    and arr: "store_at (cd_rq cd) (length p) d = b @ replicate (MAX_BUFFR - length b) NUL"
    using Nil.prems(1) m b by (auto simp: holds_def store_at_def)
  have "int (length p) + int (length d) = int (length b)" by (simp add: b)
  then show ?case
    using r st arr by (auto simp: on_data_def read_headers_eq head_decision_def Let_def)
next
  case (Cons c ds)
  obtain out0 where o: "phr_parse_request b (parser_out zero_request) 0 = (out0, PRet e)"
    using full by (metis http_parse_request_snd order_refl prod.collapse take_all)
  have b: "b = p @ c @ (concat (ds @ [d]))" using Cons.prems(2) by simp
  have lt: "length (p @ c) < e" using Cons.prems(3) by simp
  from read_headers_incomplete [OF Cons.prems(1) o [unfolded b] lt m [unfolded b]]
  obtain cd' where cd': "read_headers cd c = (cd', Wait)" "holds fd (p @ c) cd'" by blast
  have "cd_state cd = CLIENT_READING_HEADERS" using Cons.prems(1) by (simp add: holds_def)
  with cd' Cons.IH [OF cd'(2)] Cons.prems(2,3) show ?case by (simp add: on_data_def)
qed

section \<open>The body phase\<close>

lemma wrap32_small: "- (2 ^ 31) \<le> n \<Longrightarrow> n < 2 ^ 31 \<Longrightarrow> wrap32 n = n"
  unfolding wrap32_def by (rule sint_in_range)

text \<open>The size is advanced twice by a piece that does not complete the body, past the end of the array.\<close>

lemma read_body_twice:
  assumes "0 \<le> cd_rq_size cd" "cd_rq_size cd + int (length d) < 2 * cd_body_len cd" "cd_body_len cd < 2 ^ 31"
  shows "snd (read_body cd d) = Wait" and "cd_rq_size (fst (read_body cd d)) = cd_rq_size cd + 2 * int (length d)"
    and "cd_state (fst (read_body cd d)) = cd_state cd"
proof -
  have "wrap32 (cd_rq_size cd + int (length d) - cd_body_len cd) < cd_body_len cd"
    using assms by (subst wrap32_small) auto
  then show "snd (read_body cd d) = Wait" "cd_rq_size (fst (read_body cd d)) = cd_rq_size cd + 2 * int (length d)"
    "cd_state (fst (read_body cd d)) = cd_state cd"
    by (simp_all add: read_body_def Let_def)
qed

text \<open>The pointer handed to the script is behind everything that was received.\<close>

lemma read_body_pointer:
  assumes "0 \<le> cd_rq_size cd" "snd (read_body cd d) = Process"
  shows "rq_body (cd_http_rq (fst (read_body cd d))) = Some (nat (cd_rq_size cd) + length d)"
  using assms by (auto simp: read_body_def Let_def http_add_body_def nat_add_distrib split: if_splits)

lemma read_body_ok:
  assumes "client_ok cd" "cd_state cd = CLIENT_READING_BODY" "nat (cd_rq_size cd) + length d \<le> MAX_BUFFR"
  shows "client_ok (fst (read_body cd d))" and "snd (read_body cd d) \<noteq> Overflow" and "cd_fd (fst (read_body cd d)) = cd_fd cd"
  using assms by (auto simp: client_ok_def read_body_def Let_def http_add_body_def request_inv_def)

lemma on_data_ok:
  assumes "client_ok cd" "nat (cd_rq_size cd) + length d \<le> MAX_BUFFR"
  shows "snd (on_data cd d) \<noteq> Overflow" and "snd (on_data cd d) = Wait \<Longrightarrow> client_ok (fst (on_data cd d))"
    and "cd_fd (fst (on_data cd d)) = cd_fd cd"
  using assms read_headers_safe [OF assms(1) _ assms(2)] read_body_ok [OF assms(1) _ assms(2)]
  by (auto simp: on_data_def split: client_state.split)

section \<open>One ready client\<close>

lemma traces_drop_client [tracing]: "P (Close fd) \<Longrightarrow> P (EpollDel fd) \<Longrightarrow> traces P (drop_client os fd)"
  unfolding drop_client_def by (intro tracing)

lemma run_drop_client [simp]: "run_state (drop_client os fd) w = ((), w @ [Close fd, EpollDel fd])"
  by (simp add: drop_client_def sys_close_def sys_epoll_del_def)

lemma recv_bound: "fst (run_state (tcp_recv os fd k) w) = Inr d \<Longrightarrow> length d \<le> k"
  by (auto simp: tcp_recv_def sys_recv_def split: sum.splits)

lemma recv_event: "\<exists>n. snd (run_state (tcp_recv os fd k) w) = w @ [Recv fd n]"
  by (auto simp: tcp_recv_def sys_recv_def split: sum.split)

lemma recv_len_room: "0 \<le> n \<Longrightarrow> n \<le> int MAX_BUFFR \<Longrightarrow> recv_len (int MAX_BUFFR - n) = MAX_BUFFR - nat n"
  by (subst recv_len_exact) (auto simp: MAX_BUFFR_def)

text \<open>The cases of a readiness, once \<^verbatim>\<open>recv\<close> has returned.\<close>

lemma client_ready_run:
  assumes "run_state (tcp_recv os (cd_fd cd) (recv_len (int MAX_BUFFR - cd_rq_size cd))) w = (r, v)"
  shows "run_state (client_ready os sc cd) w = (case r of
      Inl err \<Rightarrow> if err \<noteq> EAGAIN then (Removed, v @ [Close (cd_fd cd), EpollDel (cd_fd cd)]) else (Kept cd, v)
    | Inr d \<Rightarrow>
       if d = [] then (Removed, v @ [Close (cd_fd cd), EpollDel (cd_fd cd)])
       else if int MAX_BUFFR < cd_rq_size cd + int (length d) then (Corrupted, v)
       else (let x = fst (on_data cd d) in case snd (on_data cd d) of
           Wait \<Rightarrow> (Kept x, v)
         | Drop \<Rightarrow> (Removed, v @ [Close (cd_fd x), EpollDel (cd_fd x)])
         | Overflow \<Rightarrow> (Corrupted, v)
         | Process \<Rightarrow> (Removed, snd (run_state (http_process_request os sc (cd_rq x) (cd_http_rq x) (cd_fd x)) v) @
             (if cd_state x = CLIENT_READING_HEADERS then [EpollDel (cd_fd x), Close (cd_fd x)] else [Close (cd_fd x), EpollDel (cd_fd x)]))))"
  using assms by (simp add: client_ready_def split_beta Let_def sys_close_def sys_epoll_del_def split: sum.split verdict.split)

lemma client_ready_kept:
  assumes "client_ok cd" and "fst (run_state (client_ready os sc cd) w) = Kept cd'"
  shows "client_ok cd' \<and> cd_fd cd' = cd_fd cd \<and> (\<exists>n. snd (run_state (client_ready os sc cd) w) = w @ [Recv (cd_fd cd) n])"
proof -
  obtain r n where r: "run_state (tcp_recv os (cd_fd cd) (recv_len (int MAX_BUFFR - cd_rq_size cd))) w = (r, w @ [Recv (cd_fd cd) n])"
    using recv_event by (metis prod.collapse)
  have z: "0 \<le> cd_rq_size cd" using assms(1) by (simp add: client_ok_def)
  show ?thesis
    using assms(2) z assms(1) on_data_ok [OF assms(1)]
    by (auto simp: client_ready_run [OF r] Let_def split: if_splits sum.splits verdict.splits)
qed

lemma client_ready_corrupted:
  assumes "client_ok cd" and "fst (run_state (client_ready os sc cd) w) = Corrupted"
  shows "cd_state cd \<noteq> CLIENT_READING_HEADERS \<and> int MAX_BUFFR < cd_rq_size cd"
proof (rule ccontr)
  assume a: "\<not> ?thesis"
  have z: "0 \<le> cd_rq_size cd" "cd_rq_size cd \<le> int MAX_BUFFR" using assms(1) a by (auto simp: client_ok_def)
  obtain r v where r: "run_state (tcp_recv os (cd_fd cd) (recv_len (int MAX_BUFFR - cd_rq_size cd))) w = (r, v)" by fastforce
  have "nat (cd_rq_size cd) + length d \<le> MAX_BUFFR" if "r = Inr d" for d
    using recv_bound [of os "cd_fd cd" "recv_len (int MAX_BUFFR - cd_rq_size cd)" w d] r that z by (simp add: recv_len_room)
  with assms(2) z show False
    using on_data_ok(1) [OF assms(1)]
    by (force simp: client_ready_run [OF r] Let_def split: if_splits sum.splits verdict.splits)
qed

text \<open>A piece of the body that is counted twice: the next length \<^verbatim>\<open>recv\<close> is given has wrapped around.\<close>

lemma overrun_step:
  assumes st: "cd_state cd = CLIENT_READING_BODY" and z: "0 \<le> cd_rq_size cd" and lt: "cd_rq_size cd + int (length d) < 2 * cd_body_len cd"
    and bl: "cd_body_len cd < 2 ^ 31" and fits: "cd_rq_size cd + int (length d) \<le> int MAX_BUFFR"
    and over: "int MAX_BUFFR < cd_rq_size cd + 2 * int (length d)"
    and r: "os_recv os w (cd_fd cd) (MAX_BUFFR - nat (cd_rq_size cd)) = Inr d"
  shows "\<exists>cd'. run_state (client_ready os sc cd) w = (Kept cd', w @ [Recv (cd_fd cd) (int (length d))])
    \<and> int MAX_BUFFR < cd_rq_size cd' \<and> int (recv_len (int MAX_BUFFR - cd_rq_size cd')) = 2 ^ 64 - (cd_rq_size cd' - int MAX_BUFFR)
    \<and> (\<forall>v x. os_recv os v (cd_fd cd) (recv_len (int MAX_BUFFR - cd_rq_size cd')) = Inr x \<and> x \<noteq> [] \<longrightarrow>
          fst (run_state (client_ready os sc cd') v) = Corrupted)"
proof -
  let ?x = "fst (read_body cd d)"
  note t = read_body_twice [OF z lt bl]
  have fd: "cd_fd ?x = cd_fd cd" by (simp add: read_body_def Let_def)
  have "d \<noteq> []" using fits over by auto
  moreover have "length d \<le> MAX_BUFFR - nat (cd_rq_size cd)" using z fits by linarith
  then have "run_state (tcp_recv os (cd_fd cd) (recv_len (int MAX_BUFFR - cd_rq_size cd))) w = (Inr d, w @ [Recv (cd_fd cd) (int (length d))])"
    using z fits r by (simp add: recv_len_room tcp_recv_def sys_recv_def)
  ultimately have k: "run_state (client_ready os sc cd) w = (Kept ?x, w @ [Recv (cd_fd cd) (int (length d))])"
    using t(1) fits st by (simp add: client_ready_run on_data_def Let_def)
  have size: "int MAX_BUFFR < cd_rq_size ?x" "cd_rq_size ?x \<le> 2 * int MAX_BUFFR" using t(2) z fits over by simp_all
  have l: "int (recv_len (int MAX_BUFFR - cd_rq_size ?x)) = 2 ^ 64 - (cd_rq_size ?x - int MAX_BUFFR)"
    using size by (subst recv_len_wraps) (simp_all add: MAX_BUFFR_def)
  have "fst (run_state (client_ready os sc ?x) v) = Corrupted"
    if y: "os_recv os v (cd_fd cd) (recv_len (int MAX_BUFFR - cd_rq_size ?x)) = Inr y" "y \<noteq> []" for v y
  proof -
    have "recv_len (int MAX_BUFFR - cd_rq_size ?x) \<noteq> 0" using l size by (simp add: MAX_BUFFR_def)
    then have ne: "take (recv_len (int MAX_BUFFR - cd_rq_size ?x)) y \<noteq> []" using y(2) by simp
    obtain v' where "run_state (tcp_recv os (cd_fd ?x) (recv_len (int MAX_BUFFR - cd_rq_size ?x))) v = (Inr (take (recv_len (int MAX_BUFFR - cd_rq_size ?x)) y), v')"
      using y(1) fd by (simp add: tcp_recv_def sys_recv_def)
    from client_ready_run [OF this] ne size(1) show ?thesis by simp
  qed
  with k size(1) l show ?thesis by blast
qed

text \<open>While the head is read nothing behind the buffer is read either.\<close>

lemma client_ready_adds: "\<exists>es. snd (run_state (client_ready os sc cd) w) = w @ es"
proof -
  have "traces (\<lambda>_. True) (http_process_request os sc b r c)" for b r c
    by (rule traces_process_any) (simp_all add: client_events_def)
  then have "traces (\<lambda>_. True) (client_ready os sc cd)"
    unfolding client_ready_def tcp_recv_def Let_def by (intro tracing) (auto split: verdict.split intro!: tracing)
  then show ?thesis by (auto simp: traces_def)
qed

lemma client_ready_in_bounds:
  assumes ok: "client_ok cd" and st: "cd_state cd \<noteq> CLIENT_READING_BODY"
  shows "\<exists>es. snd (run_state (client_ready os sc cd) w) = w @ es \<and> list_all in_bounds es"
proof -
  obtain r n where r: "run_state (tcp_recv os (cd_fd cd) (recv_len (int MAX_BUFFR - cd_rq_size cd))) w = (r, w @ [Recv (cd_fd cd) n])"
    using recv_event by (metis prod.collapse)
  have b: "in_bounds (Recv x n)" "in_bounds (Close x)" "in_bounds (EpollDel x)" for x n by (simp_all add: in_bounds_def)
  show ?thesis
  proof (cases "\<exists>d. r = Inr d \<and> d \<noteq> [] \<and> \<not> int MAX_BUFFR < cd_rq_size cd + int (length d) \<and> snd (on_data cd d) = Process")
    case False
    then show ?thesis using b by (auto simp: client_ready_run [OF r] Let_def split: sum.split verdict.split)
  next
    case True
    then obtain d where d: "r = Inr d" "d \<noteq> []" "\<not> int MAX_BUFFR < cd_rq_size cd + int (length d)" "snd (on_data cd d) = Process" by blast
    let ?x = "fst (on_data cd d)"
    have h: "cd_state cd = CLIENT_READING_HEADERS" using d(4) st by (cases "cd_state cd") (simp_all add: on_data_def)
    have "0 \<le> cd_rq_size cd" using ok by (simp add: client_ok_def)
    with d(3) have "nat (cd_rq_size cd) + length d \<le> MAX_BUFFR" by linarith
    from read_headers_inside [OF ok h this] have "request_inside (cd_rq ?x) (cd_http_rq ?x)" using d(4) h by (simp add: on_data_def)
    then have "traces in_bounds (http_process_request os sc (cd_rq ?x) (cd_http_rq ?x) (cd_fd ?x))"
      by (intro traces_process_any) (simp_all add: in_bounds_client)
    then obtain es where "snd (run_state (http_process_request os sc (cd_rq ?x) (cd_http_rq ?x) (cd_fd ?x)) (w @ [Recv (cd_fd cd) n]))
        = (w @ [Recv (cd_fd cd) n]) @ es" "list_all in_bounds es" unfolding traces_def by blast
    with d b show ?thesis by (simp add: client_ready_run [OF r] Let_def)
  qed
qed

text \<open>Connections accepted and connections taken out of the interest list, with multiplicity.\<close>

definition event_accepts :: "event \<Rightarrow> int multiset" where
  "event_accepts e = (case e of Accept fd \<Rightarrow> if fd = -1 then {#} else {#fd#} | _ \<Rightarrow> {#})"

definition event_dels :: "event \<Rightarrow> int multiset" where
  "event_dels e = (case e of EpollDel fd \<Rightarrow> {#fd#} | _ \<Rightarrow> {#})"

definition accepted_fds :: "world \<Rightarrow> int multiset" where
  "accepted_fds w = \<Sum>\<^sub># (image_mset event_accepts (mset w))"

definition deleted_fds :: "world \<Rightarrow> int multiset" where
  "deleted_fds w = \<Sum>\<^sub># (image_mset event_dels (mset w))"

lemma counts_append [simp]:
  "accepted_fds (v @ w) = accepted_fds v + accepted_fds w" "deleted_fds (v @ w) = deleted_fds v + deleted_fds w"
  by (simp_all add: accepted_fds_def deleted_fds_def)

lemma counts_Cons [simp]:
  "accepted_fds (e # w) = event_accepts e + accepted_fds w" "deleted_fds (e # w) = event_dels e + deleted_fds w"
  by (simp_all add: accepted_fds_def deleted_fds_def)

lemma counts_Nil [simp]: "accepted_fds [] = {#}" "deleted_fds [] = {#}"
  by (simp_all add: accepted_fds_def deleted_fds_def)

lemma event_counts [simp]:
  "event_accepts (Recv a n) = {#}" "event_dels (Recv a n) = {#}" "event_accepts (Close a) = {#}" "event_dels (Close a) = {#}"
  "event_accepts (EpollDel a) = {#}" "event_dels (EpollDel a) = {#a#}" "event_accepts (EpollAdd a) = {#}" "event_dels (EpollAdd a) = {#}"
  "event_dels (Accept a) = {#}" "event_accepts (Accept a) = (if a = -1 then {#} else {#a#})"
  "event_closes (Recv a n) = {#}" "event_closes (Close a) = {#a#}" "event_closes (EpollDel a) = {#}"
  by (simp_all add: event_accepts_def event_dels_def event_closes_def)

text \<open>Processing a request neither accepts nor deregisters a connection.\<close>

lemma process_counts:
  "\<exists>es. snd (run_state (http_process_request os sc b r c) v) = v @ es \<and> accepted_fds es = {#} \<and> deleted_fds es = {#}"
proof -
  let ?P = "\<lambda>e. event_accepts e = {#} \<and> event_dels e = {#}"
  have "traces ?P (http_process_request os sc b r c)"
    by (rule traces_process_any) (simp_all add: client_events_def event_accepts_def event_dels_def)
  then obtain es where es: "snd (run_state (http_process_request os sc b r c) v) = v @ es" "list_all ?P es"
    by (auto simp: traces_def)
  from es(2) have "accepted_fds es = {#} \<and> deleted_fds es = {#}" by (induction es) auto
  with es(1) show ?thesis by blast
qed

lemma client_ready_removed:
  assumes "fst (run_state (client_ready os sc cd) w) = Removed" and ok: "client_ok cd"
  shows "\<exists>es. snd (run_state (client_ready os sc cd) w) = w @ es \<and> accepted_fds es = {#} \<and> deleted_fds es = {#cd_fd cd#}
    \<and> cd_fd cd \<in># closed_fds es"
proof -
  obtain r n where r: "run_state (tcp_recv os (cd_fd cd) (recv_len (int MAX_BUFFR - cd_rq_size cd))) w = (r, w @ [Recv (cd_fd cd) n])"
    using recv_event by (metis prod.collapse)
  have z: "0 \<le> cd_rq_size cd" using ok by (simp add: client_ok_def)
  show ?thesis
  proof (cases r)
    case (Inl err)
    with assms(1) show ?thesis by (auto simp: client_ready_run [OF r] split: if_splits)
  next
    case (Inr d)
    let ?x = "fst (on_data cd d)"
    obtain es where es: "snd (run_state (http_process_request os sc (cd_rq ?x) (cd_http_rq ?x) (cd_fd cd)) (w @ [Recv (cd_fd cd) n]))
        = (w @ [Recv (cd_fd cd) n]) @ es" "accepted_fds es = {#}" "deleted_fds es = {#}" using process_counts by blast
    have "cd_fd ?x = cd_fd cd" if "\<not> int MAX_BUFFR < cd_rq_size cd + int (length d)"
      using that z by (intro on_data_ok(3) [OF ok]) simp
    with Inr assms(1) es show ?thesis
      by (auto simp: client_ready_run [OF r] Let_def split: if_splits verdict.splits)
  qed
qed

section \<open>The list of clients\<close>

definition server_ok :: "client_list \<Rightarrow> bool" where
  "server_ok clients \<longleftrightarrow> distinct (map fst clients) \<and> (\<forall>(a, cd) \<in> set clients. client_ok cd)"

lemma remove_client_filter: "distinct (map fst clients) \<Longrightarrow> remove_client clients a = filter (\<lambda>p. fst p \<noteq> a) clients"
proof (induction clients a rule: remove_client.induct)
  case (2 b cd clients a)
  then show ?case by (force intro!: filter_True [symmetric])
qed simp

lemma update_client_fst: "map fst (update_client clients a cd) = map fst clients"
  by (induction clients a cd rule: update_client.induct) simp_all

lemma update_client_set: "set (update_client clients a cd) \<subseteq> insert (a, cd) (set clients)"
  by (induction clients a cd rule: update_client.induct) auto

lemma server_ok_remove: "server_ok clients \<Longrightarrow> server_ok (remove_client clients a)"
  by (auto simp: server_ok_def remove_client_filter distinct_map_filter)

lemma server_ok_update: "server_ok clients \<Longrightarrow> client_ok cd \<Longrightarrow> server_ok (update_client clients a cd)"
  using update_client_set [of clients a cd] by (auto simp: server_ok_def update_client_fst)

lemma server_ok_lookup: "server_ok clients \<Longrightarrow> map_of clients a = Some cd \<Longrightarrow> client_ok cd"
  by (auto simp: server_ok_def dest!: map_of_SomeD)

text \<open>Memory from \<^verbatim>\<open>calloc\<close> does not overlap a live structure.\<close>

definition fresh :: "ready \<Rightarrow> client_list \<Rightarrow> bool" where
  "fresh e clients = (case e of NewConnection (Some a) \<Rightarrow> a \<notin> fst ` set clients | _ \<Rightarrow> True)"

lemma handle_event_ok:
  assumes "server_ok clients" "fresh e clients" "fst (run_state (handle_event os sc sockfd epollfd e clients) w) = Running clients'"
  shows "server_ok clients'"
proof (cases e)
  case (NewConnection addr)
  with assms show ?thesis
    by (auto simp: handle_event_def accept_client_def add_client_def fresh_def server_ok_def new_client_ok split_beta Let_def
        split: if_splits option.splits)
next
  case (ClientIO a)
  with assms show ?thesis
    by (auto simp: handle_event_def split: option.splits client_result.splits
        intro: server_ok_remove server_ok_update dest: client_ready_kept server_ok_lookup)
qed

text \<open>\<^verbatim>\<open>epoll_ctl\<close> refuses the connection that is accepted next.\<close>

definition add_refused :: "os \<Rightarrow> int \<Rightarrow> world \<Rightarrow> bool" where
  "add_refused os sockfd w \<longleftrightarrow> (let fd = os_accept os w sockfd in \<not> os_epoll_add os (w @ [Accept fd]) fd)"

lemma run_free_clients: "run_state (free_clients os clients) w = (os_active_null os, w @ map (\<lambda>p. Close (cd_fd (snd p))) clients)"
  by (induction os clients arbitrary: w rule: free_clients.induct) (simp_all add: sys_close_def)

lemma handle_event_crash:
  assumes "server_ok clients" "fst (run_state (handle_event os sc sockfd epollfd e clients) w) = Crashed"
  shows "(\<exists>addr. e = NewConnection addr \<and> (addr = None \<or> add_refused os sockfd w \<and> \<not> os_active_null os))
    \<or> (\<exists>a. e = ClientIO a \<and> (map_of clients a = None
      \<or> (\<exists>cd. map_of clients a = Some cd \<and> cd_state cd \<noteq> CLIENT_READING_HEADERS \<and> int MAX_BUFFR < cd_rq_size cd)))"
proof (cases e)
  case (NewConnection addr)
  with assms show ?thesis
    by (auto simp: handle_event_def accept_client_def split_beta Let_def add_refused_def tcp_accept_connection_def sys_accept_def
        sys_epoll_add_def run_free_clients split: if_splits option.splits)
next
  case (ClientIO a)
  with assms show ?thesis
    by (auto simp: handle_event_def split: option.splits client_result.splits dest: client_ready_corrupted server_ok_lookup)
qed

lemma accept_client_in_bounds: "traces in_bounds (accept_client os sockfd epollfd addr clients)"
proof -
  have "traces in_bounds (free_clients os cs)" for cs by (auto simp: traces_def run_free_clients in_bounds_def list_all_iff)
  then show ?thesis
    unfolding accept_client_def tcp_accept_connection_def Let_def
    by (intro tracing) (auto intro!: tracing simp: in_bounds_def split: option.split)
qed

lemma handle_event_in_bounds:
  assumes "server_ok clients"
  shows "\<exists>es. snd (run_state (handle_event os sc sockfd epollfd e clients) w) = w @ es
    \<and> (list_all in_bounds es \<or> (\<exists>a cd. e = ClientIO a \<and> map_of clients a = Some cd \<and> cd_state cd = CLIENT_READING_BODY))"
proof (cases e)
  case (NewConnection addr)
  with accept_client_in_bounds [of os sockfd epollfd addr clients] show ?thesis by (auto simp: handle_event_def traces_def)
next
  case (ClientIO a)
  show ?thesis
  proof (cases "map_of clients a")
    case None
    with ClientIO show ?thesis by (simp add: handle_event_def)
  next
    case (Some cd)
    have s: "snd (run_state (handle_event os sc sockfd epollfd e clients) w) = snd (run_state (client_ready os sc cd) w)"
      by (simp add: handle_event_def ClientIO Some)
    show ?thesis
    proof (cases "cd_state cd = CLIENT_READING_BODY")
      case True
      have "\<exists>es. snd (run_state (client_ready os sc cd) w) = w @ es" using client_ready_adds by blast
      with True ClientIO Some s show ?thesis by auto
    next
      case False
      with client_ready_in_bounds [OF server_ok_lookup [OF assms Some] False, of os sc w] s show ?thesis by auto
    qed
  qed
qed

section \<open>Reachable states of the event loop\<close>

text \<open>The client list and the history after any number of events that the loop survived.\<close>

inductive serving :: "os \<Rightarrow> server_conf \<Rightarrow> int \<Rightarrow> int \<Rightarrow> client_list \<Rightarrow> world \<Rightarrow> bool"
  for os sc sockfd epollfd where
  start: "accepted_fds w = {#} \<Longrightarrow> deleted_fds w = {#} \<Longrightarrow> serving os sc sockfd epollfd [] w"
| event: "serving os sc sockfd epollfd clients w \<Longrightarrow> fresh e clients \<Longrightarrow>
    run_state (handle_event os sc sockfd epollfd e clients) w = (Running clients', w') \<Longrightarrow>
    serving os sc sockfd epollfd clients' w'"

definition client_fds :: "client_list \<Rightarrow> int multiset" where
  "client_fds clients = mset (map (\<lambda>p. cd_fd (snd p)) clients)"

lemma client_fds_remove:
  "map_of clients a = Some cd \<Longrightarrow> client_fds clients = add_mset (cd_fd cd) (client_fds (remove_client clients a))"
  by (induction clients a rule: remove_client.induct) (auto simp: client_fds_def)

lemma client_fds_update:
  "map_of clients a = Some cd \<Longrightarrow> cd_fd cd' = cd_fd cd \<Longrightarrow> client_fds (update_client clients a cd') = client_fds clients"
  by (induction clients a cd' rule: update_client.induct) (auto simp: client_fds_def)

text \<open>Every connection accepted so far is held by exactly one structure or has been deregistered.\<close>

definition accounted :: "client_list \<Rightarrow> world \<Rightarrow> bool" where
  "accounted clients w \<longleftrightarrow> accepted_fds w = client_fds clients + deleted_fds w \<and> deleted_fds w \<subseteq># closed_fds w"

lemma accept_client_run:
  assumes "run_state (accept_client os sockfd epollfd addr clients) w = (Running clients', w')"
  shows "\<exists>a fd. addr = Some a \<and> fd \<noteq> -1 \<and> clients' = add_client clients a (new_client fd) \<and> w' = w @ [Accept fd, EpollAdd fd]"
proof (cases "os_accept os w sockfd = -1")
  case True
  with assms show ?thesis by (simp add: accept_client_def tcp_accept_connection_def sys_accept_def sys_close_def)
next
  case False
  with assms show ?thesis
    by (auto simp: accept_client_def tcp_accept_connection_def sys_accept_def sys_epoll_add_def sys_close_def Let_def
        split: option.splits if_splits)
qed

lemma accounted_accept:
  assumes "accounted clients w" "run_state (accept_client os sockfd epollfd addr clients) w = (Running clients', w')"
  shows "accounted clients' w'"
  using assms(1) accept_client_run [OF assms(2)]
  by (auto simp: accounted_def add_client_def client_fds_def new_client_def event_closes_def)

lemma accounted_client:
  assumes ac: "accounted clients w" and ok: "server_ok clients"
    and run: "run_state (handle_event os sc sockfd epollfd (ClientIO a) clients) w = (Running clients', w')"
  shows "accounted clients' w'"
proof -
  obtain cd where cd: "map_of clients a = Some cd" using run by (cases "map_of clients a") (auto simp: handle_event_def)
  note cok = server_ok_lookup [OF ok cd]
  define r where "r = fst (run_state (client_ready os sc cd) w)"
  have w': "w' = snd (run_state (client_ready os sc cd) w)"
    and c': "(case r of Kept cd \<Rightarrow> Running (update_client clients a cd) | Removed \<Rightarrow> Running (remove_client clients a) | Corrupted \<Rightarrow> Crashed) = Running clients'"
    using run by (auto simp: handle_event_def cd r_def)
  show ?thesis
  proof (cases r)
    case (Kept x)
    then have k: "cd_fd x = cd_fd cd" "\<exists>n. w' = w @ [Recv (cd_fd cd) n]"
      using client_ready_kept [OF cok, of os sc w x] by (simp_all add: r_def w')
    with Kept c' ac client_fds_update [OF cd k(1)] show ?thesis by (auto simp: accounted_def)
  next
    case Removed
    then obtain es where es: "w' = w @ es" "accepted_fds es = {#}" "deleted_fds es = {#cd_fd cd#}" "cd_fd cd \<in># closed_fds es"
      using client_ready_removed [OF _ cok, of os sc w] by (auto simp: r_def w')
    have "deleted_fds w + {#cd_fd cd#} \<subseteq># closed_fds w + closed_fds es"
      using ac es(4) by (intro subset_mset.add_mono) (simp_all add: accounted_def mset_subset_eq_single)
    with Removed c' ac es client_fds_remove [OF cd] show ?thesis by (auto simp: accounted_def)
  next
    case Corrupted
    with c' show ?thesis by simp
  qed
qed

lemma serving_inv: "serving os sc sockfd epollfd clients w \<Longrightarrow> server_ok clients \<and> accounted clients w"
proof (induction rule: serving.induct)
  case (start w)
  then show ?case by (simp add: server_ok_def accounted_def client_fds_def)
next
  case (event clients w e clients' w')
  have ok: "server_ok clients'" using handle_event_ok [of clients e os sc sockfd epollfd w clients'] event by simp
  moreover have "accounted clients' w'"
  proof (cases e)
    case (NewConnection addr)
    with event show ?thesis by (auto simp: handle_event_def intro: accounted_accept)
  next
    case (ClientIO a)
    with event show ?thesis by (auto intro: accounted_client)
  qed
  ultimately show ?case by simp
qed

end
