(* ===== verification/ServerProperties.thy ===== *)
theory ServerProperties
  imports EpollProps HttpProperties
begin

text \<open>
  Properties of the event loop of \<^verbatim>\<open>src/server.c\<close>, with concrete instances.
\<close>

section \<open>Sample clients\<close>

text \<open>A client that has sent its head and announced a body of 4000 bytes.\<close>

definition body_client :: client_data where
  "body_client = (new_client 4)\<lparr>cd_state := CLIENT_READING_BODY, cd_rq_size := 100, cd_body_len := 4000\<rparr>"

lemma body_client_ok: "client_ok body_client"
  using new_client_ok [of 4] by (simp add: client_ok_def body_client_def new_client_def)

text \<open>The small system with one connection to accept and a client that hangs up.\<close>

definition closing_os :: os where
  "closing_os = demo_os\<lparr>os_recv := \<lambda>w fd n. Inr []\<rparr>"

section \<open>Properties\<close>

text \<open>
  C30: the way the head arrives does not matter. If \<open>b\<close>, at most a buffer long, starts with a
  complete head, then a fresh client that receives it in pieces, the head being completed by the
  last one, ends with exactly the decision (wait for the body, process, or close) and the request
  (method, target, version, headers) that parsing the whole of \<open>b\<close> in a zeroed structure gives.
\<close>
theorem head_arrival_irrelevant:
  assumes "snd (http_parse_request b zero_request (length b) 0) = PRet e" and "length b \<le> MAX_BUFFR"
    and "b = concat (ds @ [d])" and "length (concat ds) < e"
  shows "\<exists>cd. feed (new_client fd) (ds @ [d]) = (cd, head_decision b (cd_http_rq cd))
      \<and> same_request (cd_http_rq cd) (fst (http_parse_request b zero_request (length b) 0))
      \<and> cd_rq cd = b @ replicate (MAX_BUFFR - length b) NUL"
  using feed_decision [OF assms(1,2) holds_new, of ds d fd] assms(3,4) by simp

theorem head_arrival_irrelevant_witness:
  "\<exists>cd. feed (new_client 4) [''GET /'', '' HTTP/1.0'' @ [CR, LF, CR], [LF]] = (cd, head_decision (demo_buffer ''GET'' ''/'') (cd_http_rq cd))
     \<and> rq_url (cd_http_rq cd) = Some 4"
proof -
  have l: "length (demo_buffer ''GET'' ''/'') = 18" by (simp add: demo_buffer_def)
  have "wf_request ''GET'' ''/'' (CHR ''0'') []" by code_simp
  from demo_parsed [OF this] obtain r where r: "http_parse_request (demo_buffer ''GET'' ''/'') zero_request 18 0 = (r, PRet 18)"
    "rq_url r = Some 4" unfolding l by auto
  have v: "snd (http_parse_request (demo_buffer ''GET'' ''/'') zero_request (length (demo_buffer ''GET'' ''/'')) 0) = PRet 18"
    and m: "length (demo_buffer ''GET'' ''/'') \<le> MAX_BUFFR" unfolding l by (simp_all add: r MAX_BUFFR_def)
  have c: "demo_buffer ''GET'' ''/'' = concat ([''GET /'', '' HTTP/1.0'' @ [CR, LF, CR]] @ [[LF]])" by (simp add: demo_buffer_def)
  from head_arrival_irrelevant [OF v m c, of 4] r show ?thesis unfolding l same_request_def by auto
qed

text \<open>
  C15: no connection is lost or forgotten. In every state the event loop can reach, whatever the
  clients, the scripts and the kernel do, each accepted connection is either held by exactly one
  client structure or has been deregistered exactly once and closed; the structures are at
  distinct addresses, and each has its buffer at full length and a request that is safe to parse
  into, with room left while its head is being read.
\<close>
theorem connections_accounted:
  assumes "serving os sc sockfd epollfd clients w"
  shows "server_ok clients \<and> accepted_fds w = client_fds clients + deleted_fds w \<and> deleted_fds w \<subseteq># closed_fds w"
  using serving_inv [OF assms] by (simp add: accounted_def)

lemma closing_serving:
  "serving closing_os demo_conf 3 9 [(100, new_client 4)] [Accept 4, EpollAdd 4]"
proof (rule serving.event [OF serving.start, where e = "NewConnection (Some 100)"])
  show "run_state (handle_event closing_os demo_conf 3 9 (NewConnection (Some 100)) []) [] = (Running [(100, new_client 4)], [Accept 4, EpollAdd 4])"
    by (simp add: handle_event_def accept_client_def tcp_accept_connection_def sys_accept_def sys_epoll_add_def
        closing_os_def demo_os_def add_client_def Let_def)
qed (simp_all add: fresh_def)

theorem connections_accounted_witness:
  "server_ok [(100, new_client 4)] \<and> accepted_fds [Accept 4, EpollAdd 4] = client_fds [(100, new_client 4)] + deleted_fds [Accept 4, EpollAdd 4]"
  using connections_accounted [OF closing_serving] by simp

text \<open>
  C31: where the loop can leave its memory. From a reachable state an event makes the server write outside its
  structures or follow a pointer it does not own only if \<^verbatim>\<open>calloc\<close> failed for a new connection, if \<^verbatim>\<open>epoll_ctl\<close> refuses
  that connection and the list, whose head is never initialised, does not happen to end in NULL, if the event names a
  structure that is not live, or if the client has left the header phase with a size beyond its buffer. A handler is
  made to read behind the buffer only by a client in the body phase. While a head is being read neither happens (the
  messages to the terminal, which print the array as a string, are not part of the model).
\<close>
theorem crash_only_in_body_phase:
  assumes "serving os sc sockfd epollfd clients w"
    and "run_state (handle_event os sc sockfd epollfd e clients) w = (s, w')"
  shows "(s = Crashed \<longrightarrow> (\<exists>addr. e = NewConnection addr \<and> (addr = None \<or> add_refused os sockfd w \<and> \<not> os_active_null os))
      \<or> (\<exists>a. e = ClientIO a \<and> (map_of clients a = None
        \<or> (\<exists>cd. map_of clients a = Some cd \<and> cd_state cd \<noteq> CLIENT_READING_HEADERS \<and> int MAX_BUFFR < cd_rq_size cd))))
    \<and> (\<exists>es. w' = w @ es \<and> (list_all in_bounds es
        \<or> (\<exists>a cd. e = ClientIO a \<and> map_of clients a = Some cd \<and> cd_state cd = CLIENT_READING_BODY)))"
  using handle_event_crash [of clients os sc sockfd epollfd e w] handle_event_in_bounds [of clients os sc sockfd epollfd e w]
    serving_inv [OF assms(1)] assms(2) by simp

theorem crash_only_in_body_phase_witness:
  "\<exists>s w'. run_state (handle_event closing_os demo_conf 3 9 (ClientIO 100) [(100, new_client 4)]) [Accept 4, EpollAdd 4] = (s, w')
     \<and> s \<noteq> Crashed \<and> (\<exists>es. w' = [Accept 4, EpollAdd 4] @ es \<and> list_all in_bounds es)"
proof -
  obtain s w' where r: "run_state (handle_event closing_os demo_conf 3 9 (ClientIO 100) [(100, new_client 4)]) [Accept 4, EpollAdd 4] = (s, w')"
    by fastforce
  from crash_only_in_body_phase [OF closing_serving r] r show ?thesis by (auto simp: new_client_def)
qed

text \<open>
  C39: the body phase overruns the buffer. A piece of a body that fits the buffer but leaves the size below twice the
  announced length is counted twice. If that takes the size past the array, the structure is kept, and at the next
  readiness \<^verbatim>\<open>recv\<close> is told to store behind the end of the array and given a length that has wrapped around to
  just under 2 to the 64, so that every byte the client sends then overwrites what follows the array.
\<close>
theorem body_phase_overruns:
  assumes "cd_state cd = CLIENT_READING_BODY" and "0 \<le> cd_rq_size cd" and "cd_rq_size cd + int (length d) < 2 * cd_body_len cd"
    and "cd_body_len cd < 2 ^ 31" and "cd_rq_size cd + int (length d) \<le> int MAX_BUFFR"
    and "int MAX_BUFFR < cd_rq_size cd + 2 * int (length d)"
    and "os_recv os w (cd_fd cd) (MAX_BUFFR - nat (cd_rq_size cd)) = Inr d"
  shows "\<exists>cd'. run_state (client_ready os sc cd) w = (Kept cd', w @ [Recv (cd_fd cd) (int (length d))])
    \<and> int MAX_BUFFR < cd_rq_size cd' \<and> int (recv_len (int MAX_BUFFR - cd_rq_size cd')) = 2 ^ 64 - (cd_rq_size cd' - int MAX_BUFFR)
    \<and> (\<forall>v x. os_recv os v (cd_fd cd) (recv_len (int MAX_BUFFR - cd_rq_size cd')) = Inr x \<and> x \<noteq> [] \<longrightarrow>
          fst (run_state (client_ready os sc cd') v) = Corrupted)"
  using overrun_step [OF assms] by blast

definition flooding_os :: os where
  "flooding_os = demo_os\<lparr>os_recv := \<lambda>w fd n. Inr (replicate 7000 (CHR ''x''))\<rparr>"

theorem body_phase_overruns_witness:
  "client_ok body_client \<and> (\<exists>cd' w'. run_state (client_ready flooding_os demo_conf body_client) [] = (Kept cd', w')
     \<and> fst (run_state (client_ready flooding_os demo_conf cd') w') = Corrupted)"
proof -
  have "\<exists>cd'. run_state (client_ready flooding_os demo_conf body_client) [] = (Kept cd', [] @ [Recv (cd_fd body_client) (int (length (replicate 7000 (CHR ''x''))))])
    \<and> int MAX_BUFFR < cd_rq_size cd' \<and> int (recv_len (int MAX_BUFFR - cd_rq_size cd')) = 2 ^ 64 - (cd_rq_size cd' - int MAX_BUFFR)
    \<and> (\<forall>v x. os_recv flooding_os v (cd_fd body_client) (recv_len (int MAX_BUFFR - cd_rq_size cd')) = Inr x \<and> x \<noteq> [] \<longrightarrow>
          fst (run_state (client_ready flooding_os demo_conf cd') v) = Corrupted)"
    by (rule body_phase_overruns) (simp_all add: body_client_def flooding_os_def MAX_BUFFR_def)
  moreover have "os_recv flooding_os v fd n = Inr (replicate 7000 (CHR ''x''))" "replicate 7000 (CHR ''x'') \<noteq> []" for v fd n
    by (simp_all add: flooding_os_def)
  ultimately show ?thesis using body_client_ok by blast
qed

text \<open>
  a script never sees the body. When the body is taken to be complete, the pointer stored in
  the request is the end of everything received, so none of the bytes of the body is at or behind
  it.
\<close>
theorem body_pointer_behind_data:
  assumes "0 \<le> cd_rq_size cd" and "snd (read_body cd d) = Process"
  shows "rq_body (cd_http_rq (fst (read_body cd d))) = Some (nat (cd_rq_size cd) + length d)
    \<and> cd_rq_size (fst (read_body cd d)) = cd_rq_size cd + int (length d)"
  using read_body_pointer [OF assms] assms(2) by (auto simp: read_body_def Let_def split: if_splits)

theorem body_pointer_behind_data_witness:
  "rq_body (cd_http_rq (fst (read_body (body_client\<lparr>cd_body_len := 5\<rparr>) ''hello''))) = Some 105"
proof -
  have "snd (read_body (body_client\<lparr>cd_body_len := 5\<rparr>) ''hello'') = Process"
    by (simp add: read_body_def body_client_def wrap32_small Let_def)
  from body_pointer_behind_data [OF _ this] show ?thesis by (simp add: body_client_def)
qed

end
