(* ===== verification/ClientQueue.thy ===== *)
theory ClientQueue
  imports Prelude
begin

text \<open>
  \<^verbatim>\<open>srclib/queue.c\<close>: the bounded ring of accepted connections and the table of the
  descriptors the workers are serving. Each operation is the critical section its mutex
  protects; a \<^verbatim>\<open>pthread_cond_wait\<close> is the outcome \<open>QWait\<close> (the caller gives up the mutex and runs
  the section again when woken), the return on \<^verbatim>\<open>*sigint\<close> is \<open>QInterrupted\<close>.

  The contract the server relies on is the locale \<open>bounded_fifo\<close>; the ring implements it.
\<close>

section \<open>The structure and its operations\<close>

record queue =
  fds :: "int list"
  max_size :: nat
  qsize :: nat
  front :: nat
  rear :: nat
  active_fds :: "int list"

datatype 'a qres = QWait | QInterrupted | QDone 'a

text \<open>\<open>alloc\<close> says which of the three allocations succeed, in program order.\<close>

definition queue_create :: "(nat \<Rightarrow> bool) \<Rightarrow> nat \<Rightarrow> nat \<Rightarrow> queue option" where
  "queue_create alloc pool_size queue_max =
     (if \<not> alloc 0 then None
      else if \<not> alloc 1 then None
      else if \<not> alloc 2 then None
      else Some \<lparr>fds = replicate queue_max 0, max_size = queue_max, qsize = 0, front = 0, rear = 0,
                 active_fds = replicate pool_size 0\<rparr>)"

definition queue_push :: "queue \<Rightarrow> int \<Rightarrow> bool \<Rightarrow> queue qres" where
  "queue_push cq fd sigint =
     (if qsize cq = max_size cq \<and> \<not> sigint then QWait
      else if sigint then QInterrupted
      else QDone (cq\<lparr>fds := (fds cq)[rear cq := fd],
                     rear := (rear cq + 1) mod max_size cq,
                     qsize := qsize cq + 1\<rparr>))"

definition queue_pop :: "queue \<Rightarrow> bool \<Rightarrow> (int \<times> queue) qres" where
  "queue_pop cq sigint =
     (if qsize cq = 0 \<and> \<not> sigint then QWait
      else if sigint then QInterrupted
      else QDone (fds cq ! front cq,
                  cq\<lparr>front := (front cq + 1) mod max_size cq, qsize := qsize cq - 1\<rparr>))"

definition queue_add_active_fd :: "queue \<Rightarrow> int \<Rightarrow> nat \<Rightarrow> queue" where
  "queue_add_active_fd cq fd tid = cq\<lparr>active_fds := (active_fds cq)[tid := fd]\<rparr>"

definition queue_del_active_fd :: "queue \<Rightarrow> nat \<Rightarrow> queue" where
  "queue_del_active_fd cq tid = cq\<lparr>active_fds := (active_fds cq)[tid := 0]\<rparr>"

definition queue_get_active_fd :: "queue \<Rightarrow> nat \<Rightarrow> int" where
  "queue_get_active_fd cq tid = active_fds cq ! tid"

section \<open>The contract\<close>

text \<open>
  A bounded first-in first-out buffer of connections: \<open>contents\<close> is what it holds, oldest
  first; a push that is not refused appends, a pop that is not refused takes the oldest.
\<close>

locale bounded_fifo =
  fixes invar :: "'q \<Rightarrow> bool"
    and contents :: "'q \<Rightarrow> 'a list"
    and capacity :: "'q \<Rightarrow> nat"
    and push :: "'q \<Rightarrow> 'a \<Rightarrow> 'q option"
    and pop :: "'q \<Rightarrow> ('a \<times> 'q) option"
  assumes push_Some: "invar q \<Longrightarrow> push q x = Some q' \<Longrightarrow>
      invar q' \<and> contents q' = contents q @ [x] \<and> capacity q' = capacity q"
    and push_None: "invar q \<Longrightarrow> push q x = None \<longleftrightarrow> length (contents q) = capacity q"
    and pop_Some: "invar q \<Longrightarrow> pop q = Some (x, q') \<Longrightarrow>
      invar q' \<and> contents q = x # contents q' \<and> capacity q' = capacity q"
    and pop_None: "invar q \<Longrightarrow> pop q = None \<longleftrightarrow> contents q = []"
    and bounded: "invar q \<Longrightarrow> length (contents q) \<le> capacity q"
begin

text \<open>
  A schedule of operations: \<open>Some x\<close> pushes \<open>x\<close> (and is refused when the buffer is full),
  \<open>None\<close> pops. The result is what was accepted, what was delivered, and the final buffer.
\<close>

primrec run :: "'a option list \<Rightarrow> 'q \<Rightarrow> 'a list \<times> 'a list \<times> 'q" where
  "run [] q = ([], [], q)"
| "run (e # es) q = (case e of
     Some x \<Rightarrow> (case push q x of
        None \<Rightarrow> run es q
      | Some q' \<Rightarrow> (case run es q' of (a, d, r) \<Rightarrow> (x # a, d, r)))
   | None \<Rightarrow> (case pop q of
        None \<Rightarrow> run es q
      | Some (x, q') \<Rightarrow> (case run es q' of (a, d, r) \<Rightarrow> (a, x # d, r))))"

lemma run_fifo: "invar q \<Longrightarrow> run es q = (a, d, r) \<Longrightarrow> invar r \<and> contents q @ a = d @ contents r \<and> capacity r = capacity q"
proof (induction es arbitrary: q a d r)
  case Nil
  then show ?case by simp
next
  case (Cons e es)
  show ?case
  proof (cases e)
    case (Some x)
    show ?thesis
    proof (cases "push q x")
      case None
      with Some Cons show ?thesis by simp
    next
      case (Some q')
      with \<open>e = Some x\<close> Cons.prems obtain a' where "run es q' = (a', d, r)" "a = x # a'"
        by (auto split: prod.splits)
      with Cons.IH [of q' a' d r] push_Some [OF Cons.prems(1) Some] show ?thesis by simp
    qed
  next
    case None
    show ?thesis
    proof (cases "pop q")
      case None
      with \<open>e = None\<close> Cons show ?thesis by simp
    next
      case (Some p)
      obtain x q' where p: "p = (x, q')" by (cases p)
      with \<open>e = None\<close> Some Cons.prems obtain d' where "run es q' = (a, d', r)" "d = x # d'"
        by (auto split: prod.splits)
      with Cons.IH [of q' a d' r] pop_Some [OF Cons.prems(1)] Some p show ?thesis by simp
    qed
  qed
qed

end

section \<open>The ring implements the contract\<close>

definition queue_ok :: "queue \<Rightarrow> bool" where
  "queue_ok cq \<longleftrightarrow> 0 < max_size cq \<and> length (fds cq) = max_size cq \<and> qsize cq \<le> max_size cq \<and>
     front cq < max_size cq \<and> rear cq = (front cq + qsize cq) mod max_size cq"

definition queue_list :: "queue \<Rightarrow> int list" where
  "queue_list cq = map (\<lambda>k. fds cq ! ((front cq + k) mod max_size cq)) [0..<qsize cq]"

definition push_opt :: "queue \<Rightarrow> int \<Rightarrow> queue option" where
  "push_opt cq fd = (case queue_push cq fd False of QDone cq' \<Rightarrow> Some cq' | _ \<Rightarrow> None)"

definition pop_opt :: "queue \<Rightarrow> (int \<times> queue) option" where
  "pop_opt cq = (case queue_pop cq False of QDone r \<Rightarrow> Some r | _ \<Rightarrow> None)"

lemma length_queue_list [simp]: "length (queue_list cq) = qsize cq"
  by (simp add: queue_list_def)

lemma ring_mod: "(f::nat) < n \<Longrightarrow> k \<le> n \<Longrightarrow> (f + k) mod n = (if f + k < n then f + k else f + k - n)"
  by (auto simp: mod_if)

lemma ring_mod_inject: "(f::nat) < n \<Longrightarrow> k < n \<Longrightarrow> l < n \<Longrightarrow> (f + k) mod n = (f + l) mod n \<longleftrightarrow> k = l"
  by (auto simp: ring_mod)

lemma queue_create_ok:
  "queue_create alloc pool_size queue_max = Some cq \<Longrightarrow> 0 < queue_max \<Longrightarrow>
     queue_ok cq \<and> queue_list cq = [] \<and> max_size cq = queue_max \<and> active_fds cq = replicate pool_size 0"
  by (auto simp: queue_create_def queue_ok_def queue_list_def split: if_splits)

lemma queue_push_refines:
  assumes ok: "queue_ok cq" and p: "queue_push cq fd s = QDone cq'"
  shows "queue_ok cq' \<and> queue_list cq' = queue_list cq @ [fd] \<and> max_size cq' = max_size cq \<and> active_fds cq' = active_fds cq"
proof -
  from p have s: "\<not> s" "qsize cq \<noteq> max_size cq" and
    cq': "cq' = cq\<lparr>fds := (fds cq)[rear cq := fd], rear := (rear cq + 1) mod max_size cq, qsize := qsize cq + 1\<rparr>"
    by (auto simp: queue_push_def split: if_splits)
  have ok': "queue_ok cq'"
    using ok s unfolding queue_ok_def cq' by (simp add: mod_Suc_eq)
  let ?i = "\<lambda>k. (front cq + k) mod max_size cq"
  have old: "(fds cq)[rear cq := fd] ! ?i k = fds cq ! ?i k" if "k < qsize cq" for k
  proof -
    have "?i k \<noteq> rear cq"
      using ok s that ring_mod_inject [of "front cq" "max_size cq" k "qsize cq"] by (simp add: queue_ok_def)
    then show ?thesis by simp
  qed
  have new: "(fds cq)[rear cq := fd] ! ?i (qsize cq) = fd"
    using ok by (simp add: queue_ok_def)
  have "queue_list cq' = map (\<lambda>k. (fds cq)[rear cq := fd] ! ?i k) [0..<Suc (qsize cq)]"
    by (simp add: queue_list_def cq')
  also have "\<dots> = queue_list cq @ [fd]"
    using old new by (simp add: queue_list_def)
  finally show ?thesis using ok' by (simp add: cq')
qed

lemma queue_pop_refines:
  assumes ok: "queue_ok cq" and p: "queue_pop cq s = QDone (fd, cq')"
  shows "queue_ok cq' \<and> queue_list cq = fd # queue_list cq' \<and> max_size cq' = max_size cq \<and> active_fds cq' = active_fds cq"
proof -
  from p have s: "\<not> s" "qsize cq \<noteq> 0" and fd: "fd = fds cq ! front cq" and
    cq': "cq' = cq\<lparr>front := (front cq + 1) mod max_size cq, qsize := qsize cq - 1\<rparr>"
    by (auto simp: queue_pop_def split: if_splits)
  obtain n where n: "qsize cq = Suc n" using s(2) not0_implies_Suc by blast
  have ok': "queue_ok cq'"
    using ok n unfolding queue_ok_def cq' by (auto simp: mod_Suc_eq mod_add_left_eq)
  have shift: "((front cq + 1) mod max_size cq + k) mod max_size cq = (front cq + Suc k) mod max_size cq" for k
    by (simp add: mod_add_left_eq)
  have "queue_list cq = map (\<lambda>k. fds cq ! ((front cq + k) mod max_size cq)) (0 # map Suc [0..<n])"
    by (simp add: queue_list_def n upt_conv_Cons map_Suc_upt del: upt_Suc)
  also have "\<dots> = fd # queue_list cq'"
    using ok shift by (simp add: queue_list_def cq' fd n queue_ok_def)
  finally show ?thesis using ok' by (simp add: cq')
qed

lemma push_opt_None: "push_opt cq fd = None \<longleftrightarrow> qsize cq = max_size cq"
  by (simp add: push_opt_def queue_push_def)

lemma pop_opt_None: "pop_opt cq = None \<longleftrightarrow> qsize cq = 0"
  by (simp add: pop_opt_def queue_pop_def)

lemma push_opt_Some: "push_opt cq fd = Some cq' \<longleftrightarrow> queue_push cq fd False = QDone cq'"
  by (auto simp: push_opt_def split: qres.splits)

lemma pop_opt_Some: "pop_opt cq = Some r \<longleftrightarrow> queue_pop cq False = QDone r"
  by (auto simp: pop_opt_def split: qres.splits)

interpretation ring: bounded_fifo queue_ok queue_list max_size push_opt pop_opt
proof unfold_locales
  fix cq x cq'
  assume "queue_ok cq" and "push_opt cq x = Some cq'"
  then show "queue_ok cq' \<and> queue_list cq' = queue_list cq @ [x] \<and> max_size cq' = max_size cq"
    using queue_push_refines by (simp add: push_opt_Some)
next
  fix cq x
  assume "queue_ok cq"
  then show "push_opt cq x = None \<longleftrightarrow> length (queue_list cq) = max_size cq"
    by (simp add: push_opt_None)
next
  fix cq x cq'
  assume "queue_ok cq" and "pop_opt cq = Some (x, cq')"
  then show "queue_ok cq' \<and> queue_list cq = x # queue_list cq' \<and> max_size cq' = max_size cq"
    using queue_pop_refines by (simp add: pop_opt_Some)
next
  fix cq
  assume "queue_ok cq"
  then show "pop_opt cq = None \<longleftrightarrow> queue_list cq = []"
    by (simp add: pop_opt_None flip: length_0_conv)
next
  fix cq
  assume "queue_ok cq"
  then show "length (queue_list cq) \<le> max_size cq"
    by (simp add: queue_ok_def)
qed

end
