(* ===== verification/ThreadPool.thy ===== *)
theory ThreadPool
  imports EpollProps ClientQueue
begin

text \<open>
  The thread pool of \<^verbatim>\<open>src/server.c\<close>: \<^verbatim>\<open>thread_function\<close>, which takes a connection from the queue,
  reads a request into its buffer and answers it, and the part of \<^verbatim>\<open>main\<close> that accepts
  connections and shuts the pool down.

  The threads run in steps. A step of a thread is a test of \<^verbatim>\<open>sigint\<close>, a critical section of the queue, or the work
  between two of them, which touches only the thread's own variables and the descriptors it
  holds. A thread that has called \<^verbatim>\<open>accept\<close>, or is reading and answering a request, may stay there: its
  step is the return from those calls. Messages to the terminal are left out.
\<close>

section \<open>The variables of a worker\<close>

text \<open>
  Where a worker is: at the head of its loop; waiting for \<^verbatim>\<open>not_empty\<close>; with a connection from
  the queue; behind the test of \<^verbatim>\<open>sigint\<close> that follows; with the connection registered as active, reading and answering
  its request; about to deregister and then close (the
  flag says whether the request was answered); about to close after that; about to close and then
  deregister; about to deregister after that; returned; killed by an access outside its buffers while serving
  the connection.
\<close>

datatype worker_pc = WLoop | WWait | WPopped int | WAdd int | WActive int | WDelShut int bool | WShut int bool
  | WShutDel int | WDel int | WExit | WCrash int

record worker =
  w_pc :: worker_pc
  w_buff :: bytes
  w_buff_len :: nat
  w_last_len :: nat
  w_request :: http_request
  w_ip_port_str :: bytes
  w_ip_port_at :: int

text \<open>
  The variables when the thread starts: the array and the request are whatever the stack held.
  \<open>w_ip_port_at\<close> is the address of \<^verbatim>\<open>ip_port_str\<close>, which some messages print.
\<close>

definition new_worker :: "bytes \<times> http_request \<times> int \<Rightarrow> worker" where
  "new_worker frame = (case frame of (buff, request, at) \<Rightarrow>
     \<lparr>w_pc = WLoop, w_buff = buff, w_buff_len = 0, w_last_len = 0, w_request = request,
      w_ip_port_str = [], w_ip_port_at = at\<rparr>)"

section \<open>Reading the head\<close>

datatype head_end = HeadAgain | HeadClosed | HeadRead nat | HeadFault

text \<open>The bytes just received are stored, and the buffer is parsed from the previous length.\<close>

definition head_data :: "worker \<Rightarrow> bytes \<Rightarrow> worker \<times> nat pres" where
  "head_data ws data =
     (let ws = ws\<lparr>w_buff := store_at (w_buff ws) (w_buff_len ws) data, w_last_len := w_buff_len ws,
                  w_buff_len := w_buff_len ws + length data\<rparr>;
          p = http_parse_request (w_buff ws) (w_request ws) (w_buff_len ws) (w_last_len ws)
      in (ws\<lparr>w_request := fst p\<rparr>, snd p))"

text \<open>One iteration of the \<^verbatim>\<open>do\<close> loop.\<close>

definition head_step :: "os \<Rightarrow> int \<Rightarrow> worker \<Rightarrow> (head_end \<times> worker) io" where
  "head_step os clientfd ws = do {
     r \<leftarrow> tcp_recv os clientfd (MAX_BUFFR - w_buff_len ws);
     (case r of
        Inl err \<Rightarrow>
          if err = EAGAIN then do {
            _ \<leftarrow> logs_print os LOG_INFO (''Connection '' @ show_int clientfd @ '' closed by timeout'');
            return (HeadClosed, ws)
          } else do {
            _ \<leftarrow> logs_print os LOG_ERROR (''TCP error on client '' @ show_int (w_ip_port_at ws) @ '': '' @ os_strerror os err);
            _ \<leftarrow> http_send_error os clientfd HTTP_INTERNAL_ERROR;
            return (HeadClosed, ws)
          }
      | Inr data \<Rightarrow>
          if data = [] then do {
            _ \<leftarrow> logs_print os LOG_INFO (''Client '' @ show_int (w_ip_port_at ws) @ '' closed connection'');
            return (HeadClosed, ws)
          } else do {
            let (ws, ret) = head_data ws data;
            if ret = PFault then return (HeadFault, ws)
            else if ret = PBad \<or> (w_buff_len ws = MAX_BUFFR \<and> ret = PPartial) then do {
              _ \<leftarrow> logs_print os LOG_WARNING (''Invalid or too long petition. Client '' @ show_int (w_ip_port_at ws));
              _ \<leftarrow> http_send_error os clientfd HTTP_BAD_REQUEST;
              return (HeadClosed, ws)
            } else return (case ret of PRet n \<Rightarrow> HeadRead n | _ \<Rightarrow> HeadAgain, ws)
          })
   }"

lemma head_data_len [simp]: "w_buff_len (fst (head_data ws d)) = w_buff_len ws + length d"
  by (simp add: head_data_def Let_def)

lemma head_step_again:
  assumes "run_state (head_step os clientfd ws) w = ((HeadAgain, ws'), w')"
  shows "w_buff_len ws < w_buff_len ws' \<and> w_buff_len ws' < MAX_BUFFR"
proof -
  let ?r = "run_state (tcp_recv os clientfd (MAX_BUFFR - w_buff_len ws)) w"
  obtain d where d: "fst ?r = Inr d" "d \<noteq> []" "w_buff_len ws' = w_buff_len ws + length d" "w_buff_len ws' \<noteq> MAX_BUFFR"
    using assms by (auto simp: head_step_def split_beta split: sum.splits if_splits pres.splits)
  with recv_bound [OF d(1)] show ?thesis by (cases d) auto
qed

function read_head :: "os \<Rightarrow> int \<Rightarrow> worker \<Rightarrow> world \<Rightarrow> (head_end \<times> worker) \<times> world" where
  "read_head os clientfd ws w =
     (case run_state (head_step os clientfd ws) w of
        ((HeadAgain, ws'), w') \<Rightarrow> read_head os clientfd ws' w'
      | r \<Rightarrow> r)"
  by pat_completeness auto
termination
  by (relation "measure (\<lambda>(os, fd, ws, w). MAX_BUFFR - w_buff_len ws)") (auto dest!: head_step_again [OF sym])

declare read_head.simps [simp del]

section \<open>Reading the body\<close>

text \<open>One iteration of the \<^verbatim>\<open>while\<close> loop: whether the connection is still open.\<close>

definition body_step :: "os \<Rightarrow> int \<Rightarrow> worker \<Rightarrow> (bool \<times> worker) io" where
  "body_step os clientfd ws = do {
     r \<leftarrow> tcp_recv os clientfd (MAX_BUFFR - w_buff_len ws);
     (case r of
        Inl err \<Rightarrow> do {
          _ \<leftarrow> logs_print os LOG_ERROR (''TCP error on client '' @ show_int (w_ip_port_at ws) @ '': '' @ os_strerror os err);
          _ \<leftarrow> http_send_error os clientfd HTTP_INTERNAL_ERROR;
          return (False, ws)
        }
      | Inr data \<Rightarrow>
          if data = [] then do {
            _ \<leftarrow> logs_print os LOG_INFO (''Client '' @ w_ip_port_str ws @ '' closed connection'');
            return (False, ws)
          } else return (True, ws\<lparr>w_buff := store_at (w_buff ws) (w_buff_len ws) data,
                                  w_buff_len := w_buff_len ws + length data\<rparr>))
   }"

lemma body_step_open:
  assumes "run_state (body_step os clientfd ws) w = ((True, ws'), w')"
  shows "w_buff_len ws < w_buff_len ws' \<and> w_buff_len ws' \<le> MAX_BUFFR"
proof -
  let ?r = "run_state (tcp_recv os clientfd (MAX_BUFFR - w_buff_len ws)) w"
  obtain d where d: "fst ?r = Inr d" "d \<noteq> []" "w_buff_len ws' = w_buff_len ws + length d"
    using assms by (auto simp: body_step_def split: sum.splits if_splits)
  with recv_bound [OF d(1)] show ?thesis by (cases d) auto
qed

function read_rest :: "os \<Rightarrow> int \<Rightarrow> nat \<Rightarrow> int \<Rightarrow> worker \<Rightarrow> world \<Rightarrow> (bool \<times> worker) \<times> world" where
  "read_rest os clientfd header_size expected_len ws w =
     (if int (w_buff_len ws) - int header_size < expected_len then
        (case run_state (body_step os clientfd ws) w of
           ((True, ws'), w') \<Rightarrow> read_rest os clientfd header_size expected_len ws' w'
         | r \<Rightarrow> r)
      else ((True, ws), w))"
  by pat_completeness auto
termination
  by (relation "measure (\<lambda>(os, fd, h, e, ws, w). MAX_BUFFR - w_buff_len ws)") (auto dest!: body_step_open [OF sym])

declare read_rest.simps [simp del]

section \<open>Serving a connection\<close>

text \<open>
  From the first \<^verbatim>\<open>recv\<close> to the end of the body: the request is complete (with the size of its head), or the
  connection ends while its head or its body is read, or the parser accesses memory outside the request.
\<close>

datatype read_end = Complete nat | EndHead | EndBody | ReadFault

definition read_request :: "os \<Rightarrow> int \<Rightarrow> worker \<Rightarrow> (read_end \<times> worker) io" where
  "read_request os clientfd ws = do {
     (e, ws) \<leftarrow> State (read_head os clientfd ws);
     (case e of
        HeadRead header_size \<Rightarrow> do {
          let expected_len = http_get_content_length (w_buff ws) (w_request ws);
          if expected_len > int MAX_BUFFR - int header_size then do {
            _ \<leftarrow> http_send_error os clientfd HTTP_BAD_REQUEST;
            return (EndBody, ws)
          } else do {
            (open_con, ws) \<leftarrow> State (read_rest os clientfd header_size expected_len ws);
            return (if open_con then Complete header_size else EndBody, ws)
          }
        }
      | HeadFault \<Rightarrow> return (ReadFault, ws)
      | _ \<Rightarrow> return (EndHead, ws))
   }"

datatype served = Answered | ClosedInHead | Failed | Crash

definition answer_request :: "os \<Rightarrow> server_conf \<Rightarrow> int \<Rightarrow> nat \<Rightarrow> worker \<Rightarrow> (served \<times> worker) io" where
  "answer_request os sc clientfd header_size ws = do {
     let request = http_add_body (w_request ws) header_size (int (w_buff_len ws) - int header_size);
     (ret, request) \<leftarrow> http_process_request os sc (w_buff ws) request clientfd;
     let ws = ws\<lparr>w_request := request\<rparr>;
     if ret < 0 then do {
       _ \<leftarrow> logs_print os LOG_ERROR ''Error processing HTTP request.'';
       _ \<leftarrow> http_send_error os clientfd HTTP_INTERNAL_ERROR;
       return (Failed, ws)
     } else return (Answered, ws)
   }"

text \<open>
  From the first \<^verbatim>\<open>recv\<close> to the return of \<^verbatim>\<open>http_process_request\<close>. Only an answered request
  leads to the assignments that empty the buffer.
\<close>

definition serve_client :: "os \<Rightarrow> server_conf \<Rightarrow> int \<Rightarrow> worker \<Rightarrow> (served \<times> worker) io" where
  "serve_client os sc clientfd ws = do {
     (e, ws) \<leftarrow> read_request os clientfd ws;
     (case e of
        Complete header_size \<Rightarrow> answer_request os sc clientfd header_size ws
      | EndHead \<Rightarrow> return (ClosedInHead, ws)
      | EndBody \<Rightarrow> return (Failed, ws)
      | ReadFault \<Rightarrow> return (Crash, ws))
   }"

section \<open>The threads\<close>

text \<open>
  Where \<^verbatim>\<open>main\<close> is: at the head of its loop; behind the test of \<^verbatim>\<open>sigint\<close>, in \<^verbatim>\<open>accept\<close>; about to push an accepted
  connection; waiting for \<^verbatim>\<open>not_full\<close>; behind the loop; in the loop that shuts down the active connections and joins the
  workers (with its index), about to read the table, with a descriptor from the table to shut down, and in
  \<^verbatim>\<open>pthread_join\<close>; about to close the listening socket; returned.
\<close>

datatype main_pc = MAccept | MAccepting | MPush int | MPushWait int | MShutdown | MJoin nat | MJoinShut nat int | MJoinWait nat
  | MClose | MExit int

record pool =
  cq :: queue
  workers :: "worker list"
  mpc :: main_pc
  sigint :: bool
  hist :: world

definition set_worker :: "nat \<Rightarrow> worker \<Rightarrow> pool \<Rightarrow> pool" where
  "set_worker i ws p = p\<lparr>workers := (workers p)[i := ws]\<rparr>"

definition goto :: "worker_pc \<Rightarrow> worker \<Rightarrow> worker" where
  "goto l ws = ws\<lparr>w_pc := l\<rparr>"

text \<open>
  The condition variables: \<^verbatim>\<open>not_full\<close> has at most one waiter, \<^verbatim>\<open>main\<close>. A signal of \<^verbatim>\<open>not_empty\<close>
  wakes the waiter \<open>v\<close>, which is any one if there is one.
\<close>

definition signal_not_full :: "main_pc \<Rightarrow> main_pc" where
  "signal_not_full m = (case m of MPushWait fd \<Rightarrow> MPush fd | _ \<Rightarrow> m)"

definition signal_not_empty :: "nat option \<Rightarrow> worker list \<Rightarrow> worker list option" where
  "signal_not_empty v wss = (case v of
     None \<Rightarrow> if \<exists>ws \<in> set wss. w_pc ws = WWait then None else Some wss
   | Some i \<Rightarrow> if i < length wss \<and> w_pc (wss ! i) = WWait then Some (wss[i := goto WLoop (wss ! i)]) else None)"

definition broadcast_not_empty :: "worker list \<Rightarrow> worker list" where
  "broadcast_not_empty wss = map (\<lambda>ws. if w_pc ws = WWait then goto WLoop ws else ws) wss"

text \<open>
  One step of worker \<open>i\<close>, \<open>None\<close> when it cannot take one. As \<^verbatim>\<open>sigint\<close> is never reset, the test at the head of the
  loop, and the one behind a \<^verbatim>\<open>queue_pop\<close> that was interrupted, are one with the test inside \<^verbatim>\<open>queue_pop\<close>.
\<close>

definition worker_step :: "os \<Rightarrow> server_conf \<Rightarrow> nat \<Rightarrow> pool \<Rightarrow> pool option" where
  "worker_step os sc i p =
     (let ws = workers p ! i in case w_pc ws of
        WLoop \<Rightarrow> (case queue_pop (cq p) (sigint p) of
            QWait \<Rightarrow> Some (set_worker i (goto WWait ws) p)
          | QInterrupted \<Rightarrow> Some (set_worker i (goto WExit ws) p)
          | QDone (fd, q) \<Rightarrow> Some (set_worker i (goto (WPopped fd) ws) (p\<lparr>cq := q, mpc := signal_not_full (mpc p)\<rparr>)))
      | WPopped fd \<Rightarrow> Some (set_worker i (goto (if sigint p then WExit else WAdd fd) ws) p)
      | WAdd fd \<Rightarrow>
          (case run_state (do {
              ip_port_str \<leftarrow> get_client_ip_port os fd;
              _ \<leftarrow> logs_print os LOG_INFO (''Connection accepted by thread '' @ show_int (int i) @ '' - descriptor ''
                     @ show_int fd @ '' - client '' @ ip_port_str);
              return ip_port_str
            }) (hist p) of (ip_port_str, w) \<Rightarrow>
            Some (set_worker i (goto (WActive fd) (ws\<lparr>w_ip_port_str := ip_port_str\<rparr>))
                    (p\<lparr>cq := queue_add_active_fd (cq p) fd i, hist := w\<rparr>)))
      | WActive fd \<Rightarrow> (case run_state (serve_client os sc fd ws) (hist p) of ((s, ws), w) \<Rightarrow>
            Some (set_worker i (goto (case s of Answered \<Rightarrow> WDelShut fd True | ClosedInHead \<Rightarrow> WDelShut fd False
                                      | Failed \<Rightarrow> WShutDel fd | Crash \<Rightarrow> WCrash fd) ws) (p\<lparr>hist := w\<rparr>)))
      | WDelShut fd ok \<Rightarrow> Some (set_worker i (goto (WShut fd ok) ws) (p\<lparr>cq := queue_del_active_fd (cq p) i\<rparr>))
      | WShut fd ok \<Rightarrow> (case run_state (do {
              _ \<leftarrow> tcp_shutdown os fd;
              if ok then do { _ \<leftarrow> logs_print os LOG_INFO (''Closing connection '' @ show_int fd); return () } else return ()
            }) (hist p) of (_, w) \<Rightarrow>
            Some (set_worker i (goto WLoop (if ok then ws\<lparr>w_buff_len := 0, w_last_len := 0\<rparr> else ws)) (p\<lparr>hist := w\<rparr>)))
      | WShutDel fd \<Rightarrow> Some (set_worker i (goto (WDel fd) ws) (p\<lparr>hist := snd (run_state (tcp_shutdown os fd) (hist p))\<rparr>))
      | WDel fd \<Rightarrow> Some (set_worker i (goto WLoop ws) (p\<lparr>cq := queue_del_active_fd (cq p) i\<rparr>))
      | WWait \<Rightarrow> None
      | WExit \<Rightarrow> None
      | WCrash fd \<Rightarrow> None)"

text \<open>Accepting: the new connection, or \<open>None\<close> when the loop is left.\<close>

definition accept_step :: "os \<Rightarrow> server_conf \<Rightarrow> int \<Rightarrow> int option io" where
  "accept_step os sc sockfd = do {
     (connfd, ret) \<leftarrow> tcp_accept_connection os False sockfd;
     let clientfd = the connfd;
     if ret = -1 \<or> clientfd < 0 then do {
       err \<leftarrow> sys_errno os;
       if err = EINTR then return None
       else do {
         _ \<leftarrow> logs_print os LOG_ERROR (''Error accepting connection: '' @ os_strerror os err);
         return None
       }
     } else do {
       _ \<leftarrow> (if timeout_ms sc div 1000 \<noteq> 0 \<or> timeout_ms sc mod 1000 * 1000 \<noteq> 0 then sys_setsockopt os clientfd else return 0);
       _ \<leftarrow> get_client_ip_port os clientfd;
       return (Some clientfd)
     }
   }"

text \<open>One step of \<^verbatim>\<open>main\<close>; \<open>v\<close> is the worker a signal wakes.\<close>

definition main_step :: "os \<Rightarrow> server_conf \<Rightarrow> int \<Rightarrow> nat option \<Rightarrow> pool \<Rightarrow> pool option" where
  "main_step os sc sockfd v p =
     (case mpc p of
        MAccept \<Rightarrow> Some (p\<lparr>mpc := (if sigint p then MShutdown else MAccepting)\<rparr>)
      | MAccepting \<Rightarrow> (case run_state (accept_step os sc sockfd) (hist p) of (r, w) \<Rightarrow>
            Some (p\<lparr>mpc := (case r of None \<Rightarrow> MShutdown | Some fd \<Rightarrow> MPush fd), hist := w\<rparr>))
      | MPush fd \<Rightarrow>
          (let w = snd (run_state (logs_print os LOG_INFO (''New connection added to queue: descriptor '' @ show_int fd)) (hist p)) in
           case queue_push (cq p) fd (sigint p) of
             QWait \<Rightarrow> Some (p\<lparr>mpc := MPushWait fd\<rparr>)
           | QInterrupted \<Rightarrow> Some (p\<lparr>mpc := MAccept, hist := w\<rparr>)
           | QDone q \<Rightarrow> (case signal_not_empty v (workers p) of
                None \<Rightarrow> None
              | Some wss \<Rightarrow> Some (p\<lparr>cq := q, workers := wss, mpc := MAccept, hist := w\<rparr>)))
      | MPushWait fd \<Rightarrow> None
      | MShutdown \<Rightarrow> Some (p\<lparr>workers := broadcast_not_empty (workers p), mpc := MJoin 0,
          hist := snd (run_state (logs_print os LOG_INFO ''SIGINT received, shutting down server'') (hist p))\<rparr>)
      | MJoin i \<Rightarrow>
          if i < length (workers p) then
            (let clientfd = queue_get_active_fd (cq p) i in
             Some (p\<lparr>mpc := (if clientfd \<noteq> 0 then MJoinShut i clientfd else MJoinWait i)\<rparr>))
          else Some (p\<lparr>mpc := MClose\<rparr>)
      | MJoinShut i clientfd \<Rightarrow> Some (p\<lparr>mpc := MJoinWait i, hist := snd (run_state (tcp_shutdown os clientfd) (hist p))\<rparr>)
      | MJoinWait i \<Rightarrow> if w_pc (workers p ! i) = WExit then Some (p\<lparr>mpc := MJoin (i + 1)\<rparr>) else None
      | MClose \<Rightarrow> (case run_state (tcp_shutdown os sockfd) (hist p) of (ret, w) \<Rightarrow>
            Some (p\<lparr>mpc := MExit (if ret < 0 then -1 else 0), hist := w\<rparr>))
      | MExit ret \<Rightarrow> None)"

text \<open>
  The steps of the program: any thread that can, in any order. What happens around it: the
  signal arrives, or a waiting thread is woken for no reason, as \<^verbatim>\<open>pthread_cond_wait\<close> may.
\<close>

inductive pool_step :: "os \<Rightarrow> server_conf \<Rightarrow> int \<Rightarrow> pool \<Rightarrow> pool \<Rightarrow> bool" for os sc sockfd where
  worker: "i < length (workers p) \<Longrightarrow> worker_step os sc i p = Some p' \<Longrightarrow> pool_step os sc sockfd p p'"
| main: "main_step os sc sockfd v p = Some p' \<Longrightarrow> pool_step os sc sockfd p p'"

inductive pool_env :: "pool \<Rightarrow> pool \<Rightarrow> bool" where
  interrupt: "pool_env p (p\<lparr>sigint := True\<rparr>)"
| spurious_worker: "i < length (workers p) \<Longrightarrow> w_pc (workers p ! i) = WWait \<Longrightarrow>
    pool_env p (set_worker i (goto WLoop (workers p ! i)) p)"
| spurious_main: "mpc p = MPushWait fd \<Longrightarrow> pool_env p (p\<lparr>mpc := MPush fd\<rparr>)"

inductive pool_run :: "os \<Rightarrow> server_conf \<Rightarrow> int \<Rightarrow> pool \<Rightarrow> pool \<Rightarrow> bool" for os sc sockfd p0 where
  start: "pool_run os sc sockfd p0 p0"
| step: "pool_run os sc sockfd p0 p \<Longrightarrow> pool_step os sc sockfd p p' \<Longrightarrow> pool_run os sc sockfd p0 p'"
| env: "pool_run os sc sockfd p0 p \<Longrightarrow> pool_env p p' \<Longrightarrow> pool_run os sc sockfd p0 p'"

inductive_cases pool_stepE: "pool_step os sc sockfd p p'"
inductive_cases pool_envE: "pool_env p p'"

section \<open>Starting the pool\<close>

text \<open>
  \<^verbatim>\<open>main\<close> from \<^verbatim>\<open>queue_create\<close> to the end of the loop over \<^verbatim>\<open>pthread_create\<close>: the return value on a
  failure, or the listening socket and the threads. \<open>alloc\<close> says which allocations succeed,
  \<open>create\<close> which threads can be created; \<open>frames\<close> is what their stacks hold.
\<close>

definition pool_init :: "os \<Rightarrow> server_conf \<Rightarrow> (nat \<Rightarrow> bool) \<Rightarrow> (nat \<Rightarrow> bool) \<Rightarrow> (nat \<Rightarrow> bytes \<times> http_request \<times> int)
    \<Rightarrow> (int + int \<times> pool) io" where
  "pool_init os sc alloc create frames =
     (case (if pool_size sc < 0 \<or> queue_size sc < 0 then None else queue_create alloc (nat (pool_size sc)) (nat (queue_size sc))) of
        None \<Rightarrow> do { _ \<leftarrow> logs_print os LOG_ERROR ''Error iniziating client queue''; return (Inl (-1)) }
      | Some q \<Rightarrow> do {
          (fd, ret) \<leftarrow> tcp_start_connection os False (listen_port sc) (backlog sc);
          if ret = -1 then do { _ \<leftarrow> logs_print os LOG_ERROR ''Error opening TCP socket''; return (Inl (-1)) }
          else do {
            let sockfd = the fd;
            _ \<leftarrow> logs_print os LOG_INFO (''Server initialized in port '' @ show_int (listen_port sc));
            if \<not> alloc 3 then return (Inl (-1))
            else if \<not> alloc 4 then return (Inl (-1))
            else if \<not> list_all create [0..<nat (pool_size sc)] then do {
              _ \<leftarrow> logs_print os LOG_ERROR ''Error spawning thread'';
              return (Inl (-1))
            } else State (\<lambda>w. (Inr (sockfd, \<lparr>cq = q, workers = map (\<lambda>i. new_worker (frames i)) [0..<nat (pool_size sc)],
                mpc = MAccept, sigint = False, hist = w\<rparr>), w))
          }
        })"

end
