(* ===== verification/WorkerProps.thy ===== *)
theory WorkerProps
  imports ThreadPool
begin

text \<open>
  What a worker of the thread pool does with one connection: its variables stay in order, the
  request it hands on is complete, and what the early exits leave behind.
\<close>

section \<open>Values a computation may return\<close>

definition yields :: "('a \<Rightarrow> bool) \<Rightarrow> 'a io \<Rightarrow> bool" where
  "yields P m \<longleftrightarrow> (\<forall>w. P (fst (run_state m w)))"

named_theorems yielding "computations that only return values satisfying a predicate"

lemma yields_return [yielding]: "P x \<Longrightarrow> yields P (return x)"
  by (simp add: yields_def)

lemma yields_bind [yielding]: "(\<And>x. yields P (f x)) \<Longrightarrow> yields P (State_Monad.bind m f)"
  by (simp add: yields_def)

lemma yields_if [yielding]: "yields P m \<Longrightarrow> yields P n \<Longrightarrow> yields P (if c then m else n)"
  by simp

lemma yields_case_prod [yielding]: "(\<And>x y. yields P (f x y)) \<Longrightarrow> yields P (case p of (x, y) \<Rightarrow> f x y)"
  by (simp split: prod.split)

lemma yields_let [yielding]: "yields P (f x) \<Longrightarrow> yields P (let y = x in f y)"
  by simp

text \<open>Handling a request changes at most the length of its URL.\<close>

definition url_cut :: "http_request \<Rightarrow> int \<times> http_request \<Rightarrow> bool" where
  "url_cut r x \<longleftrightarrow> (\<exists>n. snd x = r\<lparr>rq_url_size := n\<rparr>)"

lemma url_cut_same [simp]: "url_cut r (ret, r)"
  by (auto simp: url_cut_def intro: exI [of _ "rq_url_size r"])

lemma url_cut_size [simp]: "url_cut r (ret, r\<lparr>rq_url_size := n\<rparr>)"
  by (auto simp: url_cut_def)

lemma http_process_request_url_cut: "yields (url_cut r) (http_process_request os sc buff r c)"
proof -
  have "yields (url_cut r) (process_get os sc buff r c)"
    unfolding process_get_def by (intro yielding) simp_all
  moreover have "yields (url_cut r) (process_post os sc buff r c)"
    unfolding process_post_def by (intro yielding) simp_all
  ultimately show ?thesis
    unfolding http_process_request_def
    by (intro yielding) (auto split: http_method_t.split intro!: yielding)
qed

section \<open>One connection\<close>

text \<open>
  The variables are in order: full arrays and a length within them; with \<open>z\<close> also a request that is safe to parse
  into, one whose padding behind the number of headers is zero.
\<close>

definition worker_inv :: "bool \<Rightarrow> worker \<Rightarrow> bool" where
  "worker_inv z ws \<longleftrightarrow> length (w_buff ws) = MAX_BUFFR \<and> w_buff_len ws \<le> MAX_BUFFR
     \<and> length (rq_headers (w_request ws)) = MAX_HEADERS \<and> (z \<longrightarrow> rq_num_headers_pad (w_request ws) = 0)"

abbreviation worker_sized :: "worker \<Rightarrow> bool" where
  "worker_sized \<equiv> worker_inv False"

lemma http_parse_request_headers [simp]: "length (rq_headers (fst (http_parse_request buff r n l))) = length (rq_headers r)"
  using phr_parse_request_fst [of "parser_out r" "take n buff" l]
  by (simp add: http_parse_request_def request_store_def array_kept_def Let_def) (simp add: request_out_def)

lemma head_data_ok:
  assumes "worker_inv z ws" "w_buff_len ws + length d \<le> MAX_BUFFR"
  shows "worker_inv z (fst (head_data ws d))" and "z \<Longrightarrow> snd (head_data ws d) \<noteq> PFault"
proof -
  have "rq_num_headers_pad (w_request ws) = 0 \<Longrightarrow> request_inv (w_request ws)" using assms(1) by (simp add: worker_inv_def request_inv_def)
  then show "worker_inv z (fst (head_data ws d))" "z \<Longrightarrow> snd (head_data ws d) \<noteq> PFault"
    using assms http_parse_request_inv http_parse_request_no_fault
    by (auto simp: worker_inv_def head_data_def Let_def length_store_at request_inv_def)
qed

lemma head_step_ok:
  assumes "worker_inv z ws" "run_state (head_step os clientfd ws) w = ((e, ws'), w')"
  shows "worker_inv z ws' \<and> (z \<longrightarrow> e \<noteq> HeadFault)"
proof (cases "fst (run_state (tcp_recv os clientfd (MAX_BUFFR - w_buff_len ws)) w)")
  case (Inl err)
  with assms show ?thesis by (auto simp: head_step_def split: if_splits)
next
  case (Inr d)
  have "w_buff_len ws + length d \<le> MAX_BUFFR"
    using recv_bound [OF Inr] assms(1) by (auto simp: worker_inv_def)
  from head_data_ok [OF assms(1) this] Inr assms show ?thesis
    by (auto simp: head_step_def split_beta split: if_splits pres.splits)
qed

lemma read_head_unfold:
  assumes "run_state (head_step os clientfd ws) w = ((e1, ws1), w1)"
  shows "read_head os clientfd ws w = (if e1 = HeadAgain then read_head os clientfd ws1 w1 else ((e1, ws1), w1))"
  by (subst read_head.simps) (simp add: assms split: head_end.split)

lemma read_head_ok:
  "worker_inv z ws \<Longrightarrow> read_head os clientfd ws w = ((e, ws'), w') \<Longrightarrow> worker_inv z ws' \<and> (z \<longrightarrow> e \<noteq> HeadFault) \<and> e \<noteq> HeadAgain"
proof (induction os clientfd ws w rule: read_head.induct)
  case (1 os clientfd ws w)
  obtain e1 ws1 w1 where s: "run_state (head_step os clientfd ws) w = ((e1, ws1), w1)" using prod_cases3 surj_pair by metis
  note ok = head_step_ok [OF "1.prems"(1) s]
  note r = "1.prems"(2) [unfolded read_head_unfold [OF s]]
  show ?case using "1.IH" [OF s [symmetric] refl] ok r by (cases "e1 = HeadAgain") auto
qed

lemma body_step_ok:
  assumes "worker_inv z ws" "run_state (body_step os clientfd ws) w = ((b, ws'), w')"
  shows "worker_inv z ws'"
proof (cases "fst (run_state (tcp_recv os clientfd (MAX_BUFFR - w_buff_len ws)) w)")
  case (Inl err)
  with assms show ?thesis by (auto simp: body_step_def)
next
  case (Inr d)
  have "w_buff_len ws + length d \<le> MAX_BUFFR"
    using recv_bound [OF Inr] assms(1) by (auto simp: worker_inv_def)
  with Inr assms show ?thesis
    by (auto simp: body_step_def worker_inv_def length_store_at split: if_splits)
qed

text \<open>Bytes received later leave the beginning of the buffer and the request alone.\<close>

definition extends :: "worker \<Rightarrow> worker \<Rightarrow> bool" where
  "extends ws ws' \<longleftrightarrow> w_buff_len ws \<le> w_buff_len ws' \<and> take (w_buff_len ws) (w_buff ws') = take (w_buff_len ws) (w_buff ws)
     \<and> w_request ws' = w_request ws"

lemma extends_trans: "extends a b \<Longrightarrow> extends b c \<Longrightarrow> extends a c"
  unfolding extends_def by (metis (no_types, lifting) min.absorb1 order_trans take_take)

lemma body_step_extends:
  assumes "worker_inv z ws" "run_state (body_step os clientfd ws) w = ((b, ws'), w')"
  shows "extends ws ws'"
  using assms by (auto simp: body_step_def extends_def worker_inv_def store_at_def split: sum.splits if_splits)

lemma read_rest_unfold:
  assumes "run_state (body_step os clientfd ws) w = ((b1, ws1), w1)"
  shows "read_rest os clientfd h e ws w = (if int (w_buff_len ws) - int h < e then
      if b1 then read_rest os clientfd h e ws1 w1 else ((b1, ws1), w1) else ((True, ws), w))"
  by (subst read_rest.simps) (simp add: assms)

lemma read_rest_ok:
  "worker_inv z ws \<Longrightarrow> read_rest os clientfd h e ws w = ((b, ws'), w') \<Longrightarrow>
   worker_inv z ws' \<and> extends ws ws' \<and> (b \<longrightarrow> e \<le> int (w_buff_len ws') - int h)"
proof (induction os clientfd h e ws w rule: read_rest.induct)
  case (1 os clientfd h e ws w)
  obtain b1 ws1 w1 where s: "run_state (body_step os clientfd ws) w = ((b1, ws1), w1)" using prod_cases3 surj_pair by metis
  note ok = body_step_ok [OF "1.prems"(1) s] and ex = body_step_extends [OF "1.prems"(1) s]
  note r = "1.prems"(2) [unfolded read_rest_unfold [OF s]]
  show ?case
  proof (cases "int (w_buff_len ws) - int h < e")
    case True
    with r "1.IH" [OF True s [symmetric] refl] ok ex show ?thesis by (auto split: if_splits intro: extends_trans)
  next
    case False
    with r "1.prems"(1) show ?thesis by (simp add: extends_def)
  qed
qed

lemma read_request_ok:
  assumes "worker_inv z ws" "run_state (read_request os clientfd ws) w = ((e, ws'), w')"
  shows "worker_inv z ws' \<and> (z \<longrightarrow> e \<noteq> ReadFault)"
proof -
  obtain h ws1 w1 where h: "read_head os clientfd ws w = ((h, ws1), w1)" using prod_cases3 surj_pair by metis
  note ok1 = read_head_ok [OF assms(1) h]
  show ?thesis
  proof (cases h)
    case (HeadRead n)
    let ?e = "http_get_content_length (w_buff ws1) (w_request ws1)"
    obtain b ws2 w2 where r: "read_rest os clientfd n ?e ws1 w1 = ((b, ws2), w2)" using prod_cases3 surj_pair by metis
    have ok2: "worker_inv z ws2" using read_rest_ok [OF _ r] ok1 by simp
    with ok1 h r HeadRead assms(2) show ?thesis by (auto simp: read_request_def Let_def split: if_splits)
  qed (insert h ok1 assms(2), auto simp: read_request_def)
qed

lemma answer_request_ok:
  assumes "worker_inv z ws" "run_state (answer_request os sc clientfd n ws) w = ((s, ws'), w')"
  shows "worker_inv z ws' \<and> s \<noteq> Crash"
proof -
  let ?r = "http_add_body (w_request ws) n (int (w_buff_len ws) - int n)"
  obtain k where "snd (fst (run_state (http_process_request os sc (w_buff ws) ?r clientfd) w)) = ?r\<lparr>rq_url_size := k\<rparr>"
    using http_process_request_url_cut [of ?r os sc "w_buff ws" clientfd] by (auto simp: yields_def url_cut_def)
  with assms show ?thesis
    by (auto simp: answer_request_def split_beta Let_def worker_inv_def http_add_body_def split: if_splits)
qed

lemma serve_client_ok:
  assumes "worker_inv z ws" "run_state (serve_client os sc clientfd ws) w = ((s, ws'), w')"
  shows "worker_inv z ws' \<and> (z \<longrightarrow> s \<noteq> Crash)"
proof -
  obtain e ws1 w1 where r: "run_state (read_request os clientfd ws) w = ((e, ws1), w1)" using prod_cases3 surj_pair by metis
  note ok1 = read_request_ok [OF assms(1) r]
  show ?thesis
  proof (cases e)
    case (Complete n)
    with r assms(2) answer_request_ok [of z ws1 os sc clientfd n w1 s ws' w'] ok1 show ?thesis by (simp add: serve_client_def)
  qed (insert r ok1 assms(2), auto simp: serve_client_def)
qed

section \<open>What reaches the handler\<close>

lemma head_step_read:
  assumes "worker_inv z ws" "run_state (head_step os clientfd ws) w = ((HeadRead n, ws'), w')"
  shows "\<exists>r l. length (rq_headers r) = MAX_HEADERS \<and> l < w_buff_len ws' \<and> http_parse_request (w_buff ws') r (w_buff_len ws') l = (w_request ws', PRet n)"
proof (cases "fst (run_state (tcp_recv os clientfd (MAX_BUFFR - w_buff_len ws)) w)")
  case (Inl err)
  with assms show ?thesis by (auto simp: head_step_def split: if_splits)
next
  case (Inr d)
  with assms have "d \<noteq> []" and h: "head_data ws d = (ws', PRet n)"
    by (auto simp: head_step_def split_beta prod_eq_iff split: if_splits pres.splits)
  with assms(1) show ?thesis
    by (intro exI [of _ "w_request ws"] exI [of _ "w_buff_len ws"]) (auto simp: head_data_def Let_def worker_inv_def prod_eq_iff)
qed

lemma read_head_read:
  "worker_inv z ws \<Longrightarrow> read_head os clientfd ws w = ((HeadRead n, ws'), w') \<Longrightarrow>
   \<exists>r l. length (rq_headers r) = MAX_HEADERS \<and> l < w_buff_len ws' \<and> http_parse_request (w_buff ws') r (w_buff_len ws') l = (w_request ws', PRet n)"
proof (induction os clientfd ws w rule: read_head.induct)
  case (1 os clientfd ws w)
  obtain e1 ws1 w1 where s: "run_state (head_step os clientfd ws) w = ((e1, ws1), w1)" using prod_cases3 surj_pair by metis
  note ok = head_step_ok [OF "1.prems"(1) s]
  note r = "1.prems"(2) [unfolded read_head_unfold [OF s]]
  show ?case using "1.IH" [OF s [symmetric] refl] ok r head_step_read [OF "1.prems"(1)] s by (cases "e1 = HeadAgain") auto
qed

lemma parsed_from_scratch:
  assumes "http_parse_request buff r n l = (r', PRet e)"
  obtains out where "phr_parse_request (take n buff) (parser_out r) 0 = (out, PRet e)"
    and "r' = request_store (r\<lparr>rq_num_headers := int MAX_HEADERS\<rparr>) out"
proof (cases "phr_parse_request (take n buff) (parser_out r) l")
  case (Pair out e')
  with assms have "phr_parse_request (take n buff) (parser_out r) l = (out, PRet e)"
    "r' = request_store (r\<lparr>rq_num_headers := int MAX_HEADERS\<rparr>) out" by (auto simp: http_parse_request_def Let_def)
  then show thesis using that phr_parse_request_gate by blast
qed

lemma parsed_head_consumed:
  assumes "http_parse_request buff r n l = (r', PRet e)" "n \<le> length buff"
  shows "0 < e \<and> e \<le> n"
proof -
  obtain out where "phr_parse_request (take n buff) (parser_out r) 0 = (out, PRet e)" using parsed_from_scratch [OF assms(1)] .
  then show ?thesis using phr_parse_request_consumed [of "take n buff" "parser_out r" e] assms(2) by simp
qed

text \<open>The body length depends only on the bytes the parser saw.\<close>

definition inside :: "nat \<Rightarrow> phr_header \<Rightarrow> bool" where
  "inside m h \<longleftrightarrow> (h_name_len h = 14 \<longrightarrow> the (h_name h) + 14 \<le> m) \<and> the (h_value h) + h_value_len h \<le> m"

lemma bslice_same: "take m b = take m b' \<Longrightarrow> i + n \<le> m \<Longrightarrow> bslice b i n = bslice b' i n"
proof -
  assume t: "take m b = take m b'" and i: "i + n \<le> m"
  have "bslice x i n = bslice (take m x) i n" for x :: bytes using i by (simp add: bslice_def drop_take min_absorb1)
  with t show ?thesis by metis
qed

lemma content_length_loop_inside:
  "take m b = take m b' \<Longrightarrow> \<forall>h \<in> set (take n hs). inside m h \<Longrightarrow> content_length_loop b hs n = content_length_loop b' hs n"
proof (induction b hs n rule: content_length_loop.induct)
  case (3 b h hs n)
  have "inside m h" using "3.prems"(2) by simp
  then have "h_name_len h = 14 \<Longrightarrow> bslice b (the (h_name h)) 14 = bslice b' (the (h_name h)) 14"
    and "l \<le> h_value_len h \<Longrightarrow> bslice b (the (h_value h)) l = bslice b' (the (h_value h)) l" for l
    using bslice_same [OF "3.prems"(1)] by (auto simp: inside_def)
  with 3 show ?case by (auto simp: Let_def)
qed simp_all

lemma parsed_headers_inside:
  assumes "http_parse_request buff r n l = (r', PRet e)" "length (rq_headers r) = MAX_HEADERS" "n \<le> length buff"
  shows "\<forall>h \<in> set (take (nat (rq_num_headers r')) (rq_headers r')). inside n h"
proof -
  obtain out where p: "phr_parse_request (take n buff) (parser_out r) 0 = (out, PRet e)"
    and r': "r' = request_store (r\<lparr>rq_num_headers := int MAX_HEADERS\<rparr>) out" using parsed_from_scratch [OF assms(1)] .
  have "request_ok (take n buff) out" using p unfolding phr_parse_request_0 by (rule parse_request_ok) simp
  then have h: "o_num_headers out \<le> length (o_headers out)" "\<forall>k < o_num_headers out. header_ok (take n buff) (o_headers out ! k)"
    by (simp_all add: request_ok_def headers_ok_def)
  have "array_kept (parser_out r) out" using phr_parse_request_fst [of "parser_out r" "take n buff" 0] by (simp only: p fst_conv)
  then have "o_num_headers out \<le> MAX_HEADERS" using h(1) assms(2) by (simp add: array_kept_def request_out_def)
  then have "o_num_headers out < 2 ^ 31" by (simp add: MAX_HEADERS_def)
  then have c: "nat (rq_num_headers r') = o_num_headers out" by (simp add: r' request_store_def lo32_small)
  have "inside n (o_headers out ! k)" if "k < o_num_headers out" for k
    using h(2) that assms(3) by (fastforce simp: header_ok_def name_ok_def value_ok_def inside_def split: option.splits)
  with h(1) c show ?thesis by (auto simp: r' request_store_def in_set_conv_nth)
qed

text \<open>
  A request that was read completely: a head, parsed as from scratch, and a body of at least the announced length right
  behind it; whatever a handler reads of it is in the buffer.
\<close>

lemma read_request_complete:
  assumes ok: "worker_sized ws" and run: "run_state (read_request os clientfd ws) w = ((Complete n, ws'), w')"
  shows "\<exists>r0 m. length (rq_headers r0) = MAX_HEADERS \<and> n \<le> m \<and> m \<le> w_buff_len ws' \<and> w_buff_len ws' \<le> MAX_BUFFR
    \<and> http_parse_request (w_buff ws') r0 m 0 = (w_request ws', PRet n)
    \<and> http_get_content_length (w_buff ws') (w_request ws') \<le> int (w_buff_len ws') - int n
    \<and> request_inside (w_buff ws') (http_add_body (w_request ws') n (int (w_buff_len ws') - int n))"
proof -
  obtain e ws1 w1 where h: "read_head os clientfd ws w = ((e, ws1), w1)" using prod_cases3 surj_pair by metis
  obtain k where "e = HeadRead k" using run h by (cases e) (auto simp: read_request_def)
  then have h: "read_head os clientfd ws w = ((HeadRead n, ws1), w1)"
    using run h by (auto simp: read_request_def Let_def split_beta split: if_splits)
  note ok1 = read_head_ok [OF ok h]
  let ?e = "http_get_content_length (w_buff ws1) (w_request ws1)"
  have rest: "read_rest os clientfd n ?e ws1 w1 = ((True, ws'), w')"
    using run h by (auto simp: read_request_def split_beta Let_def prod_eq_iff split: if_splits)
  have ok2: "worker_sized ws'" "extends ws1 ws'" "?e \<le> int (w_buff_len ws') - int n" using read_rest_ok [OF _ rest] ok1 by simp_all
  obtain r l where p: "length (rq_headers r) = MAX_HEADERS" "http_parse_request (w_buff ws1) r (w_buff_len ws1) l = (w_request ws1, PRet n)"
    using read_head_read [OF ok h] by blast
  let ?m = "w_buff_len ws1"
  have t: "take ?m (w_buff ws1) = take ?m (w_buff ws')" and same: "w_request ws' = w_request ws1" "?m \<le> w_buff_len ws'"
    using ok2(2) by (simp_all add: extends_def)
  have len: "?m \<le> length (w_buff ws1)" "?m \<le> length (w_buff ws')" using ok1 ok2(1) same(2) by (simp_all add: worker_inv_def)
  have p0: "http_parse_request (w_buff ws') r ?m 0 = (w_request ws1, PRet n)"
    using parsed_from_scratch [OF p(2)] by (metis fst_conv http_parse_request_def snd_conv t)
  have c: "http_get_content_length (w_buff ws') (w_request ws1) = ?e"
    unfolding http_get_content_length_def
    by (rule content_length_loop_inside [OF t [symmetric] parsed_headers_inside [OF p(2,1) len(1)]])
  note n = parsed_head_consumed [OF p0 len(2)]
  have "?m < 2 ^ 31" using len(2) ok2(1) by (simp add: worker_inv_def MAX_BUFFR_def)
  from parsed_url [OF p0 len(2) this] obtain u where u: "rq_url_size (w_request ws1) = int (length u)" "prefix u (url_mem (w_buff ws') (w_request ws1))"
    by blast
  have "w_buff_len ws' \<le> MAX_BUFFR" using ok2(1) by (simp add: worker_inv_def)
  then have "nat (int (w_buff_len ws') - int n) \<le> MAX_BUFFR - n" by linarith
  then have "request_inside (w_buff ws') (http_add_body (w_request ws') n (int (w_buff_len ws') - int n))"
    using u ok2(1) same(1) prefix_length_le [OF u(2)] by (simp add: request_inside_def http_add_body_def url_mem_def worker_inv_def)
  with p(1) p0 c ok2(1,3) same n show ?thesis
    by (intro exI [of _ r] exI [of _ ?m]) (simp add: worker_inv_def)
qed

section \<open>Left-over bytes\<close>

text \<open>A worker whose buffer is full asks for no bytes, takes the empty answer for the end of the stream and closes.\<close>

lemma serve_client_full_buffer:
  assumes "w_buff_len ws = MAX_BUFFR"
  shows "fst (run_state (serve_client os sc clientfd ws) w) = (ClosedInHead, ws)"
proof -
  have "fst (run_state (head_step os clientfd ws) w) = (HeadClosed, ws)"
    using recv_bound [of os clientfd 0 w] assms by (auto simp: head_step_def split: sum.split)
  then obtain w1 where s: "run_state (head_step os clientfd ws) w = ((HeadClosed, ws), w1)" by (metis prod.collapse)
  show ?thesis using read_head_unfold [OF s] by (simp add: serve_client_def read_request_def)
qed

text \<open>The bytes of the next client are parsed behind those an unanswered client left.\<close>

lemma head_data_behind:
  assumes "worker_inv z ws" "w_buff_len ws + length d \<le> MAX_BUFFR"
  shows "take (w_buff_len (fst (head_data ws d))) (w_buff (fst (head_data ws d))) = take (w_buff_len ws) (w_buff ws) @ d"
  using assms by (simp add: head_data_def Let_def worker_inv_def take_store_at)

section \<open>Events\<close>

lemma traces_head_step:
  assumes c: "client_events c P" and r: "\<And>n. P (Recv c n)"
  shows "traces P (head_step os c ws)"
proof -
  have l: "P (LogWrite s)" "P (Send c b n)" "P (Shutdown c)" "P (Close c)" for s b n using c by (auto simp: client_events_def)
  show ?thesis unfolding head_step_def tcp_recv_def by (intro tracing l r)
qed

lemma traces_body_step:
  assumes c: "client_events c P" and r: "\<And>n. P (Recv c n)"
  shows "traces P (body_step os c ws)"
proof -
  have l: "P (LogWrite s)" "P (Send c b n)" "P (Shutdown c)" "P (Close c)" for s b n using c by (auto simp: client_events_def)
  show ?thesis unfolding body_step_def tcp_recv_def by (intro tracing l r)
qed

lemma tracesD: "traces P m \<Longrightarrow> run_state m w = (x, w') \<Longrightarrow> \<exists>es. w' = w @ es \<and> list_all P es"
  unfolding traces_def by (metis snd_conv)

lemma read_head_events:
  assumes c: "client_events c P" and r: "\<And>n. P (Recv c n)"
  shows "\<exists>es. snd (read_head os c ws w) = w @ es \<and> list_all P es"
  using c r
proof (induction os c ws w rule: read_head.induct)
  case (1 os c ws w)
  obtain e1 ws1 w1 where s: "run_state (head_step os c ws) w = ((e1, ws1), w1)" using prod_cases3 surj_pair by metis
  obtain es where es: "w1 = w @ es" "list_all P es" using tracesD [OF traces_head_step [OF 1(2,3)] s] by blast
  show ?case
  proof (cases "e1 = HeadAgain")
    case True
    obtain fs where "snd (read_head os c ws1 w1) = w1 @ fs" "list_all P fs" using "1.IH" [OF s [symmetric] refl True 1(2,3)] by blast
    with es True show ?thesis by (intro exI [of _ "es @ fs"]) (simp add: read_head_unfold [OF s])
  next
    case False
    with es show ?thesis by (simp add: read_head_unfold [OF s])
  qed
qed

lemma read_rest_events:
  assumes c: "client_events c P" and r: "\<And>n. P (Recv c n)"
  shows "\<exists>es. snd (read_rest os c h e ws w) = w @ es \<and> list_all P es"
  using c r
proof (induction os c h e ws w rule: read_rest.induct)
  case (1 os c h e ws w)
  obtain b1 ws1 w1 where s: "run_state (body_step os c ws) w = ((b1, ws1), w1)" using prod_cases3 surj_pair by metis
  obtain es where es: "w1 = w @ es" "list_all P es" using tracesD [OF traces_body_step [OF 1(2,3)] s] by blast
  show ?case
  proof (cases "int (w_buff_len ws) - int h < e \<and> b1")
    case True
    obtain fs where "snd (read_rest os c h e ws1 w1) = w1 @ fs" "list_all P fs"
      using "1.IH" [OF _ s [symmetric] refl _ 1(2,3)] True by blast
    with es True show ?thesis by (intro exI [of _ "es @ fs"]) (simp add: read_rest_unfold [OF s])
  next
    case False
    with es show ?thesis by (auto simp: read_rest_unfold [OF s])
  qed
qed

lemma traces_read_request:
  assumes c: "client_events c P" and r: "\<And>n. P (Recv c n)"
  shows "traces P (read_request os c ws)"
proof -
  have l: "P (LogWrite s)" "P (Send c b n)" "P (Shutdown c)" "P (Close c)" for s b n using c by (auto simp: client_events_def)
  have h: "traces P (State (read_head os c ws))" "traces P (State (read_rest os c n e ws'))" for n e ws'
    using read_head_events [OF c r] read_rest_events [OF c r] by (simp_all add: traces_def)
  show ?thesis
    unfolding read_request_def by (intro tracing h) (auto split: head_end.split intro!: tracing h l)
qed

lemma traces_serve_client:
  assumes c: "client_events c P" and r: "\<And>n. P (Recv c n)" and o: "\<And>p fd. P (OpenAt (root_fd sc) p fd)"
    and f: "\<And>pid p fp. is_script (get_mime_type p) \<Longrightarrow> P (Fork pid (child_argv p fp))" and b: "\<And>k. P (ReadBeyond k)"
  shows "traces P (serve_client os sc c ws)"
proof -
  have l: "P (LogWrite s)" "P (Send c b n)" "P (Shutdown c)" "P (Close c)" for s b n using c by (auto simp: client_events_def)
  have p: "traces P (http_process_request os sc buff r c)" for buff r using b by (intro traces_process_any [OF c o f]) simp_all
  show ?thesis
    unfolding serve_client_def answer_request_def
    by (intro tracing traces_read_request [OF c r]) (auto split: read_end.split intro!: tracing l p)
qed

text \<open>A handler never reads behind the buffer of its worker.\<close>

lemma serve_client_in_bounds:
  assumes "worker_sized ws"
  shows "\<exists>es. snd (run_state (serve_client os sc c ws) w) = w @ es \<and> list_all in_bounds es"
proof -
  have l: "in_bounds (LogWrite s)" "in_bounds (Send c b n)" "in_bounds (Shutdown c)" "in_bounds (Close c)" "in_bounds (Recv c m)" for s b n m
    by (simp_all add: in_bounds_def)
  obtain e ws1 w1 where r: "run_state (read_request os c ws) w = ((e, ws1), w1)" using prod_cases3 surj_pair by metis
  obtain es where es: "w1 = w @ es" "list_all in_bounds es"
    using tracesD [OF traces_read_request [OF in_bounds_client(1) l(5)] r] by blast
  show ?thesis
  proof (cases e)
    case (Complete n)
    have "request_inside (w_buff ws1) (http_add_body (w_request ws1) n (int (w_buff_len ws1) - int n))"
      using read_request_complete [OF assms] r Complete by blast
    then have "traces in_bounds (http_process_request os sc (w_buff ws1) (http_add_body (w_request ws1) n (int (w_buff_len ws1) - int n)) c)"
      by (intro traces_process_any) (simp_all add: in_bounds_client)
    then have "traces in_bounds (answer_request os sc c n ws1)"
      unfolding answer_request_def by (auto intro!: tracing l)
    then obtain fs where "snd (run_state (answer_request os sc c n ws1) w1) = w1 @ fs" "list_all in_bounds fs" unfolding traces_def by blast
    with es r Complete show ?thesis by (simp add: serve_client_def)
  qed (insert es r, auto simp: serve_client_def)
qed

end
