(* ===== verification/PoolProps.thy ===== *)
theory PoolProps
  imports WorkerProps
begin

text \<open>
  The threads of the pool and the queue between them: the invariants of every reachable state,
  where each connection is, why no wake-up is lost, and how the pool shuts down.
\<close>

section \<open>Lists of workers\<close>

lemma sum_map_update:
  fixes f :: "'b \<Rightarrow> 'a::comm_monoid_add"
  shows "i < length xs \<Longrightarrow> sum_list (map f (xs[i := x])) + f (xs ! i) = sum_list (map f xs) + f x"
proof (induction xs arbitrary: i)
  case (Cons y xs)
  then show ?case by (cases i) (simp_all add: ac_simps)
qed simp

lemma set_worker_simps [simp]:
  "workers (set_worker i ws p) = (workers p)[i := ws]" "cq (set_worker i ws p) = cq p" "mpc (set_worker i ws p) = mpc p"
  "sigint (set_worker i ws p) = sigint p" "hist (set_worker i ws p) = hist p"
  by (simp_all add: set_worker_def)

lemma goto_simps [simp]: "w_pc (goto l ws) = l" "worker_inv z (goto l ws) = worker_inv z ws"
  by (simp_all add: goto_def worker_inv_def)

lemma worker_inv_updates [simp]:
  "worker_inv z (ws\<lparr>w_ip_port_str := s\<rparr>) = worker_inv z ws"
  "worker_inv z ws \<Longrightarrow> worker_inv z (ws\<lparr>w_buff_len := 0, w_last_len := 0\<rparr>)"
  by (simp_all add: worker_inv_def)

section \<open>The invariant\<close>

text \<open>The descriptor the table of active connections shows for a worker.\<close>

definition active_fd :: "worker_pc \<Rightarrow> int" where
  "active_fd l = (case l of WActive fd \<Rightarrow> fd | WDelShut fd _ \<Rightarrow> fd | WShutDel fd \<Rightarrow> fd | WDel fd \<Rightarrow> fd | WCrash fd \<Rightarrow> fd | _ \<Rightarrow> 0)"

lemma active_fd_simps [simp]:
  "active_fd WLoop = 0" "active_fd WWait = 0" "active_fd WExit = 0" "active_fd (WPopped fd) = 0" "active_fd (WActive fd) = fd"
  "active_fd (WDelShut fd ok) = fd" "active_fd (WShut fd ok) = 0" "active_fd (WShutDel fd) = fd" "active_fd (WDel fd) = fd"
  "active_fd (WAdd fd) = 0" "active_fd (WCrash fd) = fd"
  by (simp_all add: active_fd_def)

definition table_ok :: "pool \<Rightarrow> bool" where
  "table_ok p \<longleftrightarrow> active_fds (cq p) = map (\<lambda>ws. active_fd (w_pc ws)) (workers p)"

text \<open>The arrays of every worker are in order; with \<open>z\<close> no worker can crash and none has.\<close>

definition crashed :: "worker_pc \<Rightarrow> bool" where
  "crashed l \<longleftrightarrow> (\<exists>fd. l = WCrash fd)"

lemma crashed_simps [simp]:
  "crashed (WCrash fd)" "\<not> crashed WLoop" "\<not> crashed WWait" "\<not> crashed WExit" "\<not> crashed (WPopped fd)" "\<not> crashed (WAdd fd)"
  "\<not> crashed (WActive fd)" "\<not> crashed (WDelShut fd ok)" "\<not> crashed (WShut fd ok)" "\<not> crashed (WShutDel fd)" "\<not> crashed (WDel fd)"
  by (simp_all add: crashed_def)

definition workers_ok :: "bool \<Rightarrow> pool \<Rightarrow> bool" where
  "workers_ok z p \<longleftrightarrow> (\<forall>ws \<in> set (workers p). worker_inv z ws \<and> (z \<longrightarrow> \<not> crashed (w_pc ws)))"

definition idle :: "worker list \<Rightarrow> nat" where
  "idle wss = sum_list (map (\<lambda>ws. if w_pc ws = WLoop then 1 else 0) wss)"

definition waiting :: "worker list \<Rightarrow> bool" where
  "waiting wss \<longleftrightarrow> (\<exists>ws \<in> set wss. w_pc ws = WWait)"

definition wakeups_ok :: "pool \<Rightarrow> bool" where
  "wakeups_ok p \<longleftrightarrow> (\<not> sigint p \<longrightarrow> waiting (workers p) \<longrightarrow> qsize (cq p) \<le> idle (workers p))
     \<and> (\<forall>fd. mpc p = MPushWait fd \<longrightarrow> qsize (cq p) = max_size (cq p))"

definition pool_ok :: "bool \<Rightarrow> pool \<Rightarrow> bool" where
  "pool_ok z p \<longleftrightarrow> queue_ok (cq p) \<and> workers_ok z p \<and> table_ok p \<and> wakeups_ok p"

lemma idle_update:
  "i < length wss \<Longrightarrow> idle (wss[i := ws]) + (if w_pc (wss ! i) = WLoop then 1 else 0) = idle wss + (if w_pc ws = WLoop then 1 else 0)"
  unfolding idle_def by (rule sum_map_update)

lemma waiting_update: "waiting (wss[i := ws]) \<Longrightarrow> w_pc ws \<noteq> WWait \<Longrightarrow> waiting wss"
  using set_update_subset_insert [of wss i ws] by (auto simp: waiting_def)

lemma workers_ok_update: "workers_ok z p \<Longrightarrow> worker_inv z ws \<Longrightarrow> (z \<Longrightarrow> \<not> crashed (w_pc ws)) \<Longrightarrow> workers_ok z (set_worker i ws p)"
  using set_update_subset_insert [of "workers p" i ws] by (auto simp: workers_ok_def)

lemma workers_ok_nth: "workers_ok z p \<Longrightarrow> i < length (workers p) \<Longrightarrow> worker_inv z (workers p ! i)"
  by (simp add: workers_ok_def)

lemma workers_ok_cong [simp]:
  "workers_ok z (p\<lparr>cq := q\<rparr>) = workers_ok z p" "workers_ok z (p\<lparr>mpc := m\<rparr>) = workers_ok z p"
  "workers_ok z (p\<lparr>hist := w\<rparr>) = workers_ok z p" "workers_ok z (p\<lparr>sigint := s\<rparr>) = workers_ok z p"
  by (simp_all add: workers_ok_def)

lemma signal_not_full_wait [simp]: "signal_not_full m \<noteq> MPushWait fd"
  by (simp add: signal_not_full_def split: main_pc.split)

lemma queue_push_cases:
  "queue_push q fd s = QDone q' \<longleftrightarrow> \<not> s \<and> qsize q \<noteq> max_size q \<and>
     q' = q\<lparr>fds := (fds q)[rear q := fd], rear := (rear q + 1) mod max_size q, qsize := qsize q + 1\<rparr>"
  "queue_push q fd s = QWait \<longleftrightarrow> \<not> s \<and> qsize q = max_size q"
  "queue_push q fd s = QInterrupted \<longleftrightarrow> s"
  by (auto simp: queue_push_def)

lemma queue_pop_cases:
  "queue_pop q s = QDone r \<longleftrightarrow> \<not> s \<and> qsize q \<noteq> 0 \<and>
     r = (fds q ! front q, q\<lparr>front := (front q + 1) mod max_size q, qsize := qsize q - 1\<rparr>)"
  "queue_pop q s = QWait \<longleftrightarrow> \<not> s \<and> qsize q = 0"
  "queue_pop q s = QInterrupted \<longleftrightarrow> s"
  by (auto simp: queue_pop_def)

lemma queue_active_simps [simp]:
  "queue_ok (queue_add_active_fd q fd i) = queue_ok q" "queue_ok (queue_del_active_fd q i) = queue_ok q"
  "queue_list (queue_add_active_fd q fd i) = queue_list q" "queue_list (queue_del_active_fd q i) = queue_list q"
  "qsize (queue_add_active_fd q fd i) = qsize q" "qsize (queue_del_active_fd q i) = qsize q"
  "max_size (queue_add_active_fd q fd i) = max_size q" "max_size (queue_del_active_fd q i) = max_size q"
  "active_fds (queue_add_active_fd q fd i) = (active_fds q)[i := fd]" "active_fds (queue_del_active_fd q i) = (active_fds q)[i := 0]"
  by (simp_all add: queue_add_active_fd_def queue_del_active_fd_def queue_ok_def queue_list_def)

section \<open>The steps of a worker\<close>

text \<open>Histories that differ by events that accept no connection.\<close>

definition quiet :: "world \<Rightarrow> world \<Rightarrow> bool" where
  "quiet w w' \<longleftrightarrow> accepted_fds w' = accepted_fds w \<and> closed_fds w \<subseteq># closed_fds w'"

lemma quiet_refl [simp]: "quiet w w"
  by (simp add: quiet_def)

lemma quiet_traces:
  assumes "traces (\<lambda>e. event_accepts e = {#}) m"
  shows "quiet w (snd (run_state m w))"
proof -
  obtain es where es: "snd (run_state m w) = w @ es" "list_all (\<lambda>e. event_accepts e = {#}) es"
    using assms by (auto simp: traces_def)
  from es(2) have "accepted_fds es = {#}" by (induction es) auto
  with es(1) show ?thesis by (simp add: quiet_def)
qed

lemma no_accepts [simp]:
  "event_accepts (LogWrite s) = {#}" "event_accepts (Shutdown a) = {#}" "event_accepts (Send a b n) = {#}"
  "event_accepts (OpenAt a b n) = {#}" "event_accepts (Fork n args) = {#}"
  by (simp_all add: event_accepts_def)

lemma quiet_logs: "quiet w (snd (run_state (logs_print os t m) w))"
  by (rule quiet_traces) (intro tracing, simp)

lemma quiet_tcp_shutdown: "quiet w (snd (run_state (tcp_shutdown os fd) w))"
  by (rule quiet_traces) (intro tracing, simp_all)

lemma quiet_serve: "quiet w (snd (run_state (serve_client os sc fd ws) w))"
  by (rule quiet_traces, rule traces_serve_client) (simp_all add: client_events_def event_accepts_def)

lemma closed_tcp_shutdown: "closed_fds (snd (run_state (tcp_shutdown os fd) w)) = add_mset fd (closed_fds w)"
  by (simp add: tcp_shutdown_def sys_shutdown_def sys_close_def split_beta event_closes_def Let_def)

lemma worker_step_cases:
  assumes "worker_step os sc i p = Some p'"
  obtains (Blocks) "w_pc (workers p ! i) = WLoop" "\<not> sigint p" "qsize (cq p) = 0" "p' = set_worker i (goto WWait (workers p ! i)) p"
    | (Leaves) "w_pc (workers p ! i) = WLoop" "sigint p" "p' = set_worker i (goto WExit (workers p ! i)) p"
    | (Takes) fd q where "w_pc (workers p ! i) = WLoop" "queue_pop (cq p) (sigint p) = QDone (fd, q)"
        "p' = set_worker i (goto (WPopped fd) (workers p ! i)) (p\<lparr>cq := q, mpc := signal_not_full (mpc p)\<rparr>)"
    | (Abandons) fd where "w_pc (workers p ! i) = WPopped fd" "sigint p" "p' = set_worker i (goto WExit (workers p ! i)) p"
    | (Passes) fd where "w_pc (workers p ! i) = WPopped fd" "\<not> sigint p" "p' = set_worker i (goto (WAdd fd) (workers p ! i)) p"
    | (Registers) fd s w where "w_pc (workers p ! i) = WAdd fd" "quiet (hist p) w"
        "p' = set_worker i (goto (WActive fd) ((workers p ! i)\<lparr>w_ip_port_str := s\<rparr>)) (p\<lparr>cq := queue_add_active_fd (cq p) fd i, hist := w\<rparr>)"
    | (Serves) fd s ws w where "w_pc (workers p ! i) = WActive fd" "run_state (serve_client os sc fd (workers p ! i)) (hist p) = ((s, ws), w)"
        "p' = set_worker i (goto (case s of Answered \<Rightarrow> WDelShut fd True | ClosedInHead \<Rightarrow> WDelShut fd False
            | Failed \<Rightarrow> WShutDel fd | Crash \<Rightarrow> WCrash fd) ws) (p\<lparr>hist := w\<rparr>)"
    | (Deregisters) fd ok where "w_pc (workers p ! i) = WDelShut fd ok"
        "p' = set_worker i (goto (WShut fd ok) (workers p ! i)) (p\<lparr>cq := queue_del_active_fd (cq p) i\<rparr>)"
    | (Closes) fd ok w where "w_pc (workers p ! i) = WShut fd ok" "accepted_fds w = accepted_fds (hist p)" "add_mset fd (closed_fds (hist p)) \<subseteq># closed_fds w"
        "p' = set_worker i (goto WLoop (if ok then (workers p ! i)\<lparr>w_buff_len := 0, w_last_len := 0\<rparr> else workers p ! i)) (p\<lparr>hist := w\<rparr>)"
    | (ClosesFirst) fd where "w_pc (workers p ! i) = WShutDel fd"
        "p' = set_worker i (goto (WDel fd) (workers p ! i)) (p\<lparr>hist := snd (run_state (tcp_shutdown os fd) (hist p))\<rparr>)"
    | (DeregistersLast) fd where "w_pc (workers p ! i) = WDel fd"
        "p' = set_worker i (goto WLoop (workers p ! i)) (p\<lparr>cq := queue_del_active_fd (cq p) i\<rparr>)"
proof (cases "w_pc (workers p ! i)")
  case WLoop
  with assms that(1-3) show thesis
    by (cases "queue_pop (cq p) (sigint p)") (auto simp: worker_step_def Let_def queue_pop_cases)
next
  case (WPopped fd)
  with assms show thesis by (cases "sigint p") (auto simp: worker_step_def intro: that(4,5))
next
  case (WAdd fd)
  let ?m = "do {
      ip_port_str \<leftarrow> get_client_ip_port os fd;
      _ \<leftarrow> logs_print os LOG_INFO (''Connection accepted by thread '' @ show_int (int i) @ '' - descriptor ''
             @ show_int fd @ '' - client '' @ ip_port_str);
      return ip_port_str
    }"
  have "quiet (hist p) (snd (run_state ?m (hist p)))" by (rule quiet_traces) (intro tracing, simp_all)
  moreover have "p' = set_worker i (goto (WActive fd) ((workers p ! i)\<lparr>w_ip_port_str := fst (run_state ?m (hist p))\<rparr>))
      (p\<lparr>cq := queue_add_active_fd (cq p) fd i, hist := snd (run_state ?m (hist p))\<rparr>)"
    using assms WAdd unfolding worker_step_def Let_def by (simp only: worker_pc.case option.inject split_beta)
  ultimately show thesis using WAdd by (intro that(6)) simp_all
next
  case (WActive fd)
  obtain s ws w where "run_state (serve_client os sc fd (workers p ! i)) (hist p) = ((s, ws), w)" using prod_cases3 surj_pair by metis
  with WActive assms show thesis by (intro that(7)) (auto simp: worker_step_def)
next
  case (WDelShut fd ok)
  with assms show thesis by (intro that(8)) (auto simp: worker_step_def)
next
  case (WShut fd ok)
  let ?m = "if ok then do { _ \<leftarrow> logs_print os LOG_INFO (''Closing connection '' @ show_int fd); return () } else return ()"
  let ?w = "snd (run_state (tcp_shutdown os fd) (hist p))"
  let ?v = "snd (run_state ?m ?w)"
  have "quiet ?w ?v" by (rule quiet_traces) (intro tracing, simp_all)
  then have "accepted_fds ?v = accepted_fds (hist p)" "add_mset fd (closed_fds (hist p)) \<subseteq># closed_fds ?v"
    using quiet_tcp_shutdown [of "hist p" os fd] closed_tcp_shutdown [of os fd "hist p"] by (simp_all add: quiet_def)
  moreover have "p' = set_worker i (goto WLoop (if ok then (workers p ! i)\<lparr>w_buff_len := 0, w_last_len := 0\<rparr> else workers p ! i)) (p\<lparr>hist := ?v\<rparr>)"
    using assms WShut unfolding worker_step_def Let_def by (simp only: worker_pc.case option.inject split_beta run_bind)
  ultimately show thesis using WShut by (intro that(9)) simp_all
next
  case (WShutDel fd)
  with assms show thesis by (intro that(10)) (auto simp: worker_step_def)
next
  case (WDel fd)
  with assms show thesis by (intro that(11)) (auto simp: worker_step_def)
qed (insert assms, simp_all add: worker_step_def)

section \<open>A worker keeps the invariant\<close>

lemma worker_step_queue_ok:
  assumes "queue_ok (cq p)" "worker_step os sc i p = Some p'"
  shows "queue_ok (cq p') \<and> max_size (cq p') = max_size (cq p)"
  using assms(2)
proof (cases rule: worker_step_cases)
  case (Takes fd q)
  with queue_pop_refines [OF assms(1) Takes(2)] show ?thesis by simp
qed (insert assms(1), simp_all)

lemma worker_step_workers_ok:
  assumes "workers_ok z p" "i < length (workers p)" "worker_step os sc i p = Some p'"
  shows "workers_ok z p'"
proof -
  note ok = workers_ok_nth [OF assms(1,2)]
  from assms(3) show ?thesis
  proof (cases rule: worker_step_cases)
    case (Serves fd s ws w)
    with assms(1) serve_client_ok [OF ok Serves(2)] show ?thesis by (auto intro!: workers_ok_update split: served.splits)
  qed (insert assms(1) ok, auto intro!: workers_ok_update)
qed

lemma worker_step_table_ok:
  assumes "table_ok p" "i < length (workers p)" "worker_step os sc i p = Some p'"
  shows "table_ok p'"
proof -
  let ?f = "\<lambda>ws. active_fd (w_pc ws)"
  have t: "active_fds (cq p) = map ?f (workers p)" using assms(1) by (simp add: table_ok_def)
  have same: "map ?f ((workers p)[i := ws]) = map ?f (workers p)" if "?f ws = ?f (workers p ! i)" for ws
    using that by (metis list_update_id map_update)
  from assms(3) show ?thesis
  proof (cases rule: worker_step_cases)
    case (Takes fd q)
    with t show ?thesis by (simp add: table_ok_def same queue_pop_cases)
  next
    case (Serves fd s ws w)
    with t show ?thesis
      by (cases s) (simp_all add: table_ok_def same)
  qed (insert t, simp_all add: table_ok_def same, simp_all add: map_update)
qed

lemma queue_list_qsize: "queue_list q' = queue_list q \<Longrightarrow> qsize q' = qsize q"
  using length_queue_list [of q] length_queue_list [of q'] by simp

lemma wakeups_ok_other:
  assumes "wakeups_ok p" "i < length (workers p)" "w_pc (workers p ! i) \<noteq> WLoop" "w_pc ws \<noteq> WWait"
    and "workers p' = (workers p)[i := ws]" "qsize (cq p') = qsize (cq p)" "max_size (cq p') = max_size (cq p)"
    and "sigint p' = sigint p" "mpc p' = mpc p"
  shows "wakeups_ok p'"
proof -
  have "waiting (workers p') \<Longrightarrow> waiting (workers p)" using assms(4,5) by (auto dest: waiting_update)
  moreover have "idle (workers p) \<le> idle (workers p')" using idle_update [OF assms(2), of ws] assms(3,5) by (simp split: if_splits)
  ultimately show ?thesis using assms(1,6-9) by (auto simp: wakeups_ok_def)
qed

lemma worker_step_wakeups_ok:
  assumes ok: "wakeups_ok p" and i: "i < length (workers p)" and s: "worker_step os sc i p = Some p'"
  shows "wakeups_ok p'"
  using s
proof (cases rule: worker_step_cases)
  case (Takes fd q)
  then have "waiting (workers p') \<Longrightarrow> waiting (workers p)" by (auto dest: waiting_update)
  then show ?thesis
    using ok Takes idle_update [OF i, of "goto (WPopped fd) (workers p ! i)"] by (auto simp: wakeups_ok_def queue_pop_cases)
next
  case (Serves fd t ws w)
  then show ?thesis by (intro wakeups_ok_other [OF ok i]) (auto split: served.splits)
qed (insert ok, simp add: wakeups_ok_def, simp add: wakeups_ok_def, (rule wakeups_ok_other [OF ok i]; force)+)

lemma map_update_same: "i < length xs \<Longrightarrow> f x = f (xs ! i) \<Longrightarrow> map f (xs[i := x]) = map f xs"
  by (simp add: map_update list_update_same_conv)

section \<open>The main thread and the environment keep it\<close>

lemma signal_not_empty_Some:
  assumes "signal_not_empty v wss = Some wss'"
  shows "map (\<lambda>ws. active_fd (w_pc ws)) wss' = map (\<lambda>ws. active_fd (w_pc ws)) wss"
    and "\<forall>ws \<in> set wss. worker_inv z ws \<and> (z \<longrightarrow> \<not> crashed (w_pc ws)) \<Longrightarrow> \<forall>ws \<in> set wss'. worker_inv z ws \<and> (z \<longrightarrow> \<not> crashed (w_pc ws))"
    and "waiting wss' \<Longrightarrow> idle wss' = idle wss + 1 \<and> waiting wss"
proof -
  show "map (\<lambda>ws. active_fd (w_pc ws)) wss' = map (\<lambda>ws. active_fd (w_pc ws)) wss"
    using assms by (auto simp: signal_not_empty_def intro!: map_update_same split: option.splits if_splits)
  show "\<forall>ws \<in> set wss'. worker_inv z ws \<and> (z \<longrightarrow> \<not> crashed (w_pc ws))" if "\<forall>ws \<in> set wss. worker_inv z ws \<and> (z \<longrightarrow> \<not> crashed (w_pc ws))"
    using assms that set_update_subset_insert [of wss]
    by (fastforce simp: signal_not_empty_def split: option.splits if_splits)
  show "idle wss' = idle wss + 1 \<and> waiting wss" if "waiting wss'"
  proof (cases v)
    case None
    with assms that show ?thesis by (auto simp: signal_not_empty_def waiting_def split: if_splits)
  next
    case (Some i)
    with assms have i: "i < length wss" "w_pc (wss ! i) = WWait" and w: "wss' = wss[i := goto WLoop (wss ! i)]"
      by (auto simp: signal_not_empty_def split: if_splits)
    then show ?thesis using idle_update [OF i(1), of "goto WLoop (wss ! i)"] by (auto simp: waiting_def)
  qed
qed

lemma broadcast_simps:
  "map (\<lambda>ws. active_fd (w_pc ws)) (broadcast_not_empty wss) = map (\<lambda>ws. active_fd (w_pc ws)) wss"
  "\<not> waiting (broadcast_not_empty wss)"
  by (auto simp: broadcast_not_empty_def waiting_def)

lemma main_step_ok:
  assumes "pool_ok z p" "main_step os sc sockfd v p = Some p'"
  shows "pool_ok z p'"
proof (cases "\<exists>fd. mpc p = MPush fd")
  case True
  then obtain fd where m: "mpc p = MPush fd" by blast
  show ?thesis
  proof (cases "queue_push (cq p) fd (sigint p)")
    case (QDone q)
    with assms m obtain wss where w: "signal_not_empty v (workers p) = Some wss" and cq: "cq p' = q" and
      p': "workers p' = wss" "mpc p' = MAccept" "sigint p' = sigint p"
      by (auto simp: main_step_def split: option.splits)
    note sg = signal_not_empty_Some [OF w]
    have ok: "queue_ok q" "queue_list q = queue_list (cq p) @ [fd]" "active_fds q = active_fds (cq p)"
      using queue_push_refines [OF _ QDone] assms(1) by (simp_all add: pool_ok_def)
    have "qsize q = qsize (cq p) + 1" using QDone by (simp add: queue_push_cases)
    with assms(1) sg(3) p' cq have "wakeups_ok p'" by (auto simp: pool_ok_def wakeups_ok_def)
    moreover have "workers_ok z p'" using sg(2) assms(1) unfolding pool_ok_def workers_ok_def p'(1) by blast
    moreover have "table_ok p'" using assms(1) unfolding pool_ok_def table_ok_def p'(1) cq ok(3) sg(1) by blast
    ultimately show ?thesis using ok(1) cq by (simp add: pool_ok_def)
  next
    case QWait
    then have "qsize (cq p) = max_size (cq p)" by (simp add: queue_push_cases)
    with QWait assms m show ?thesis by (auto simp: main_step_def Let_def pool_ok_def table_ok_def wakeups_ok_def)
  next
    case QInterrupted
    with assms m show ?thesis by (auto simp: main_step_def Let_def pool_ok_def table_ok_def wakeups_ok_def workers_ok_def)
  qed
next
  case False
  show ?thesis
  proof (cases "mpc p = MShutdown")
    case True
    let ?wss = "broadcast_not_empty (workers p)"
    have p': "workers p' = ?wss" "cq p' = cq p" "mpc p' = MJoin 0" using assms(2) True by (auto simp: main_step_def)
    have "workers_ok z p'" using assms(1) p'(1) by (auto simp: pool_ok_def workers_ok_def broadcast_not_empty_def)
    then show ?thesis using assms(1) p' broadcast_simps by (simp add: pool_ok_def table_ok_def wakeups_ok_def)
  next
    case other: False
    have "workers p' = workers p \<and> cq p' = cq p \<and> sigint p' = sigint p \<and> (\<forall>fd. mpc p' \<noteq> MPushWait fd)"
      using assms(2) False other
      by (cases "mpc p") (auto simp: main_step_def Let_def split_beta split: if_splits option.splits)
    with assms(1) show ?thesis by (simp add: pool_ok_def workers_ok_def table_ok_def wakeups_ok_def)
  qed
qed

lemma pool_env_ok:
  assumes "pool_ok z p" "pool_env p p'"
  shows "pool_ok z p'"
  using assms(2)
proof (cases rule: pool_env.cases)
  case (spurious_worker i)
  have "table_ok p'"
    using assms(1) spurious_worker map_update_same [OF spurious_worker(2), of "\<lambda>ws. active_fd (w_pc ws)"]
    by (simp add: pool_ok_def table_ok_def)
  moreover have "workers_ok z p'"
    using assms(1) spurious_worker by (auto simp: pool_ok_def intro!: workers_ok_update workers_ok_nth)
  moreover have "wakeups_ok p'"
    using assms(1) spurious_worker idle_update [OF spurious_worker(2), of "goto WLoop (workers p ! i)"]
    by (auto simp: pool_ok_def wakeups_ok_def dest: waiting_update)
  ultimately show ?thesis using assms(1) spurious_worker by (simp add: pool_ok_def)
qed (insert assms(1), auto simp: pool_ok_def workers_ok_def table_ok_def wakeups_ok_def)

lemma pool_step_ok:
  assumes "pool_ok z p" "pool_step os sc sockfd p p'"
  shows "pool_ok z p'"
  using assms(2)
proof (cases rule: pool_step.cases)
  case (worker i)
  with assms(1) show ?thesis
    using worker_step_queue_ok worker_step_workers_ok worker_step_table_ok worker_step_wakeups_ok by (auto simp: pool_ok_def)
next
  case (main v)
  with assms(1) show ?thesis by (rule main_step_ok)
qed

lemma pool_run_ok: "pool_run os sc sockfd p0 p \<Longrightarrow> pool_ok z p0 \<Longrightarrow> pool_ok z p"
  by (induction rule: pool_run.induct) (auto intro: pool_step_ok pool_env_ok)

section \<open>Where each connection is\<close>

definition conns :: "world \<Rightarrow> int multiset" where
  "conns w = filter_mset (\<lambda>fd. 0 \<le> fd) (accepted_fds w)"

definition main_fds :: "main_pc \<Rightarrow> int multiset" where
  "main_fds m = (case m of MPush fd \<Rightarrow> {#fd#} | MPushWait fd \<Rightarrow> {#fd#} | _ \<Rightarrow> {#})"

definition held :: "worker_pc \<Rightarrow> int multiset" where
  "held l = (case l of WPopped fd \<Rightarrow> {#fd#} | WAdd fd \<Rightarrow> {#fd#} | WCrash fd \<Rightarrow> {#fd#} | WActive fd \<Rightarrow> {#fd#} | WDelShut fd _ \<Rightarrow> {#fd#} | WShut fd _ \<Rightarrow> {#fd#}
     | WShutDel fd \<Rightarrow> {#fd#} | _ \<Rightarrow> {#})"

definition pending :: "pool \<Rightarrow> int multiset" where
  "pending p = mset (queue_list (cq p)) + main_fds (mpc p) + sum_list (map (\<lambda>ws. held (w_pc ws)) (workers p))"

text \<open>
  Every accepted connection is with the main thread, in the queue, with a worker, or gone; until
  the signal arrives, a connection that is gone was closed.
\<close>

definition settled :: "pool \<Rightarrow> bool" where
  "settled p \<longleftrightarrow> (\<exists>gone. conns (hist p) = pending p + gone \<and> (\<not> sigint p \<longrightarrow> gone \<subseteq># closed_fds (hist p)))"

lemma main_fds_simps [simp]:
  "main_fds MAccept = {#}" "main_fds (MPush fd) = {#fd#}" "main_fds (MPushWait fd) = {#fd#}" "main_fds MShutdown = {#}"
  "main_fds MAccepting = {#}" "main_fds (MJoinShut i fd) = {#}" "main_fds (MJoin i) = {#}" "main_fds (MJoinWait i) = {#}" "main_fds MClose = {#}" "main_fds (MExit r) = {#}"
  "main_fds (signal_not_full m) = main_fds m"
  by (simp_all add: main_fds_def signal_not_full_def split: main_pc.split)

lemma held_simps [simp]:
  "held WLoop = {#}" "held WWait = {#}" "held WExit = {#}" "held (WPopped fd) = {#fd#}" "held (WActive fd) = {#fd#}"
  "held (WDelShut fd ok) = {#fd#}" "held (WShut fd ok) = {#fd#}" "held (WShutDel fd) = {#fd#}" "held (WDel fd) = {#}"
  "held (WAdd fd) = {#fd#}" "held (WCrash fd) = {#fd#}"
  by (simp_all add: held_def)

lemma held_update:
  "i < length wss \<Longrightarrow> sum_list (map (\<lambda>ws. held (w_pc ws)) (wss[i := ws])) + held (w_pc (wss ! i))
     = sum_list (map (\<lambda>ws. held (w_pc ws)) wss) + held (w_pc ws)"
  by (rule sum_map_update)

lemma settled_same:
  assumes "settled p" "pending p' = pending p" "quiet (hist p) (hist p')" "sigint p \<Longrightarrow> sigint p'"
  shows "settled p'"
proof -
  obtain gone where "conns (hist p) = pending p + gone" "\<not> sigint p \<longrightarrow> gone \<subseteq># closed_fds (hist p)"
    using assms(1) by (auto simp: settled_def)
  with assms(2-4) show ?thesis
    unfolding settled_def quiet_def conns_def by (intro exI [of _ gone]) (auto intro: subset_mset.order_trans)
qed

lemma settled_less:
  assumes "settled p" "pending p = add_mset fd (pending p')" "accepted_fds (hist p') = accepted_fds (hist p)" "sigint p \<Longrightarrow> sigint p'"
    and "\<not> sigint p' \<Longrightarrow> add_mset fd (closed_fds (hist p)) \<subseteq># closed_fds (hist p')"
  shows "settled p'"
proof -
  obtain gone where g: "conns (hist p) = pending p + gone" "\<not> sigint p \<longrightarrow> gone \<subseteq># closed_fds (hist p)"
    using assms(1) by (auto simp: settled_def)
  have "add_mset fd gone \<subseteq># closed_fds (hist p')" if "\<not> sigint p'"
  proof -
    have "gone \<subseteq># closed_fds (hist p)" using g(2) that assms(4) by blast
    then have "add_mset fd gone \<subseteq># add_mset fd (closed_fds (hist p))" by simp
    then show ?thesis using assms(5) [OF that] by (rule subset_mset.order_trans)
  qed
  moreover have "conns (hist p') = pending p' + add_mset fd gone" using g(1) assms(2,3) by (simp add: conns_def)
  ultimately show ?thesis unfolding settled_def by blast
qed

lemma pending_set_worker:
  assumes "i < length (workers p)" "mset (queue_list q) + held (w_pc ws) = mset (queue_list (cq p)) + held (w_pc (workers p ! i))"
    and "main_fds m = main_fds (mpc p)"
  shows "pending (set_worker i ws (p\<lparr>cq := q, mpc := m, hist := w\<rparr>)) = pending p"
proof -
  let ?h = "\<lambda>wss. sum_list (map (\<lambda>ws. held (w_pc ws)) wss)"
  let ?a = "held (w_pc (workers p ! i))" and ?b = "held (w_pc ws)"
  have "(mset (queue_list q) + ?h ((workers p)[i := ws])) + (?a + ?b) = (mset (queue_list q) + ?b) + (?h ((workers p)[i := ws]) + ?a)"
    by (simp only: ac_simps)
  also have "\<dots> = (mset (queue_list (cq p)) + ?a) + (?h (workers p) + ?b)"
    by (simp only: assms(2) held_update [OF assms(1)])
  also have "\<dots> = (mset (queue_list (cq p)) + ?h (workers p)) + (?a + ?b)"
    by (simp only: ac_simps)
  finally have "mset (queue_list q) + ?h ((workers p)[i := ws]) = mset (queue_list (cq p)) + ?h (workers p)"
    by (rule add_right_imp_eq)
  moreover have "(mset (queue_list q) + main_fds m) + ?h ((workers p)[i := ws]) = (mset (queue_list q) + ?h ((workers p)[i := ws])) + main_fds m"
    by (simp only: ac_simps)
  ultimately show ?thesis by (simp add: pending_def assms(3) ac_simps)
qed

lemma pending_release:
  assumes "i < length (workers p)" "held (w_pc ws) = {#}" "held (w_pc (workers p ! i)) = {#fd#}"
  shows "pending p = add_mset fd (pending (set_worker i ws (p\<lparr>hist := w\<rparr>)))"
  using held_update [OF assms(1), of ws] assms(2,3) by (simp add: pending_def)

lemmas pending_worker = pending_set_worker [where q = "cq p" and m = "mpc p" and p = p for p, simplified]

lemma pending_keep:
  assumes "i < length (workers p)" "held (w_pc ws) = held (w_pc (workers p ! i))"
  shows "pending (set_worker i ws p) = pending p"
  using held_update [OF assms(1), of ws] by (simp add: pending_def assms(2))

lemma worker_step_settled:
  assumes st: "settled p" and ok: "queue_ok (cq p)" and i: "i < length (workers p)" and s: "worker_step os sc i p = Some p'"
  shows "settled p'"
  using s
proof (cases rule: worker_step_cases)
  case (Takes fd q)
  have "pending p' = pending p"
    using queue_pop_refines [OF ok Takes(2)] Takes(1)
      pending_set_worker [OF i, of q "goto (WPopped fd) (workers p ! i)" "signal_not_full (mpc p)" "hist p"] by (simp add: Takes(3))
  then show ?thesis using Takes(3) by (intro settled_same [OF st]) simp_all
next
  case (Serves fd t ws w)
  have q: "quiet (hist p) w" using quiet_serve [of "hist p" os sc fd "workers p ! i"] Serves(2) by simp
  with Serves show ?thesis by (intro settled_same [OF st]) (auto intro!: pending_worker [OF i] split: served.split)
next
  case (Registers fd t w)
  then show ?thesis
    using pending_set_worker [OF i, of "queue_add_active_fd (cq p) fd i" "goto (WActive fd) ((workers p ! i)\<lparr>w_ip_port_str := t\<rparr>)" "mpc p" w]
    by (intro settled_same [OF st]) simp_all
next
  case (Deregisters fd b)
  then show ?thesis
    using pending_set_worker [OF i, of "queue_del_active_fd (cq p) i" "goto (WShut fd b) (workers p ! i)" "mpc p" "hist p"]
    by (intro settled_same [OF st]) simp_all
next
  case (DeregistersLast fd)
  then show ?thesis
    using pending_set_worker [OF i, of "queue_del_active_fd (cq p) i" "goto WLoop (workers p ! i)" "mpc p" "hist p"]
    by (intro settled_same [OF st]) simp_all
next
  case (Abandons fd)
  then show ?thesis
    using pending_release [OF i, of "goto WExit (workers p ! i)" fd "hist p"] by (intro settled_less [OF st]) simp_all
next
  case (Closes fd b w)
  show ?thesis
    unfolding Closes(4) by (rule settled_less [OF st pending_release [OF i, of _ fd w]]) (insert Closes(1-3), simp_all)
next
  case (ClosesFirst fd)
  show ?thesis
    unfolding ClosesFirst(2)
    by (rule settled_less [OF st pending_release [OF i, of _ fd]])
       (insert ClosesFirst(1) quiet_tcp_shutdown [of "hist p" os fd] closed_tcp_shutdown [of os fd "hist p"], simp_all add: quiet_def)
next
  case Blocks
  then show ?thesis by (intro settled_same [OF st]) (simp_all add: pending_keep [OF i])
next
  case Leaves
  then show ?thesis by (intro settled_same [OF st]) (simp_all add: pending_keep [OF i])
next
  case (Passes fd)
  then show ?thesis by (intro settled_same [OF st]) (simp_all add: pending_keep [OF i])
qed

lemma accept_step_run:
  assumes "run_state (accept_step os sc sockfd) w = (r, w')"
  shows "conns w' = conns w + (case r of None \<Rightarrow> {#} | Some fd \<Rightarrow> {#fd#}) \<and> closed_fds w \<subseteq># closed_fds w'"
proof -
  let ?fd = "os_accept os w sockfd" and ?v = "w @ [Accept (os_accept os w sockfd)]"
  show ?thesis
  proof (cases "?fd < 0")
    case True
    let ?m = "do { err \<leftarrow> sys_errno os; if err = EINTR then return None else do {
         _ \<leftarrow> logs_print os LOG_ERROR (''Error accepting connection: '' @ os_strerror os err); return None } }"
    have "quiet ?v (snd (run_state ?m ?v))" by (rule quiet_traces) (intro tracing, simp_all)
    moreover have "r = None" "w' = snd (run_state ?m ?v)"
      using assms True by (auto simp: accept_step_def tcp_accept_connection_def sys_accept_def sys_errno_def split: if_splits)
    ultimately show ?thesis using True by (auto simp: quiet_def conns_def event_closes_def)
  next
    case False
    let ?m = "do { _ \<leftarrow> (if timeout_ms sc div 1000 \<noteq> 0 \<or> timeout_ms sc mod 1000 * 1000 \<noteq> 0 then sys_setsockopt os ?fd else return 0);
        _ \<leftarrow> get_client_ip_port os ?fd; return (Some ?fd) }"
    have "quiet ?v (snd (run_state ?m ?v))" by (rule quiet_traces) (intro tracing, simp_all)
    moreover have "r = Some ?fd" "w' = snd (run_state ?m ?v)"
      using assms False by (auto simp: accept_step_def tcp_accept_connection_def sys_accept_def)
    ultimately show ?thesis using False by (auto simp: quiet_def conns_def event_closes_def)
  qed
qed

lemma held_signal: "signal_not_empty v wss = Some wss' \<Longrightarrow> map (\<lambda>ws. held (w_pc ws)) wss' = map (\<lambda>ws. held (w_pc ws)) wss"
  by (auto simp: signal_not_empty_def intro!: map_update_same split: option.splits if_splits)

lemma held_broadcast: "map (\<lambda>ws. held (w_pc ws)) (broadcast_not_empty wss) = map (\<lambda>ws. held (w_pc ws)) wss"
  by (simp add: broadcast_not_empty_def)

lemma main_step_settled:
  assumes st: "settled p" and ok: "queue_ok (cq p)" and s: "main_step os sc sockfd v p = Some p'"
  shows "settled p'"
proof (cases "mpc p")
  case MAccept
  with s show ?thesis by (intro settled_same [OF st]) (auto simp: main_step_def pending_def)
next
  case MAccepting
  obtain r w where r: "run_state (accept_step os sc sockfd) (hist p) = (r, w)" by fastforce
  have p': "p' = p\<lparr>mpc := (case r of None \<Rightarrow> MShutdown | Some fd \<Rightarrow> MPush fd), hist := w\<rparr>"
    using s MAccepting by (simp add: main_step_def r)
  have pe: "pending p' = pending p + (case r of None \<Rightarrow> {#} | Some fd \<Rightarrow> {#fd#})"
    by (simp add: p' pending_def MAccepting split: option.split)
  obtain gone where g: "conns (hist p) = pending p + gone" "\<not> sigint p \<longrightarrow> gone \<subseteq># closed_fds (hist p)"
    using st by (auto simp: settled_def)
  have "conns w = pending p' + gone" "\<not> sigint p \<longrightarrow> gone \<subseteq># closed_fds w"
    using accept_step_run [OF r] g pe by (auto simp: ac_simps intro: subset_mset.order_trans)
  then show ?thesis unfolding settled_def p' by auto
next
  case (MPush fd)
  have l: "quiet (hist p) (snd (run_state (logs_print os LOG_INFO (''New connection added to queue: descriptor '' @ show_int fd)) (hist p)))"
    by (rule quiet_logs)
  show ?thesis
  proof (cases "queue_push (cq p) fd (sigint p)")
    case QWait
    with MPush s show ?thesis by (intro settled_same [OF st]) (auto simp: main_step_def Let_def pending_def)
  next
    case QInterrupted
    then have "sigint p" by (simp add: queue_push_cases)
    with QInterrupted MPush s l show ?thesis
      by (intro settled_less [OF st, of fd]) (auto simp: main_step_def Let_def pending_def quiet_def)
  next
    case (QDone q)
    then obtain wss where w: "signal_not_empty v (workers p) = Some wss" using s MPush by (cases "signal_not_empty v (workers p)") (auto simp: main_step_def Let_def)
    have "queue_list q = queue_list (cq p) @ [fd]" using queue_push_refines [OF ok QDone] by simp
    with QDone MPush s w l held_signal [OF w] show ?thesis
      by (intro settled_same [OF st]) (auto simp: main_step_def Let_def pending_def)
  qed
next
  case MShutdown
  with s quiet_logs held_broadcast show ?thesis by (intro settled_same [OF st]) (auto simp: main_step_def pending_def)
next
  case (MJoin i)
  with s show ?thesis by (intro settled_same [OF st]) (auto simp: main_step_def pending_def Let_def split: if_splits)
next
  case (MJoinShut i fd)
  with s quiet_tcp_shutdown show ?thesis by (intro settled_same [OF st]) (auto simp: main_step_def pending_def)
next
  case (MJoinWait i)
  with s show ?thesis by (intro settled_same [OF st]) (auto simp: main_step_def pending_def split: if_splits)
next
  case MClose
  with s quiet_tcp_shutdown [of "hist p" os sockfd] show ?thesis
    by (intro settled_same [OF st]) (auto simp: main_step_def pending_def split_beta)
qed (insert s, simp_all add: main_step_def)

lemma pool_env_settled:
  assumes "settled p" "pool_env p p'"
  shows "settled p'"
  using assms(2)
proof (cases rule: pool_env.cases)
  case interrupt
  then show ?thesis by (intro settled_same [OF assms(1)]) (simp_all add: pending_def)
next
  case (spurious_worker i)
  then show ?thesis by (intro settled_same [OF assms(1)]) (simp_all add: pending_keep)
next
  case (spurious_main fd)
  then show ?thesis by (intro settled_same [OF assms(1)]) (simp_all add: pending_def)
qed

lemma pool_run_settled:
  assumes "pool_run os sc sockfd p0 p" "pool_ok z p0" "settled p0"
  shows "pool_ok z p \<and> settled p"
  using assms
proof (induction rule: pool_run.induct)
  case (step p p')
  then have "settled p'"
    by (auto elim!: pool_step.cases intro: worker_step_settled main_step_settled simp: pool_ok_def)
  with step show ?case by (auto intro: pool_step_ok)
qed (auto intro: pool_env_ok pool_env_settled)

end
