(* ===== verification/PoolShutdown.thy ===== *)
theory PoolShutdown
  imports PoolProps
begin

text \<open>
  Starting and stopping the pool: the state \<^verbatim>\<open>main\<close> sets up satisfies the invariant, before the
  signal a queued connection can always be taken, and after it the pool comes to an end, except
  in the two situations in which it cannot.
\<close>

section \<open>Starting\<close>

text \<open>
  What a thread finds on its stack: two arrays of their declared sizes. Nothing more can be said of it, the request is
  not initialised; with \<open>z\<close> its padding behind the number of headers is assumed to be zero.
\<close>

definition frame_inv :: "bool \<Rightarrow> bytes \<times> http_request \<times> int \<Rightarrow> bool" where
  "frame_inv z frame = (case frame of (buff, request, at) \<Rightarrow> length buff = MAX_BUFFR
     \<and> length (rq_headers request) = MAX_HEADERS \<and> (z \<longrightarrow> rq_num_headers_pad request = 0))"

abbreviation frame_sized :: "bytes \<times> http_request \<times> int \<Rightarrow> bool" where
  "frame_sized \<equiv> frame_inv False"

abbreviation frame_zeroed :: "bytes \<times> http_request \<times> int \<Rightarrow> bool" where
  "frame_zeroed \<equiv> frame_inv True"

lemma new_worker_ok: "frame_inv z frame \<Longrightarrow> worker_inv z (new_worker frame) \<and> w_pc (new_worker frame) = WLoop"
  by (auto simp: frame_inv_def new_worker_def worker_inv_def split: prod.splits)

lemma frame_zeroed_sized: "frame_zeroed frame \<Longrightarrow> frame_sized frame"
  by (auto simp: frame_inv_def split: prod.splits)

lemma new_worker_pc [simp]: "w_pc (new_worker frame) = WLoop"
  by (simp add: new_worker_def split: prod.split)

lemma quiet_start: "quiet w (snd (run_state (tcp_start_connection os n port k) w))"
  by (rule quiet_traces) (unfold tcp_start_connection_def, intro tracing, simp_all add: event_accepts_def)

definition fresh_pool :: "bool \<Rightarrow> pool \<Rightarrow> bool" where
  "fresh_pool z p \<longleftrightarrow> pool_ok z p \<and> pending p = {#} \<and> \<not> sigint p \<and> mpc p = MAccept \<and> (\<forall>ws \<in> set (workers p). w_pc ws = WLoop)"

lemma pool_init_fresh:
  assumes "\<forall>i. frame_inv z (frames i)" and "0 < queue_size sc"
    and "run_state (pool_init os sc alloc create frames) w = (Inr (sockfd, p), w')"
  shows "fresh_pool z p \<and> length (workers p) = nat (pool_size sc) \<and> accepted_fds (hist p) = accepted_fds w"
proof -
  obtain q where q: "queue_create alloc (nat (pool_size sc)) (nat (queue_size sc)) = Some q" "0 \<le> pool_size sc"
    using assms(3) by (auto simp: pool_init_def split: option.splits if_splits)
  let ?v = "snd (run_state (tcp_start_connection os False (listen_port sc) (backlog sc)) w)"
  have p: "cq p = q" "workers p = map (\<lambda>i. new_worker (frames i)) [0..<nat (pool_size sc)]" "mpc p = MAccept" "\<not> sigint p"
    and h: "hist p = snd (run_state (logs_print os LOG_INFO (''Server initialized in port '' @ show_int (listen_port sc))) ?v)"
    using assms(3) q by (auto simp: pool_init_def split_beta split: if_splits)
  have "accepted_fds (hist p) = accepted_fds w"
    unfolding h using quiet_logs [of ?v os] quiet_start [of w os False] by (simp add: quiet_def)
  moreover have "queue_ok q" "queue_list q = []" "active_fds q = replicate (nat (pool_size sc)) 0"
    using queue_create_ok [OF q(1)] assms(2) by auto
  moreover have "waiting (workers p) = False" by (simp add: waiting_def p(2))
  moreover have "sum_list (replicate n {#}) = ({#} :: int multiset)" for n by (induction n) simp_all
  ultimately show ?thesis
    using new_worker_ok assms(1) p
    by (simp add: fresh_pool_def pool_ok_def workers_ok_def table_ok_def wakeups_ok_def pending_def comp_def map_replicate_const)
qed

lemma fresh_pool_settled: "fresh_pool z p \<Longrightarrow> accepted_fds (hist p) = {#} \<Longrightarrow> settled p"
  by (simp add: fresh_pool_def settled_def conns_def)

lemma worker_step_length: "worker_step os sc i p = Some p' \<Longrightarrow> length (workers p') = length (workers p)"
  by (auto elim: worker_step_cases)

lemma main_step_length: "main_step os sc sockfd v p = Some p' \<Longrightarrow> length (workers p') = length (workers p)"
  by (cases "mpc p")
     (auto simp: main_step_def Let_def split_beta signal_not_empty_def broadcast_not_empty_def split: if_splits option.splits qres.splits)

lemma pool_run_length: "pool_run os sc sockfd p0 p \<Longrightarrow> length (workers p) = length (workers p0)"
  by (induction rule: pool_run.induct)
     (auto elim!: pool_step.cases pool_env.cases simp: worker_step_length main_step_length)

section \<open>Before the signal\<close>

text \<open>A worker only returns after the signal.\<close>

definition exits_ok :: "pool \<Rightarrow> bool" where
  "exits_ok p \<longleftrightarrow> sigint p \<or> (\<forall>ws \<in> set (workers p). w_pc ws \<noteq> WExit)"

lemma exits_ok_update: "exits_ok p \<Longrightarrow> w_pc ws \<noteq> WExit \<Longrightarrow> workers p' = (workers p)[i := ws] \<Longrightarrow> sigint p' = sigint p \<Longrightarrow> exits_ok p'"
  using set_update_subset_insert [of "workers p" i ws] by (auto simp: exits_ok_def)

lemma worker_step_sigint: "worker_step os sc i p = Some p' \<Longrightarrow> sigint p' = sigint p"
  by (auto elim: worker_step_cases)

lemma main_step_sigint: "main_step os sc sockfd v p = Some p' \<Longrightarrow> sigint p' = sigint p"
  by (cases "mpc p") (auto simp: main_step_def Let_def split_beta split: if_splits option.splits qres.splits)

lemma worker_step_exits_ok:
  assumes "exits_ok p" "worker_step os sc i p = Some p'"
  shows "exits_ok p'"
  using assms(2)
proof (cases rule: worker_step_cases)
  case (Serves fd s ws w)
  then show ?thesis by (intro exits_ok_update [OF assms(1)]) (auto split: served.splits)
next
  case (Closes fd ok w)
  then show ?thesis by (intro exits_ok_update [OF assms(1)]) (auto split: if_splits)
next
  case Leaves
  then show ?thesis by (simp add: exits_ok_def)
next
  case (Abandons fd)
  then show ?thesis by (simp add: exits_ok_def)
qed (rule exits_ok_update [OF assms(1)]; simp)+

lemma main_step_workers:
  assumes "main_step os sc sockfd v p = Some p'"
  shows "workers p' = workers p \<or> signal_not_empty v (workers p) = Some (workers p') \<or> workers p' = broadcast_not_empty (workers p)"
  using assms by (cases "mpc p") (auto simp: main_step_def Let_def split_beta split: if_splits option.splits qres.splits)

lemma signal_pcs: "signal_not_empty v wss = Some wss' \<Longrightarrow> ws \<in> set wss' \<Longrightarrow> w_pc ws = WLoop \<or> ws \<in> set wss"
  by (auto simp: signal_not_empty_def split: option.splits if_splits dest!: set_update_subset_insert [THEN subsetD])

lemma broadcast_pcs: "ws \<in> set (broadcast_not_empty wss) \<Longrightarrow> w_pc ws = WLoop \<or> ws \<in> set wss"
  by (auto simp: broadcast_not_empty_def)

lemma main_step_exits_ok:
  assumes "exits_ok p" "main_step os sc sockfd v p = Some p'"
  shows "exits_ok p'"
proof -
  have "w_pc ws \<noteq> WExit" if "ws \<in> set (workers p')" "\<forall>ws \<in> set (workers p). w_pc ws \<noteq> WExit" for ws
    using main_step_workers [OF assms(2)] that signal_pcs broadcast_pcs worker_pc.distinct by metis
  with assms(1) main_step_sigint [OF assms(2)] show ?thesis by (auto simp: exits_ok_def)
qed

lemma pool_env_exits_ok: "exits_ok p \<Longrightarrow> pool_env p p' \<Longrightarrow> exits_ok p'"
  by (erule pool_env.cases) (auto simp: exits_ok_def dest!: set_update_subset_insert [THEN subsetD])

lemma pool_run_exits_ok: "pool_run os sc sockfd p0 p \<Longrightarrow> exits_ok p0 \<Longrightarrow> exits_ok p"
  by (induction rule: pool_run.induct)
     (auto elim!: pool_step.cases intro: worker_step_exits_ok main_step_exits_ok pool_env_exits_ok)

lemma worker_can_step:
  "w_pc (workers p ! i) \<noteq> WWait \<Longrightarrow> w_pc (workers p ! i) \<noteq> WExit \<Longrightarrow> \<not> crashed (w_pc (workers p ! i)) \<Longrightarrow> \<exists>p'. worker_step os sc i p = Some p'"
  by (cases "w_pc (workers p ! i)") (auto simp: worker_step_def Let_def split_beta split: qres.split)

lemma idle_positive: "0 < idle wss \<Longrightarrow> \<exists>i < length wss. w_pc (wss ! i) = WLoop"
proof (induction wss)
  case (Cons ws wss)
  then show ?case by (cases "w_pc ws = WLoop") (auto simp: idle_def intro: exI [of _ 0] exI [of _ "Suc _"])
qed (simp add: idle_def)

text \<open>
  With a connection in the queue, some worker can take a step unless all have crashed: a waiting worker has a colleague
  on its way to the queue.
\<close>

lemma queued_can_step:
  assumes ok: "pool_ok z p" "exits_ok p" "\<not> sigint p" and q: "0 < qsize (cq p)" and n: "ws \<in> set (workers p)" "\<not> crashed (w_pc ws)"
  shows "\<exists>i < length (workers p). \<exists>p'. worker_step os sc i p = Some p'"
proof (cases "waiting (workers p)")
  case True
  with ok q have "0 < idle (workers p)" by (auto simp: pool_ok_def wakeups_ok_def)
  then obtain i where "i < length (workers p)" "w_pc (workers p ! i) = WLoop" using idle_positive by blast
  with worker_can_step [of p i os sc] show ?thesis by auto
next
  case False
  obtain i where i: "i < length (workers p)" "workers p ! i = ws" using n(1) by (auto simp: in_set_conv_nth)
  have "w_pc ws \<noteq> WWait" "w_pc ws \<noteq> WExit" using False ok n(1) by (auto simp: waiting_def exits_ok_def)
  with worker_can_step [of p i os sc] i n(2) show ?thesis by blast
qed

section \<open>After the signal\<close>

definition joined :: "pool \<Rightarrow> nat" where
  "joined p = (case mpc p of MJoin i \<Rightarrow> i | MJoinShut i _ \<Rightarrow> i | MJoinWait i \<Rightarrow> i | MClose \<Rightarrow> length (workers p) | MExit _ \<Rightarrow> length (workers p) | _ \<Rightarrow> 0)"

text \<open>
  The pool is going down: the signal has arrived, the main thread does not wait for the queue,
  and once it is behind the broadcast no worker waits; the workers it has joined have returned.
\<close>

definition down :: "bool \<Rightarrow> pool \<Rightarrow> bool" where
  "down z p \<longleftrightarrow> pool_ok z p \<and> sigint p \<and> (\<forall>fd. mpc p \<noteq> MPushWait fd)
     \<and> (\<forall>i. mpc p = MJoinWait i \<or> (\<exists>fd. mpc p = MJoinShut i fd) \<longrightarrow> i < length (workers p))
     \<and> joined p \<le> length (workers p) \<and> (\<forall>j < joined p. w_pc (workers p ! j) = WExit)
     \<and> (waiting (workers p) \<longrightarrow> mpc p = MAccept \<or> mpc p = MAccepting \<or> (\<exists>fd. mpc p = MPush fd) \<or> mpc p = MShutdown)"

definition worker_rank :: "worker_pc \<Rightarrow> nat" where
  "worker_rank l = (case l of WExit \<Rightarrow> 0 | WCrash _ \<Rightarrow> 0 | WLoop \<Rightarrow> 1 | WPopped _ \<Rightarrow> 1 | WWait \<Rightarrow> 2 | WDel _ \<Rightarrow> 2 | WShut _ _ \<Rightarrow> 2
     | WShutDel _ \<Rightarrow> 3 | WDelShut _ _ \<Rightarrow> 3 | WActive _ \<Rightarrow> 4 | WAdd _ \<Rightarrow> 5)"

definition main_rank :: "nat \<Rightarrow> main_pc \<Rightarrow> nat" where
  "main_rank n m = (case m of MExit _ \<Rightarrow> 0 | MClose \<Rightarrow> 1 | MJoin i \<Rightarrow> 3 * (n - i) + 2 | MJoinShut i _ \<Rightarrow> 3 * (n - i) + 1
     | MJoinWait i \<Rightarrow> 3 * (n - i) | MShutdown \<Rightarrow> 3 * n + 3 | MAccept \<Rightarrow> 3 * n + 4 | MPush _ \<Rightarrow> 3 * n + 5 | MAccepting \<Rightarrow> 3 * n + 6
     | MPushWait _ \<Rightarrow> 0)"

text \<open>How many steps the pool can still take.\<close>

definition rank :: "pool \<Rightarrow> nat" where
  "rank p = main_rank (length (workers p)) (mpc p) + sum_list (map (\<lambda>ws. worker_rank (w_pc ws)) (workers p))"

lemma worker_rank_simps [simp]:
  "worker_rank WExit = 0" "worker_rank WLoop = 1" "worker_rank (WPopped fd) = 1" "worker_rank WWait = 2" "worker_rank (WDel fd) = 2"
  "worker_rank (WShut fd ok) = 2" "worker_rank (WShutDel fd) = 3" "worker_rank (WDelShut fd ok) = 3" "worker_rank (WActive fd) = 4"
  "worker_rank (WCrash fd) = 0" "worker_rank (WAdd fd) = 5"
  by (simp_all add: worker_rank_def)

lemma down_worker_step:
  assumes d: "down z p" and i: "i < length (workers p)" and s: "worker_step os sc i p = Some p'"
  shows "workers p' = (workers p)[i := workers p' ! i] \<and> mpc p' = mpc p \<and> w_pc (workers p' ! i) \<noteq> WWait
    \<and> w_pc (workers p ! i) \<noteq> WExit \<and> worker_rank (w_pc (workers p' ! i)) < worker_rank (w_pc (workers p ! i))"
  using s
proof (cases rule: worker_step_cases)
  case (Takes fd q)
  with d show ?thesis by (simp add: down_def queue_pop_cases)
next
  case (Serves fd t ws w)
  with i show ?thesis by (cases t) simp_all
qed (insert d i, auto simp: down_def)

lemma down_worker:
  assumes d: "down z p" and i: "i < length (workers p)" and s: "worker_step os sc i p = Some p'"
  shows "down z p' \<and> rank p' < rank p"
proof -
  obtain ws where ws: "workers p' = (workers p)[i := ws]" "mpc p' = mpc p" "w_pc ws \<noteq> WWait" "w_pc (workers p ! i) \<noteq> WExit"
    "worker_rank (w_pc ws) < worker_rank (w_pc (workers p ! i))" using down_worker_step [OF assms] by blast
  have r: "rank p' < rank p"
    using sum_map_update [OF i, of "\<lambda>ws. worker_rank (w_pc ws)" ws] ws(2,5) unfolding rank_def ws(1) by simp
  have ok: "pool_ok z p'" using d i s by (auto simp: down_def intro: pool_step_ok pool_step.worker)
  have l: "length (workers p') = length (workers p)" by (subst ws(1)) simp
  have j: "joined p' = joined p" by (simp add: joined_def ws(2) l split: main_pc.split)
  have "\<not> i < joined p" using d ws(4) unfolding down_def by blast
  then have "\<forall>k < joined p'. w_pc (workers p' ! k) = WExit" using d by (subst ws(1)) (auto simp: j down_def)
  moreover have "waiting (workers p') \<Longrightarrow> waiting (workers p)" using ws(1,3) by (auto dest: waiting_update)
  ultimately show ?thesis
    using d ok r worker_step_sigint [OF s] by (auto simp: down_def j l ws(2))
qed

lemma broadcast_rank:
  "sum_list (map (\<lambda>ws. worker_rank (w_pc ws)) (broadcast_not_empty wss)) \<le> sum_list (map (\<lambda>ws. worker_rank (w_pc ws)) wss)"
  by (induction wss) (auto simp: broadcast_not_empty_def)

lemma broadcast_exit: "j < length wss \<Longrightarrow> w_pc (wss ! j) = WExit \<Longrightarrow> w_pc (broadcast_not_empty wss ! j) = WExit"
  by (simp add: broadcast_not_empty_def)

lemma down_main:
  assumes d: "down z p" and s: "main_step os sc sockfd v p = Some p'"
  shows "down z p' \<and> rank p' < rank p"
proof -
  have ok: "pool_ok z p'" using d s by (auto simp: down_def intro: main_step_ok)
  have sg: "sigint p" "sigint p'" using d main_step_sigint [OF s] by (simp_all add: down_def)
  show ?thesis
  proof (cases "mpc p")
    case MAccept
    then have "p' = p\<lparr>mpc := MShutdown\<rparr>" using s sg by (simp add: main_step_def)
    with d ok MAccept show ?thesis by (simp add: down_def joined_def rank_def main_rank_def)
  next
    case MAccepting
    then obtain r w where "p' = p\<lparr>mpc := (case r of None \<Rightarrow> MShutdown | Some fd \<Rightarrow> MPush fd), hist := w\<rparr>"
      using s by (auto simp: main_step_def split_beta)
    with d ok MAccepting show ?thesis by (cases r) (simp_all add: down_def joined_def rank_def main_rank_def)
  next
    case (MPush fd)
    have "queue_push (cq p) fd (sigint p) = QInterrupted" using sg by (simp add: queue_push_cases)
    then have "workers p' = workers p" "mpc p' = MAccept" using s MPush by (auto simp: main_step_def Let_def)
    with d ok sg MPush show ?thesis by (simp add: down_def joined_def rank_def main_rank_def)
  next
    case MShutdown
    then have "workers p' = broadcast_not_empty (workers p)" "mpc p' = MJoin 0" using s by (auto simp: main_step_def)
    with d ok sg MShutdown broadcast_rank [of "workers p"] broadcast_simps(2) [of "workers p"] show ?thesis
      by (simp add: down_def joined_def rank_def main_rank_def) (simp add: broadcast_not_empty_def)
  next
    case (MJoin i)
    show ?thesis
    proof (cases "i < length (workers p)")
      case True
      then have "workers p' = workers p" "mpc p' = MJoinWait i \<or> (\<exists>fd. mpc p' = MJoinShut i fd)"
        using s MJoin by (auto simp: main_step_def Let_def split: if_splits)
      with d ok sg MJoin True show ?thesis by (auto simp: down_def joined_def rank_def main_rank_def)
    next
      case False
      then have "workers p' = workers p" "mpc p' = MClose" using s MJoin by (auto simp: main_step_def Let_def)
      with d ok sg MJoin False show ?thesis by (simp add: down_def joined_def rank_def main_rank_def)
    qed
  next
    case (MJoinShut i fd)
    then have "workers p' = workers p" "mpc p' = MJoinWait i" using s by (auto simp: main_step_def)
    with d ok sg MJoinShut show ?thesis by (simp add: down_def joined_def rank_def main_rank_def)
  next
    case (MJoinWait i)
    then have "w_pc (workers p ! i) = WExit" "workers p' = workers p" "mpc p' = MJoin (i + 1)"
      using s by (auto simp: main_step_def split: if_splits)
    with d ok sg MJoinWait show ?thesis by (auto simp: down_def joined_def rank_def main_rank_def less_Suc_eq)
  next
    case MClose
    then obtain r where "workers p' = workers p" "mpc p' = MExit r" using s by (auto simp: main_step_def split_beta)
    with d ok sg MClose show ?thesis by (simp add: down_def joined_def rank_def main_rank_def)
  qed (insert d s, simp_all add: down_def main_step_def)
qed

lemma down_step:
  assumes "down z p" "pool_step os sc sockfd p p'"
  shows "down z p' \<and> rank p' < rank p"
  using assms(2)
proof (cases rule: pool_step.cases)
  case (worker i)
  with down_worker [OF assms(1)] show ?thesis by blast
next
  case (main v)
  with down_main [OF assms(1)] show ?thesis by blast
qed

text \<open>
  No thread goes on: those that still could are in a call that may not return, the main thread in \<^verbatim>\<open>accept\<close> or a worker
  reading or answering a request.
\<close>

definition stuck :: "os \<Rightarrow> server_conf \<Rightarrow> int \<Rightarrow> pool \<Rightarrow> bool" where
  "stuck os sc sockfd p \<longleftrightarrow>
     (\<forall>i < length (workers p). \<forall>p'. worker_step os sc i p = Some p' \<longrightarrow> (\<exists>fd. w_pc (workers p ! i) = WActive fd))
     \<and> (\<forall>v p'. main_step os sc sockfd v p = Some p' \<longrightarrow> mpc p = MAccepting)"

text \<open>
  A pool that is going down goes on until the main thread and all workers have returned, or the main thread stays in
  \<^verbatim>\<open>accept\<close>, or it joins a worker that stays in its calls or has crashed.
\<close>

lemma down_stuck:
  assumes "down z p" "stuck os sc sockfd p"
  shows "(\<exists>r. mpc p = MExit r) \<and> (\<forall>ws \<in> set (workers p). w_pc ws = WExit) \<or> mpc p = MAccepting
    \<or> (\<exists>i < length (workers p). \<exists>fd. mpc p = MJoinWait i \<and> (w_pc (workers p ! i) = WActive fd \<or> \<not> z \<and> w_pc (workers p ! i) = WCrash fd))"
proof -
  have m: "mpc p \<noteq> MAccepting \<Longrightarrow> main_step os sc sockfd v p = None" for v
    using assms(2) by (cases "main_step os sc sockfd v p") (auto simp: stuck_def)
  show ?thesis
  proof (cases "mpc p")
    case (MPush fd)
    have "queue_push (cq p) fd (sigint p) = QInterrupted" using assms(1) by (simp add: queue_push_cases down_def)
    with MPush m [of None] show ?thesis by (simp add: main_step_def Let_def)
  next
    case (MJoinWait i)
    have i: "i < length (workers p)" "\<not> waiting (workers p)" "workers_ok z p" using assms(1) MJoinWait by (auto simp: down_def pool_ok_def)
    have ne: "w_pc (workers p ! i) \<noteq> WWait" "w_pc (workers p ! i) \<noteq> WExit" "z \<Longrightarrow> \<not> crashed (w_pc (workers p ! i))"
      using i m [of None] MJoinWait by (auto simp: main_step_def waiting_def workers_ok_def split: if_splits)
    show ?thesis
    proof (cases "crashed (w_pc (workers p ! i))")
      case True
      with MJoinWait i ne(3) show ?thesis by (auto simp: crashed_def)
    next
      case False
      obtain p' where "worker_step os sc i p = Some p'" using worker_can_step [OF ne(1,2) False] by blast
      with assms(2) i(1) MJoinWait show ?thesis by (auto simp: stuck_def)
    qed
  next
    case (MExit r)
    then have "joined p = length (workers p)" by (simp add: joined_def)
    with MExit assms(1) show ?thesis by (auto simp: down_def in_set_conv_nth)
  qed (insert assms(1) m [of None], simp_all add: main_step_def down_def Let_def split_beta split: if_splits)
qed

lemma no_step_stuck: "\<forall>q. \<not> pool_step os sc sockfd p q \<Longrightarrow> stuck os sc sockfd p"
  by (auto simp: stuck_def intro: pool_step.intros)

lemma down_progress:
  assumes "down True p" "\<forall>p'. \<not> pool_step os sc sockfd p p'"
  shows "(\<exists>r. mpc p = MExit r) \<and> (\<forall>ws \<in> set (workers p). w_pc ws = WExit)"
proof -
  have "mpc p \<noteq> MAccepting"
    using assms(2) pool_step.main [of os sc sockfd None p] by (auto simp: main_step_def split_beta)
  moreover have "w_pc (workers p ! i) \<noteq> WActive fd" if "i < length (workers p)" for i fd
    using assms(2) that worker_can_step [of p i os sc] pool_step.worker by fastforce
  ultimately show ?thesis using down_stuck [OF assms(1) no_step_stuck [OF assms(2)]] by auto
qed

lemma down_steps: "(pool_step os sc sockfd)\<^sup>*\<^sup>* p p' \<Longrightarrow> down z p \<Longrightarrow> down z p'"
  by (induction rule: rtranclp_induct) (auto dest: down_step)

lemma down_bounded:
  assumes "down z (f 0)" "\<forall>j < k. pool_step os sc sockfd (f j) (f (Suc j))"
  shows "k + rank (f k) \<le> rank (f 0)"
  using assms(2)
proof (induction k)
  case (Suc k)
  have "down z (f j)" if "j \<le> k" for j
    using that
  proof (induction j)
    case (Suc j)
    then show ?case using down_step Suc.prems \<open>\<forall>j<Suc k. pool_step os sc sockfd (f j) (f (Suc j))\<close> by (meson Suc_leD Suc_le_lessD less_Suc_eq)
  qed (simp add: assms(1))
  then have "rank (f (Suc k)) < rank (f k)" using down_step Suc.prems by blast
  with Suc.IH Suc.prems show ?case by (simp add: less_Suc_eq)
qed simp

text \<open>At most five steps per worker and three more for each that is joined.\<close>

lemma rank_bound: "down z p \<Longrightarrow> rank p \<le> 8 * length (workers p) + 6"
proof -
  assume "down z p"
  then have m: "main_rank (length (workers p)) (mpc p) \<le> 3 * length (workers p) + 6"
    by (cases "mpc p") (auto simp: main_rank_def)
  have "sum_list (map (\<lambda>ws. worker_rank (w_pc ws)) wss) \<le> 5 * length wss" for wss
  proof (induction wss)
    case (Cons ws wss)
    have "worker_rank (w_pc ws) \<le> 5" by (simp add: worker_rank_def split: worker_pc.split)
    with Cons show ?case by simp
  qed simp
  from this [of "workers p"] m show ?thesis by (simp add: rank_def)
qed

lemma down_ends: "down z p \<Longrightarrow> \<exists>p'. (pool_step os sc sockfd)\<^sup>*\<^sup>* p p' \<and> (\<forall>q. \<not> pool_step os sc sockfd p' q)"
proof (induction "rank p" arbitrary: p rule: less_induct)
  case less
  show ?case
  proof (cases "\<exists>q. pool_step os sc sockfd p q")
    case True
    then obtain q where q: "pool_step os sc sockfd p q" by blast
    from less.hyps [of q] down_step [OF less.prems q] obtain p' where "(pool_step os sc sockfd)\<^sup>*\<^sup>* q p'" "\<forall>r. \<not> pool_step os sc sockfd p' r" by blast
    with q show ?thesis by (meson converse_rtranclp_into_rtranclp)
  qed auto
qed

section \<open>When the pool cannot end\<close>

text \<open>The main thread waits for room in the queue when the signal arrives: nobody takes a connection any more, so nobody signals.\<close>

lemma stuck_in_push:
  assumes "(pool_step os sc sockfd)\<^sup>*\<^sup>* p p'" "sigint p" "mpc p = MPushWait fd"
  shows "sigint p' \<and> mpc p' = MPushWait fd"
  using assms
proof (induction rule: rtranclp_induct)
  case (step p q)
  from step(2) show ?case
  proof (cases rule: pool_step.cases)
    case (worker i)
    with step show ?thesis by (auto elim!: worker_step_cases simp: queue_pop_cases)
  next
    case (main v)
    with step show ?thesis by (simp add: main_step_def)
  qed
qed simp

text \<open>The main thread leaves its loop because \<^verbatim>\<open>accept\<close> failed: no worker is told to return, so the first join never ends.\<close>

lemma stuck_in_join:
  assumes "(pool_step os sc sockfd)\<^sup>*\<^sup>* p p'" "exits_ok p" "\<not> sigint p" "mpc p = MJoinWait i" "i < length (workers p)"
  shows "exits_ok p' \<and> \<not> sigint p' \<and> mpc p' = MJoinWait i \<and> length (workers p') = length (workers p)"
  using assms
proof (induction rule: rtranclp_induct)
  case (step q r)
  then have q: "exits_ok q" "\<not> sigint q" "mpc q = MJoinWait i" "length (workers q) = length (workers p)" by auto
  from step(2) show ?case
  proof (cases rule: pool_step.cases)
    case (worker j)
    have "mpc r = mpc q" "length (workers r) = length (workers q)"
      using worker(2) q(3) by (auto elim!: worker_step_cases simp: signal_not_full_def)
    with q worker_step_exits_ok [OF q(1) worker(2)] worker_step_sigint [OF worker(2)] show ?thesis by simp
  next
    case (main v)
    have "w_pc (workers q ! i) \<noteq> WExit" using q(1,2,4) assms(5) by (auto simp: exits_ok_def)
    with main q(3) show ?thesis by (simp add: main_step_def)
  qed
qed simp

end
