(* ===== verification/PoolProperties.thy ===== *)
theory PoolProperties
  imports PoolShutdown ServerProperties
begin

text \<open>
  Properties of the thread pool of \<^verbatim>\<open>src/server.c\<close> and of the queue it shares, with concrete
  instances.
\<close>

section \<open>A pool of one worker\<close>

definition pool_conf :: server_conf where
  "pool_conf = demo_conf\<lparr>pool_size := 1, queue_size := 1\<rparr>"

definition zero_frame :: "bytes \<times> http_request \<times> int" where
  "zero_frame = (replicate MAX_BUFFR NUL, zero_request, 0)"

definition pool_of :: "queue \<Rightarrow> worker_pc \<Rightarrow> main_pc \<Rightarrow> bool \<Rightarrow> world \<Rightarrow> pool" where
  "pool_of q l m s w = \<lparr>cq = q, workers = [goto l (new_worker zero_frame)], mpc = m, sigint = s, hist = w\<rparr>"

definition queue_with :: "int list \<Rightarrow> nat \<Rightarrow> queue" where
  "queue_with xs n = \<lparr>fds = xs, max_size = 1, qsize = n, front = 0, rear = 0, active_fds = [0]\<rparr>"

lemma zero_frame_ok: "frame_inv z zero_frame"
  using request_inv_zero by (simp add: frame_inv_def zero_frame_def request_inv_def)

text \<open>A system with the given answer to \<^verbatim>\<open>accept\<close> starts this pool.\<close>

definition accepting :: "int \<Rightarrow> os" where
  "accepting fd = demo_os\<lparr>os_accept := \<lambda>w s. fd\<rparr>"

lemma demo_init:
  "\<exists>w. run_state (pool_init (accepting fd) pool_conf (\<lambda>_. True) (\<lambda>_. True) (\<lambda>_. zero_frame)) []
     = (Inr (3, pool_of (queue_with [0] 0) WLoop MAccept False w), w)"
  by (simp add: pool_init_def pool_conf_def demo_conf_def queue_create_def tcp_start_connection_def sys_socket_def sys_setsockopt_def
      sys_bind_def sys_listen_def accepting_def demo_os_def Let_def pool_of_def queue_with_def goto_def new_worker_def zero_frame_def upt_rec)

lemma demo_accept:
  "0 \<le> fd \<Longrightarrow> fst (run_state (accept_step (accepting fd) pool_conf s) w) = Some fd"
  "fst (run_state (accept_step (accepting (-1)) pool_conf s) w) = None"
  by (simp_all add: accept_step_def tcp_accept_connection_def sys_accept_def accepting_def sys_errno_def)

lemma demo_step_accept:
  "main_step os pool_conf 3 None (pool_of q l MAccept False w) = Some (pool_of q l MAccepting False w)"
  "0 \<le> fd \<Longrightarrow> \<exists>w'. main_step (accepting fd) pool_conf 3 None (pool_of q l MAccepting False w) = Some (pool_of q l (MPush fd) False w')"
  "\<exists>w'. main_step (accepting (-1)) pool_conf 3 None (pool_of q l MAccepting False w) = Some (pool_of q l MShutdown False w')"
  using demo_accept by (simp_all add: main_step_def pool_of_def split_beta)

lemma demo_step_push:
  "l \<noteq> WWait \<Longrightarrow> \<exists>w'. main_step os pool_conf 3 None (pool_of (queue_with [0] 0) l (MPush fd) False w) = Some (pool_of (queue_with [fd] 1) l MAccept False w')"
  "main_step os pool_conf 3 None (pool_of (queue_with [x] 1) l (MPush fd) False w) = Some (pool_of (queue_with [x] 1) l (MPushWait fd) False w)"
  by (simp_all add: main_step_def pool_of_def queue_with_def queue_push_def signal_not_empty_def Let_def)

lemma demo_step_down:
  "\<exists>w'. main_step os pool_conf 3 None (pool_of q WLoop MShutdown s w) = Some (pool_of q WLoop (MJoin 0) s w')"
  "main_step os pool_conf 3 None (pool_of (queue_with xs n) WLoop (MJoin 0) s w) = Some (pool_of (queue_with xs n) WLoop (MJoinWait 0) s w)"
  by (simp_all add: main_step_def pool_of_def broadcast_not_empty_def queue_with_def queue_get_active_fd_def Let_def)

lemma demo_step_worker:
  "worker_step os pool_conf 0 (pool_of q WLoop m True w) = Some (pool_of q WExit m True w)"
  "worker_step os pool_conf 0 (pool_of (queue_with xs 0) WLoop m False w) = Some (pool_of (queue_with xs 0) WWait m False w)"
  by (simp_all add: worker_step_def pool_of_def set_worker_def queue_pop_cases queue_pop_def queue_with_def goto_def)

lemma main_run: "pool_run os sc fd p0 p \<Longrightarrow> main_step os sc fd None p = Some p' \<Longrightarrow> pool_run os sc fd p0 p'"
  by (blast intro: pool_run.step pool_step.main)

text \<open>Two connections fill the queue and block the main thread; or \<^verbatim>\<open>accept\<close> fails at once.\<close>

lemma demo_queued:
  "\<exists>w'. pool_run (accepting 4) pool_conf 3 (pool_of (queue_with [0] 0) WLoop MAccept False w) (pool_of (queue_with [4] 1) WLoop MAccept False w')"
  using demo_step_accept(1) demo_step_accept(2) [of 4] demo_step_push(1) [of WLoop] by (meson main_run pool_run.start worker_pc.distinct zero_le_numeral)

lemma demo_blocked:
  "\<exists>w'. pool_run (accepting 4) pool_conf 3 (pool_of (queue_with [0] 0) WLoop MAccept False w) (pool_of (queue_with [4] 1) WLoop (MPushWait 4) False w')"
  using demo_queued demo_step_accept(1) demo_step_accept(2) [of 4] demo_step_push(2) by (meson main_run zero_le_numeral)

lemma demo_failed:
  "\<exists>w'. pool_run (accepting (-1)) pool_conf 3 (pool_of (queue_with [0] 0) WLoop MAccept False w) (pool_of (queue_with [0] 0) WLoop (MJoinWait 0) False w')"
  using demo_step_accept(1,3) demo_step_down by (meson main_run pool_run.start)

lemma demo_interrupted:
  "pool_run os sc 3 p0 (pool_of q l m False w) \<Longrightarrow> pool_run os sc 3 p0 (pool_of q l m True w)"
  using pool_run.env [OF _ pool_env.interrupt, of os sc 3 p0 "pool_of q l m False w"] by (simp add: pool_of_def)

section \<open>Properties\<close>

text \<open>
  C32: the pool stays in order. In every state the threads can reach, under every interleaving,
  with the signal and spurious wake-ups at any time, the queue is well formed, the arrays and lengths of every worker are in
  order, and the table of active descriptors shows for each worker exactly the connection it is serving then. That no worker
  accesses memory outside its request holds if the stacks of the threads happen to hold zero in the padding
  behind the number of headers, which the code does not initialise.
\<close>
theorem pool_invariant:
  assumes "\<forall>i. frame_sized (frames i)" and "0 < queue_size sc"
    and "run_state (pool_init os sc alloc create frames) w = (Inr (sockfd, p0), w')" and "pool_run os sc sockfd p0 p"
  shows "queue_ok (cq p) \<and> (\<forall>i < length (workers p). worker_sized (workers p ! i)
      \<and> queue_get_active_fd (cq p) i = active_fd (w_pc (workers p ! i)))
    \<and> ((\<forall>i. frame_zeroed (frames i)) \<longrightarrow> (\<forall>ws \<in> set (workers p). \<not> crashed (w_pc ws)))"
proof -
  have ok: "pool_ok z p" if "\<forall>i. frame_inv z (frames i)" for z
    using pool_init_fresh [OF that assms(2,3)] pool_run_ok [OF assms(4)] unfolding fresh_pool_def by blast
  from ok [OF assms(1)] have q: "queue_ok (cq p)" "workers_ok False p" and t: "table_ok p" unfolding pool_ok_def by blast+
  moreover have "queue_get_active_fd (cq p) i = active_fd (w_pc (workers p ! i))" if "i < length (workers p)" for i
    using t that unfolding table_ok_def queue_get_active_fd_def by simp
  ultimately show ?thesis using ok [of True] unfolding pool_ok_def workers_ok_def by simp
qed

theorem pool_invariant_witness:
  "\<exists>w. queue_ok (cq (pool_of (queue_with [4] 1) WLoop (MPushWait 4) False w))"
proof -
  obtain w where i: "run_state (pool_init (accepting 4) pool_conf (\<lambda>_. True) (\<lambda>_. True) (\<lambda>_. zero_frame)) []
     = (Inr (3, pool_of (queue_with [0] 0) WLoop MAccept False w), w)" using demo_init by blast
  obtain w' where r: "pool_run (accepting 4) pool_conf 3 (pool_of (queue_with [0] 0) WLoop MAccept False w) (pool_of (queue_with [4] 1) WLoop (MPushWait 4) False w')"
    using demo_blocked by blast
  from pool_invariant [OF _ _ i r] zero_frame_ok show ?thesis by (auto simp: pool_conf_def)
qed

text \<open>
  C6: no connection is lost or served twice. In every reachable state each accepted connection is
  with the main thread, in the queue, with exactly one worker, or gone; as long as there was no
  signal, every connection that is gone has been closed. Nothing is assumed of what the stacks hold: a worker that
  accessed memory outside its request stops there and still has its connection.
\<close>
theorem pool_connections_settled:
  assumes "\<forall>i. frame_sized (frames i)" and "0 < queue_size sc" and "accepted_fds w = {#}"
    and "run_state (pool_init os sc alloc create frames) w = (Inr (sockfd, p0), w')" and "pool_run os sc sockfd p0 p"
  shows "\<exists>gone. conns (hist p) = pending p + gone \<and> (\<not> sigint p \<longrightarrow> gone \<subseteq># closed_fds (hist p))"
proof -
  have f: "fresh_pool False p0" "accepted_fds (hist p0) = {#}" using pool_init_fresh [OF assms(1,2,4)] assms(3) by simp_all
  then have "settled p" using pool_run_settled [OF assms(5) _ fresh_pool_settled [OF f], of False] by (simp add: fresh_pool_def)
  then show ?thesis by (simp add: settled_def)
qed

theorem pool_connections_settled_witness:
  "\<exists>w gone. conns w = {#4, 4#} + gone \<and> gone \<subseteq># closed_fds w"
proof -
  obtain w where i: "run_state (pool_init (accepting 4) pool_conf (\<lambda>_. True) (\<lambda>_. True) (\<lambda>_. zero_frame)) []
     = (Inr (3, pool_of (queue_with [0] 0) WLoop MAccept False w), w)" using demo_init by blast
  obtain w' where r: "pool_run (accepting 4) pool_conf 3 (pool_of (queue_with [0] 0) WLoop MAccept False w) (pool_of (queue_with [4] 1) WLoop (MPushWait 4) False w')"
    using demo_blocked by blast
  have "pending (pool_of (queue_with [4] 1) WLoop (MPushWait 4) False w') = {#4, 4#}"
    by (simp add: pool_of_def pending_def queue_with_def queue_list_def)
  moreover have "0 < queue_size pool_conf" "\<forall>i :: nat. frame_sized zero_frame" using zero_frame_ok by (simp_all add: pool_conf_def)
  ultimately show ?thesis using pool_connections_settled [OF _ _ _ i r] by (auto simp: pool_of_def)
qed

text \<open>
  C7: no wake-up is lost. Before the signal, whenever a connection is queued or the main thread
  waits for room, some worker can take a step: the workers never all wait while there is work. The one exception is that
  every worker has accessed memory outside its request and stopped, which needs stacks with other values than zero in the
  padding of the uninitialised request.
\<close>
theorem pool_no_lost_wakeup:
  assumes "\<forall>i. frame_sized (frames i)" and "0 < queue_size sc" and "0 < pool_size sc"
    and "run_state (pool_init os sc alloc create frames) w = (Inr (sockfd, p0), w')" and "pool_run os sc sockfd p0 p"
    and "\<not> sigint p" and "0 < qsize (cq p) \<or> (\<exists>fd. mpc p = MPushWait fd)"
  shows "(\<exists>i < length (workers p). \<exists>p'. worker_step os sc i p = Some p')
    \<or> (\<forall>ws \<in> set (workers p). crashed (w_pc ws)) \<and> \<not> (\<forall>i. frame_zeroed (frames i))"
proof -
  have f: "fresh_pool z p0" "length (workers p0) = nat (pool_size sc)" if "\<forall>i. frame_inv z (frames i)" for z
    using pool_init_fresh [OF that assms(2,4)] by simp_all
  have ok: "pool_ok z p" if "\<forall>i. frame_inv z (frames i)" for z using pool_run_ok [OF assms(5)] f(1) [OF that] by (simp add: fresh_pool_def)
  have e: "exits_ok p" using pool_run_exits_ok [OF assms(5)] f(1) [OF assms(1)] by (auto simp: fresh_pool_def exits_ok_def)
  have "length (workers p) \<noteq> 0" using pool_run_length [OF assms(5)] f(2) [OF assms(1)] assms(3) by simp
  then have n: "\<exists>ws. ws \<in> set (workers p)" by (cases "workers p") auto
  have q: "0 < qsize (cq p)" using ok [OF assms(1)] assms(7) by (auto simp: pool_ok_def wakeups_ok_def queue_ok_def)
  have "\<forall>ws \<in> set (workers p). \<not> crashed (w_pc ws)" if "\<forall>i. frame_zeroed (frames i)"
    using ok [OF that] by (simp add: pool_ok_def workers_ok_def)
  then show ?thesis using queued_can_step [OF ok [OF assms(1)] e assms(6) q] n by blast
qed

theorem pool_no_lost_wakeup_witness:
  "\<exists>w p'. worker_step (accepting 4) pool_conf 0 (pool_of (queue_with [4] 1) WLoop (MPushWait 4) False w) = Some p'"
proof -
  obtain w where i: "run_state (pool_init (accepting 4) pool_conf (\<lambda>_. True) (\<lambda>_. True) (\<lambda>_. zero_frame)) []
     = (Inr (3, pool_of (queue_with [0] 0) WLoop MAccept False w), w)" using demo_init by blast
  obtain w' where r: "pool_run (accepting 4) pool_conf 3 (pool_of (queue_with [0] 0) WLoop MAccept False w) (pool_of (queue_with [4] 1) WLoop (MPushWait 4) False w')"
    using demo_blocked by blast
  have z: "\<forall>i :: nat. frame_inv z zero_frame" for z using zero_frame_ok by blast
  have "0 < queue_size pool_conf" "0 < pool_size pool_conf" by (simp_all add: pool_conf_def)
  from pool_no_lost_wakeup [OF z this i r] z show ?thesis by (auto simp: pool_of_def)
qed

text \<open>
  C8: shutdown ends, or where it hangs. Once the signal has arrived while the main thread is still in its loop and
  not waiting for room in the queue, every execution takes at most eight steps per worker and six
  more. When no thread goes on, all threads have returned, or the main thread is still in \<^verbatim>\<open>accept\<close> (the signal
  came between the test of \<^verbatim>\<open>sigint\<close> and the call), or it joins a worker that is still in the calls that read and
  answer a request, or one that accessed memory outside its request, which needs stacks with other values than zero in the
  padding of the uninitialised request.
\<close>
theorem pool_shutdown_ends:
  assumes "\<forall>i. frame_sized (frames i)" and "0 < queue_size sc"
    and "run_state (pool_init os sc alloc create frames) w = (Inr (sockfd, p0), w')" and "pool_run os sc sockfd p0 p"
    and "sigint p" and "mpc p = MAccept \<or> mpc p = MAccepting \<or> mpc p = MPush fd \<or> mpc p = MShutdown"
  shows "(\<forall>f k. f 0 = p \<and> (\<forall>j < k. pool_step os sc sockfd (f j) (f (Suc j))) \<longrightarrow> k \<le> 8 * length (workers p) + 6)
    \<and> (\<forall>q. (pool_step os sc sockfd)\<^sup>*\<^sup>* p q \<and> stuck os sc sockfd q \<longrightarrow>
          (\<exists>r. mpc q = MExit r) \<and> (\<forall>ws \<in> set (workers q). w_pc ws = WExit)
          \<or> mpc q = MAccepting
          \<or> (\<exists>i < length (workers q). \<exists>fd. mpc q = MJoinWait i \<and> (w_pc (workers q ! i) = WActive fd
               \<or> w_pc (workers q ! i) = WCrash fd \<and> \<not> (\<forall>i. frame_zeroed (frames i)))))"
proof -
  have ok: "pool_ok z p" if "\<forall>i. frame_inv z (frames i)" for z
    using pool_run_ok [OF assms(4)] pool_init_fresh [OF that assms(2,3)] by (simp add: fresh_pool_def)
  have d: "down z p" if "\<forall>i. frame_inv z (frames i)" for z
    using ok [OF that] assms(5,6) by (auto simp: down_def joined_def)
  have bound: "\<forall>f k. f 0 = p \<and> (\<forall>j < k. pool_step os sc sockfd (f j) (f (Suc j))) \<longrightarrow> k \<le> 8 * length (workers p) + 6"
  proof (intro allI impI)
    fix f k
    assume "f 0 = p \<and> (\<forall>j < k. pool_step os sc sockfd (f j) (f (Suc j)))"
    then show "k \<le> 8 * length (workers p) + 6"
      using down_bounded [of False f k os sc sockfd] rank_bound [OF d [OF assms(1)]] d [OF assms(1)] by simp
  qed
  have "(\<exists>r. mpc q = MExit r) \<and> (\<forall>ws \<in> set (workers q). w_pc ws = WExit) \<or> mpc q = MAccepting
      \<or> (\<exists>i < length (workers q). \<exists>fd. mpc q = MJoinWait i \<and> (w_pc (workers q ! i) = WActive fd \<or> \<not> z \<and> w_pc (workers q ! i) = WCrash fd))"
    if "\<forall>i. frame_inv z (frames i)" "(pool_step os sc sockfd)\<^sup>*\<^sup>* p q" "stuck os sc sockfd q" for z q
    using down_stuck [OF down_steps [OF that(2) d [OF that(1)]] that(3)] .
  note stopped = this
  show ?thesis
  proof (cases "\<forall>i. frame_zeroed (frames i)")
    case True
    with bound stopped [OF True] show ?thesis by simp
  next
    case False
    with bound stopped [OF assms(1)] show ?thesis by simp
  qed
qed

theorem pool_shutdown_ends_witness:
  "\<exists>w q. (pool_step (accepting 4) pool_conf 3)\<^sup>*\<^sup>* (pool_of (queue_with [4] 1) WLoop MAccept True w) q
     \<and> (\<exists>r. mpc q = MExit r) \<and> (\<forall>ws \<in> set (workers q). w_pc ws = WExit)"
proof -
  obtain w where i: "run_state (pool_init (accepting 4) pool_conf (\<lambda>_. True) (\<lambda>_. True) (\<lambda>_. zero_frame)) []
     = (Inr (3, pool_of (queue_with [0] 0) WLoop MAccept False w), w)" using demo_init by blast
  obtain w' where r: "pool_run (accepting 4) pool_conf 3 (pool_of (queue_with [0] 0) WLoop MAccept False w) (pool_of (queue_with [4] 1) WLoop MAccept True w')"
    using demo_queued demo_interrupted by blast
  let ?p = "pool_of (queue_with [4] 1) WLoop MAccept True w'"
  have z: "\<forall>i :: nat. frame_inv z zero_frame" for z using zero_frame_ok by blast
  have c: "0 < queue_size pool_conf" by (simp add: pool_conf_def)
  have "pool_ok True ?p" using pool_run_ok [OF r] pool_init_fresh [OF z c i] by (simp add: fresh_pool_def)
  then have d: "down True ?p" by (simp add: down_def joined_def pool_of_def)
  then obtain q where q: "(pool_step (accepting 4) pool_conf 3)\<^sup>*\<^sup>* ?p q" "\<forall>q'. \<not> pool_step (accepting 4) pool_conf 3 q q'"
    using down_ends by blast
  have "mpc q \<noteq> MAccepting" "\<And>i fd. i < length (workers q) \<Longrightarrow> mpc q = MJoinWait i \<Longrightarrow> w_pc (workers q ! i) \<noteq> WActive fd"
    using down_progress [OF down_steps [OF q(1) d] q(2)] by auto
  moreover have s: "sigint ?p" "mpc ?p = MAccept \<or> mpc ?p = MAccepting \<or> mpc ?p = MPush 0 \<or> mpc ?p = MShutdown" by (simp_all add: pool_of_def)
  note conjunct2 [OF pool_shutdown_ends [OF z c i r s], rule_format, OF conjI [OF q(1) no_step_stuck [OF q(2)]]]
  ultimately have "(\<exists>r. mpc q = MExit r) \<and> (\<forall>ws \<in> set (workers q). w_pc ws = WExit)" using z by blast
  with q(1) show ?thesis by blast
qed

text \<open>
  C38: shutdown can hang in the queue. If the signal arrives while the main thread waits for room,
  the workers return without taking another connection, nobody signals \<^verbatim>\<open>not_full\<close>, and
  \<^verbatim>\<open>queue_shutdown\<close>, which broadcasts only \<^verbatim>\<open>not_empty\<close>, is never reached: without a spurious
  wake-up the main thread waits for ever.
\<close>
theorem full_queue_shutdown_hangs:
  assumes "sigint p" and "mpc p = MPushWait fd" and "(pool_step os sc sockfd)\<^sup>*\<^sup>* p q"
  shows "mpc q = MPushWait fd"
  using stuck_in_push [OF assms(3,1,2)] by simp

theorem full_queue_shutdown_hangs_witness:
  "\<exists>w0 w q. pool_run (accepting 4) pool_conf 3 (pool_of (queue_with [0] 0) WLoop MAccept False w0) (pool_of (queue_with [4] 1) WLoop (MPushWait 4) True w)
     \<and> (pool_step (accepting 4) pool_conf 3)\<^sup>*\<^sup>* (pool_of (queue_with [4] 1) WLoop (MPushWait 4) True w) q
     \<and> (\<forall>ws \<in> set (workers q). w_pc ws = WExit) \<and> mpc q = MPushWait 4"
proof -
  obtain w where r: "pool_run (accepting 4) pool_conf 3 (pool_of (queue_with [0] 0) WLoop MAccept False []) (pool_of (queue_with [4] 1) WLoop (MPushWait 4) True w)"
    using demo_blocked demo_interrupted by blast
  let ?p = "pool_of (queue_with [4] 1) WLoop (MPushWait 4) True w" and ?q = "pool_of (queue_with [4] 1) WExit (MPushWait 4) True w"
  have s: "(pool_step (accepting 4) pool_conf 3)\<^sup>*\<^sup>* ?p ?q"
    using demo_step_worker(1) by (intro r_into_rtranclp pool_step.worker [of 0]) (simp_all add: pool_of_def)
  have "mpc ?q = MPushWait 4" by (rule full_queue_shutdown_hangs [OF _ _ s]) (simp_all add: pool_of_def)
  with r s show ?thesis by (force simp: pool_of_def)
qed

text \<open>
  a failing \<^verbatim>\<open>accept\<close> hangs the server. When the main thread leaves its loop because
  \<^verbatim>\<open>accept\<close> failed and no signal has arrived, the workers go back to waiting, and the first
  \<^verbatim>\<open>pthread_join\<close> never returns.
\<close>
theorem accept_failure_hangs:
  assumes "\<forall>i. frame_sized (frames i)" and "0 < queue_size sc" and "0 < pool_size sc"
    and "run_state (pool_init os sc alloc create frames) w = (Inr (sockfd, p0), w')" and "pool_run os sc sockfd p0 p"
    and "\<not> sigint p" and "mpc p = MJoinWait 0" and "(pool_step os sc sockfd)\<^sup>*\<^sup>* p q"
  shows "mpc q = MJoinWait 0"
proof -
  have f: "fresh_pool False p0" "length (workers p0) = nat (pool_size sc)" using pool_init_fresh [OF assms(1,2,4)] by simp_all
  have "exits_ok p" using pool_run_exits_ok [OF assms(5)] f(1) by (auto simp: fresh_pool_def exits_ok_def)
  moreover have "0 < length (workers p)" using pool_run_length [OF assms(5)] f(2) assms(3) by simp
  ultimately show ?thesis using stuck_in_join [OF assms(8) _ assms(6,7)] by blast
qed

theorem accept_failure_hangs_witness:
  "\<exists>w q. (pool_step (accepting (-1)) pool_conf 3)\<^sup>*\<^sup>* (pool_of (queue_with [0] 0) WLoop (MJoinWait 0) False w) q
     \<and> (\<forall>ws \<in> set (workers q). w_pc ws = WWait) \<and> mpc q = MJoinWait 0"
proof -
  obtain w where i: "run_state (pool_init (accepting (-1)) pool_conf (\<lambda>_. True) (\<lambda>_. True) (\<lambda>_. zero_frame)) []
     = (Inr (3, pool_of (queue_with [0] 0) WLoop MAccept False w), w)" using demo_init by blast
  obtain w' where r: "pool_run (accepting (-1)) pool_conf 3 (pool_of (queue_with [0] 0) WLoop MAccept False w) (pool_of (queue_with [0] 0) WLoop (MJoinWait 0) False w')"
    using demo_failed by blast
  let ?p = "pool_of (queue_with [0] 0) WLoop (MJoinWait 0) False w'" and ?q = "pool_of (queue_with [0] 0) WWait (MJoinWait 0) False w'"
  have s: "(pool_step (accepting (-1)) pool_conf 3)\<^sup>*\<^sup>* ?p ?q"
    using demo_step_worker(2) by (intro r_into_rtranclp pool_step.worker [of 0]) (simp_all add: pool_of_def)
  have "mpc ?q = MJoinWait 0"
    by (rule accept_failure_hangs [OF _ _ _ i r _ _ s]) (simp_all add: zero_frame_ok pool_conf_def, simp_all add: pool_of_def)
  with s show ?thesis by (force simp: pool_of_def)
qed

text \<open>
  C33: what reaches the handlers. A worker whose arrays have their sizes (every worker of a reachable pool) reads
  before it answers: \<^verbatim>\<open>http_process_request\<close> is called only when the buffer holds a complete head, parsed as if it had
  arrived at once, and behind it a body of at least the announced length; the body pointer is the first byte behind
  the head, and the target and the body are inside the buffer. In every other case the worker is done with the
  connection. Nothing is assumed of the padding in its request.
\<close>
theorem worker_request_complete:
  assumes "worker_sized ws" and "run_state (read_request os clientfd ws) w = ((e, ws'), v)"
  shows "case e of
      Complete n \<Rightarrow> (\<exists>r0 m. length (rq_headers r0) = MAX_HEADERS \<and> n \<le> m \<and> m \<le> w_buff_len ws' \<and> w_buff_len ws' \<le> MAX_BUFFR
          \<and> http_parse_request (w_buff ws') r0 m 0 = (w_request ws', PRet n)
          \<and> http_get_content_length (w_buff ws') (w_request ws') \<le> int (w_buff_len ws') - int n
          \<and> request_inside (w_buff ws') (http_add_body (w_request ws') n (int (w_buff_len ws') - int n)))
        \<and> run_state (serve_client os sc clientfd ws) w = run_state (answer_request os sc clientfd n ws') v
    | _ \<Rightarrow> run_state (serve_client os sc clientfd ws) w =
        ((case e of EndHead \<Rightarrow> ClosedInHead | EndBody \<Rightarrow> Failed | _ \<Rightarrow> Crash, ws'), v)"
proof (cases e)
  case (Complete n)
  with read_request_complete [OF assms(1)] assms(2) show ?thesis by (simp add: serve_client_def)
qed (insert assms(2), simp_all add: serve_client_def)

text \<open>A client that sends \<^verbatim>\<open>OPTIONS / HTTP/1.0\<close> at once.\<close>

definition options_os :: os where
  "options_os = demo_os\<lparr>os_recv := \<lambda>w fd n. Inr (demo_buffer ''OPTIONS'' ''/'')\<rparr>"

lemma options_read:
  "\<exists>ws' w'. run_state (read_request options_os 4 (new_worker zero_frame)) [] = ((Complete 22, ws'), w') \<and> w_buff_len ws' = 22"
proof -
  let ?ws = "new_worker zero_frame" and ?b = "demo_buffer ''OPTIONS'' ''/''"
  have l: "length ?b = 22" by (simp add: demo_buffer_def)
  have "wf_request ''OPTIONS'' ''/'' (CHR ''0'') []" by code_simp
  from demo_parsed [OF this] obtain r where r: "http_parse_request ?b zero_request 22 0 = (r, PRet 22)" "rq_method r = Some 0"
    "rq_method_size r = 7" "rq_num_headers r = 0" unfolding l by (auto simp: lo32_small)
  define a where "a = store_at (replicate MAX_BUFFR NUL) 0 ?b"
  have a: "take 22 a = ?b" "drop 0 a = a" unfolding a_def using l by (simp_all add: store_at_def)
  have pa: "http_parse_request a zero_request 22 0 = (r, PRet 22)"
    using r(1) a(1) l by (simp add: http_parse_request_def)
  let ?ws1 = "?ws\<lparr>w_buff := a, w_last_len := 0, w_buff_len := 22, w_request := r\<rparr>"
  have ws: "w_buff_len ?ws = 0" "w_buff ?ws = replicate MAX_BUFFR NUL" "w_request ?ws = zero_request" by (simp_all add: new_worker_def zero_frame_def)
  have "head_data ?ws ?b = (?ws1, PRet 22)"
    using pa ws l by (simp add: head_data_def a_def Let_def)
  moreover have "take MAX_BUFFR ?b = ?b" using l by (simp add: MAX_BUFFR_def)
  then have "run_state (tcp_recv options_os 4 MAX_BUFFR) [] = (Inr ?b, [Recv 4 22])"
    using l by (simp add: tcp_recv_def sys_recv_def options_os_def)
  moreover have "?b \<noteq> []" by (simp add: demo_buffer_def)
  ultimately have "run_state (head_step options_os 4 ?ws) [] = ((HeadRead 22, ?ws1), [Recv 4 22])"
    using ws(1) by (simp add: head_step_def)
  note h = read_head_unfold [OF this, simplified]
  have c: "http_get_content_length a r = 0" using r(4) by (cases "rq_headers r") (simp_all add: http_get_content_length_def)
  have rest: "read_rest options_os 4 22 0 ?ws1 [Recv 4 22] = ((True, ?ws1), [Recv 4 22])" by (simp add: read_rest.simps)
  show ?thesis using h c rest by (simp add: read_request_def MAX_BUFFR_def)
qed

theorem worker_request_complete_witness:
  "\<exists>(ws' :: worker) m r0 v. m \<le> 22 \<and> http_parse_request (w_buff ws') r0 m 0 = (w_request ws', PRet 22)
     \<and> request_inside (w_buff ws') (http_add_body (w_request ws') 22 0)
     \<and> run_state (serve_client options_os pool_conf 4 (new_worker zero_frame)) [] = run_state (answer_request options_os pool_conf 4 22 ws') v"
proof -
  obtain ws' w' where s: "run_state (read_request options_os 4 (new_worker zero_frame)) [] = ((Complete 22, ws'), w')" "w_buff_len ws' = 22"
    using options_read by blast
  have "worker_sized (new_worker zero_frame)" using new_worker_ok [OF zero_frame_ok] by blast
  from worker_request_complete [OF this s(1), of pool_conf] s(2) show ?thesis by auto
qed

text \<open>
  one oversized head disables a worker. A client whose head fills the buffer is refused, but
  the length is not reset: from then on the worker asks each client for zero bytes, takes the
  answer for the end of the stream and closes the connection, its variables unchanged.
\<close>
theorem full_buffer_disables_worker:
  assumes "w_buff_len ws = MAX_BUFFR"
  shows "fst (run_state (serve_client os sc clientfd ws) w) = (ClosedInHead, ws)"
  using assms by (rule serve_client_full_buffer)

theorem full_buffer_disables_worker_witness:
  "fst (run_state (serve_client options_os pool_conf 4 ((new_worker zero_frame)\<lparr>w_buff_len := MAX_BUFFR\<rparr>)) [])
     = (ClosedInHead, (new_worker zero_frame)\<lparr>w_buff_len := MAX_BUFFR\<rparr>)"
  by (rule full_buffer_disables_worker) simp

end
