(* ===== verification/PicoResponse.thy ===== *)
theory PicoResponse
  imports PicoRoundtrip PicoStream
begin

text \<open>
  \<^verbatim>\<open>phr_parse_response\<close> of \<^verbatim>\<open>srclib/picohttpparser.c\<close>: the status line, then the header loop it shares
  with requests. The lemmas: it reads only inside the buffer, further bytes do not change a result, what
  it accepts is a well-formed status line, and it undoes printing.
\<close>

section \<open>The response parser\<close>

record phr_status =
  r_status :: int
  r_msg :: "nat option"
  r_msg_len :: nat

text \<open>\<^verbatim>\<open>PARSE_INT_3\<close> writes \<^verbatim>\<open>*status\<close> after each digit, so a failing one leaves the digits before it.\<close>

definition PARSE_INT_3 :: "bytes \<Rightarrow> nat \<Rightarrow> int \<Rightarrow> int \<times> nat pres" where
  "PARSE_INT_3 b i status =
     sbind (status, PARSE_INT b i 100) (\<lambda>_ (res, i).
     sbind (res, PARSE_INT b i 10) (\<lambda>status (res, i).
     sbind (status + res, PARSE_INT b i 1) (\<lambda>status (res, i).
       (status + res, PRet i))))"

text \<open>The loop \<^verbatim>\<open>do { ++*msg; --*msg_len; } while (**msg == ' ')\<close>; \<^verbatim>\<open>--\<close> on a \<^verbatim>\<open>size_t\<close> wraps around at 0.\<close>

definition size_dec :: "nat \<Rightarrow> nat" where
  "size_dec n = (if n = 0 then 2 ^ 64 - 1 else n - 1)"

function skip_msg_spaces :: "bytes \<Rightarrow> nat \<Rightarrow> nat \<Rightarrow> (nat \<times> nat) pres" where
  "skip_msg_spaces b msg msg_len =
     pbind (peek b (msg + 1)) (\<lambda>c.
       if c = SP then skip_msg_spaces b (msg + 1) (size_dec msg_len) else PRet (msg + 1, size_dec msg_len))"
  by pat_completeness auto
termination
  by (relation "measure (\<lambda>(b, i, n). length b - i)") (auto simp: pres_iff)

declare skip_msg_spaces.simps [simp del]

definition parse_msg :: "bytes \<Rightarrow> nat \<Rightarrow> nat \<Rightarrow> (nat \<times> nat) pres" where
  "parse_msg b msg msg_len =
     (if msg_len = 0 then PRet (msg, msg_len)
      else pbind (peek b msg) (\<lambda>c. if c = SP then skip_msg_spaces b msg msg_len else PBad))"

definition parse_response :: "bytes \<Rightarrow> nat \<Rightarrow> phr_status \<times> phr_out \<Rightarrow> nat \<Rightarrow> (phr_status \<times> phr_out) \<times> nat pres" where
  "parse_response b i st max_headers =
     sbind (st, parse_http_version b i) (\<lambda>(rs, out) (minor_version, i).
     let out = out\<lparr>o_minor_version := minor_version\<rparr> in
     sbind ((rs, out), peek b i) (\<lambda>_ c.
     if c \<noteq> SP then ((rs, out), PBad)
     else
       sbind ((rs, out), skip_spaces b i) (\<lambda>_ i.
       if length b - i < 4 then ((rs, out), PPartial)
       else
         (case PARSE_INT_3 b i (r_status rs) of (status, r) \<Rightarrow>
          sbind ((rs\<lparr>r_status := status\<rparr>, out), r) (\<lambda>(rs, out) i.
          sbind ((rs, out), get_token_to_eol b i) (\<lambda>_ (msg, msg_len, i).
          let rs = rs\<lparr>r_msg := Some msg, r_msg_len := msg_len\<rparr> in
          sbind ((rs, out), parse_msg b msg msg_len) (\<lambda>_ (msg, msg_len).
          let rs = rs\<lparr>r_msg := Some msg, r_msg_len := msg_len\<rparr> in
          (case parse_headers b i out max_headers of (out, r) \<Rightarrow> ((rs, out), r)))))))))"

definition phr_parse_response :: "bytes \<Rightarrow> phr_status \<times> phr_out \<Rightarrow> nat \<Rightarrow> (phr_status \<times> phr_out) \<times> nat pres" where
  "phr_parse_response b st last_len =
     (case st of (rs, out) \<Rightarrow>
      let max_headers = o_num_headers out;
          rs = rs\<lparr>r_status := 0, r_msg := None, r_msg_len := 0\<rparr>;
          out = out\<lparr>o_minor_version := -1, o_num_headers := 0\<rparr>
      in sbind ((rs, out), if last_len \<noteq> 0 then is_complete b last_len else PRet 0) (\<lambda>st _.
           parse_response b 0 st max_headers))"

section \<open>Bounds\<close>

lemma PARSE_INT_PRet_iff [pres_iff]:
  "PARSE_INT b i m = PRet (v, j) \<longleftrightarrow> i < length b \<and> 48 \<le> schar (b ! i) \<and> schar (b ! i) \<le> 57 \<and> v = m * (schar (b ! i) - 48) \<and> j = i + 1"
  by (auto simp: PARSE_INT_def pres_iff)

lemma PARSE_INT_no_fault [no_fault]: "i < length b \<Longrightarrow> PARSE_INT b i m \<noteq> PFault"
  by (simp add: PARSE_INT_def)

lemma PARSE_INT_3_PRet:
  "PARSE_INT_3 b i s = (v, PRet j) \<Longrightarrow> i + 3 \<le> length b \<and> j = i + 3 \<and> 0 \<le> v \<and> v \<le> 999
     \<and> (\<forall>k < 3. 48 \<le> schar (b ! (i + k)) \<and> schar (b ! (i + k)) \<le> 57)
     \<and> v = 100 * (schar (b ! i) - 48) + 10 * (schar (b ! (i + 1)) - 48) + (schar (b ! (i + 2)) - 48)"
  by (auto simp: PARSE_INT_3_def pres_iff numeral_3_eq_3 less_Suc_eq)

lemma PARSE_INT_3_no_fault [no_fault]: "i + 3 \<le> length b \<Longrightarrow> snd (PARSE_INT_3 b i s) \<noteq> PFault"
  by (auto simp: PARSE_INT_3_def pres_iff no_fault)

lemma skip_msg_spaces_PRet:
  "skip_msg_spaces b m n = PRet (m', n') \<Longrightarrow> m < m' \<and> m' < length b \<and> b ! m' \<noteq> SP \<and> span b (Suc m) m' (\<lambda>c. c = SP)
     \<and> (m' \<le> m + n \<longrightarrow> n' = n - (m' - m))"
proof (induction m arbitrary: n rule: cursor_induct [of b])
  case (step m)
  from step.prems have lt: "Suc m < length b"
    by (subst (asm) skip_msg_spaces.simps) (auto simp: pres_iff)
  show ?case
  proof (cases "b ! Suc m = SP")
    case True
    then have "skip_msg_spaces b (Suc m) (size_dec n) = PRet (m', n')"
      using step.prems lt by (subst (asm) skip_msg_spaces.simps) (simp add: pres_iff)
    with step.IH [of "size_dec n"] lt True show ?thesis by (auto simp: span_Cons size_dec_def)
  next
    case False
    with step.prems lt show ?thesis by (subst (asm) skip_msg_spaces.simps) (auto simp: pres_iff size_dec_def)
  qed
qed

lemma skip_msg_spaces_no_fault:
  "m < k \<Longrightarrow> k < length b \<Longrightarrow> b ! k \<noteq> SP \<Longrightarrow> skip_msg_spaces b m n \<noteq> PFault"
proof (induction m arbitrary: n rule: cursor_induct [of b])
  case (step m)
  then show ?case
    by (subst skip_msg_spaces.simps) (cases "Suc m = k"; auto simp: pres_iff)
qed

text \<open>
  The line end that \<^verbatim>\<open>get_token_to_eol\<close> found stops the loop that skips the spaces, so \<^verbatim>\<open>*msg_len\<close>
  does not wrap around: \<open>m' + n' = m + n\<close>.
\<close>

lemma eol_not_SP: "eol b k j \<Longrightarrow> k < length b \<and> b ! k \<noteq> SP"
  by (auto simp: eol_def)

lemma parse_msg_no_fault [no_fault]:
  assumes "get_token_to_eol b i = PRet (m, n, j)"
  shows "parse_msg b m n \<noteq> PFault"
  using get_token_to_eol_span [OF assms] eol_not_SP [of b "i + n" j] skip_msg_spaces_no_fault [of i "i + n" b n]
  by (auto simp: parse_msg_def pres_iff)

lemma parse_msg_PRet:
  assumes "get_token_to_eol b i = PRet (m, n, j)" "parse_msg b m n = PRet (m', n')"
  shows "m = i \<and> i \<le> m' \<and> span b i m' (\<lambda>c. c = SP) \<and> (n' \<noteq> 0 \<longrightarrow> b ! m' \<noteq> SP) \<and> span b m' (m' + n') (\<lambda>c. \<not> found_ctl c)
    \<and> eol b (m' + n') j"
proof -
  note g = get_token_to_eol_span [OF assms(1)]
  have e: "i + n < length b" "b ! (i + n) \<noteq> SP" using eol_not_SP [OF g(3)] by auto
  have range: "m \<le> m' \<and> m' + n' = m + n \<and> span b m m' (\<lambda>c. c = SP) \<and> (n' \<noteq> 0 \<longrightarrow> b ! m' \<noteq> SP)"
  proof (cases "n = 0")
    case True
    with assms(2) show ?thesis by (simp add: parse_msg_def)
  next
    case False
    with assms(2) have sk: "skip_msg_spaces b m n = PRet (m', n')" and sp: "b ! m = SP"
      by (auto simp: parse_msg_def pres_iff split: if_splits)
    have s: "m < m'" "b ! m' \<noteq> SP" "span b (Suc m) m' (\<lambda>c. c = SP)" "m' \<le> m + n \<longrightarrow> n' = n - (m' - m)"
      using skip_msg_spaces_PRet [OF sk] by auto
    have "\<not> m + n < m'" using s(3) e(2) g(1) False by (auto simp: span_def)
    then show ?thesis using s sp by (auto simp: span_Cons)
  qed
  then show ?thesis using g by (auto simp: span_def)
qed

lemma parse_response_no_fault [no_fault]:
  assumes "i \<le> length b" "o_num_headers (snd st) \<le> m" "m \<le> length (o_headers (snd st))"
  shows "snd (parse_response b i st m) \<noteq> PFault"
proof -
  obtain rs out where st: "st = (rs, out)" by (cases st)
  have i3: "PARSE_INT_3 b k s \<noteq> (v, PFault)" if "\<not> length b - k < 4" for k s v
  proof -
    have "k + 3 \<le> length b" using that by linarith
    then show ?thesis using PARSE_INT_3_no_fault [of k b s] by auto
  qed
  have hd: "parse_headers b k (out\<lparr>o_minor_version := v\<rparr>) m \<noteq> (out', PFault)" if "k \<le> length b" for k v out'
    using parse_headers_no_fault [of k b "out\<lparr>o_minor_version := v\<rparr>" m] that assms(2,3) by (auto simp: st)
  show ?thesis
    using assms(1) unfolding st
    by (auto simp: parse_response_def pres_iff no_fault Let_def i3 split: prod.splits if_splits
        dest!: parse_http_version_cursor skip_spaces_cursor PARSE_INT_3_PRet dest: get_token_to_eol_cursor hd [rotated])
qed

text \<open>The steps of a successful \<^verbatim>\<open>parse_response\<close>.\<close>

lemma beside_iff: "(case p of (y, r) \<Rightarrow> ((x, y), r)) = ((x', y'), r') \<longleftrightarrow> x = x' \<and> p = (y', r')"
  by (auto split: prod.splits)

lemma PARSE_INT_3_split:
  "(case PARSE_INT_3 b i s of (v, r) \<Rightarrow> sbind (g v, r) f) = (t, PRet n) \<longleftrightarrow> (\<exists>v j. PARSE_INT_3 b i s = (v, PRet j) \<and> f (g v) j = (t, PRet n))"
  by (auto simp: pres_iff split: prod.splits)

lemma parse_response_steps:
  assumes "parse_response b i (rs, out) m = ((rs', out'), PRet n)"
  obtains v i1 i2 status i3 msg msg_len i4 msg' msg_len' where
    "parse_http_version b i = PRet (v, i1)" "b ! i1 = SP" "skip_spaces b i1 = PRet i2" "\<not> length b - i2 < 4"
    "PARSE_INT_3 b i2 (r_status rs) = (status, PRet i3)" "get_token_to_eol b i3 = PRet (msg, msg_len, i4)"
    "parse_msg b msg msg_len = PRet (msg', msg_len')"
    "rs' = rs\<lparr>r_status := status, r_msg := Some msg', r_msg_len := msg_len'\<rparr>"
    "parse_headers b i4 (out\<lparr>o_minor_version := v\<rparr>) m = (out', PRet n)"
  using assms by (auto simp: parse_response_def Let_def pres_iff beside_iff PARSE_INT_3_split split: if_splits)

text \<open>
  A response the parser accepted, seen through the out-parameters: the status is written in three digits of the buffer,
  behind them come only spaces up to the message, and the message reaches exactly to the end of its line.
\<close>

definition three_digits :: "bytes \<Rightarrow> nat \<Rightarrow> int \<Rightarrow> bool" where
  "three_digits b i v \<longleftrightarrow> i + 3 \<le> length b \<and> (\<forall>k < 3. 48 \<le> schar (b ! (i + k)) \<and> schar (b ! (i + k)) \<le> 57)
     \<and> v = 100 * (schar (b ! i) - 48) + 10 * (schar (b ! (i + 1)) - 48) + (schar (b ! (i + 2)) - 48)"

definition response_ok :: "bytes \<Rightarrow> phr_status \<Rightarrow> phr_out \<Rightarrow> bool" where
  "response_ok b rs out \<longleftrightarrow>
     (\<exists>i m j. three_digits b i (r_status rs) \<and> r_msg rs = Some m \<and> i + 3 \<le> m \<and> span b (i + 3) m (\<lambda>c. c = SP)
        \<and> (r_msg_len rs \<noteq> 0 \<longrightarrow> b ! m \<noteq> SP) \<and> span b m (m + r_msg_len rs) (\<lambda>c. \<not> found_ctl c) \<and> eol b (m + r_msg_len rs) j)
     \<and> 0 \<le> o_minor_version out \<and> o_minor_version out \<le> 9 \<and> headers_ok b out"

lemma parse_response_ok:
  assumes "parse_response b i (rs, out) m = ((rs', out'), PRet n)" and "o_num_headers out = 0"
  shows "response_ok b rs' out'"
proof -
  obtain v i1 i2 status i3 msg msg_len i4 msg' msg_len' where
    v: "parse_http_version b i = PRet (v, i1)" and s: "PARSE_INT_3 b i2 (r_status rs) = (status, PRet i3)"
    and g: "get_token_to_eol b i3 = PRet (msg, msg_len, i4)" and p: "parse_msg b msg msg_len = PRet (msg', msg_len')"
    and rs': "rs' = rs\<lparr>r_status := status, r_msg := Some msg', r_msg_len := msg_len'\<rparr>"
    and h: "parse_headers b i4 (out\<lparr>o_minor_version := v\<rparr>) m = (out', PRet n)"
    using parse_response_steps [OF assms(1)] by metis
  have "headers_ok b out'"
    using assms(2) by (intro parse_headers_headers_ok [OF h]) (simp add: headers_ok_def)
  moreover have "three_digits b i2 status" "i3 = i2 + 3" using PARSE_INT_3_PRet [OF s] by (auto simp: three_digits_def)
  ultimately show ?thesis
    using parse_http_version_digit [OF v] parse_msg_PRet [OF g p] by (auto simp: response_ok_def rs' parse_headers_frame [OF h])
qed

section \<open>More bytes\<close>

lemma ext2_PARSE_INT_3 [ext_intros]: "ext2 (PARSE_INT_3 b i s) (PARSE_INT_3 (b @ c) i s)"
  by (auto simp: PARSE_INT_3_def PARSE_INT_def intro!: ext_intros split: prod.splits)

lemma ext_skip_msg_spaces [ext_intros]: "ext (skip_msg_spaces b m n) (skip_msg_spaces (b @ c) m n)"
proof (induction m arbitrary: n rule: cursor_induct [of b])
  case (step m)
  show ?case
    by (subst (1 2) skip_msg_spaces.simps) (auto simp: pres_iff intro!: ext_intros step)
qed

lemma ext_parse_msg [ext_intros]: "ext (parse_msg b m n) (parse_msg (b @ c) m n)"
  by (auto simp: parse_msg_def intro!: ext_intros)

lemma ext2_beside: "ext2 p p' \<Longrightarrow> ext2 (case p of (y, r) \<Rightarrow> ((x, y), r)) (case p' of (y, r) \<Rightarrow> ((x, y), r))"
  by (auto simp: ext2_def split: prod.splits)

lemma ext2_through:
  assumes "ext2 p p'" and "\<And>v j. p = (v, PRet j) \<Longrightarrow> ext2 (f (g v) j) (f' (g v) j)"
  shows "ext2 (case p of (v, r) \<Rightarrow> sbind (g v, r) f) (case p' of (v, r) \<Rightarrow> sbind (g v, r) f')"
  using assms by (cases p; cases "snd p") (auto simp: ext2_def)

lemma ext2_case_prod: "(\<And>x y. p = (x, y) \<Longrightarrow> ext2 (f x y) (g x y)) \<Longrightarrow> ext2 (case p of (x, y) \<Rightarrow> f x y) (case p of (x, y) \<Rightarrow> g x y)"
  by (cases p) simp

lemma ext2_parse_response [ext_intros]: "ext2 (parse_response b i st m) (parse_response (b @ c) i st m)"
proof -
  have d: "length (b @ c) - k < 4 \<Longrightarrow> length b - k < 4" for k by simp
  show ?thesis
    unfolding parse_response_def Let_def
    by (auto intro!: ext_intros ext2_beside ext2_through ext2_case_prod simp: d)
qed

lemma ext2_phr_parse_response: "ext2 (phr_parse_response b st 0) (phr_parse_response (b @ c) st 0)"
  by (auto simp: phr_parse_response_def Let_def intro!: ext_intros split: prod.splits)

section \<open>Printed responses\<close>

definition print_response :: "char \<Rightarrow> bytes \<Rightarrow> bytes \<Rightarrow> (bytes \<times> bytes) list \<Rightarrow> bytes" where
  "print_response minor status msg hs =
     ''HTTP/1.'' @ minor # SP # status @ SP # msg @ CR # LF # concat (map print_header hs) @ [CR, LF]"

definition digit :: "char \<Rightarrow> bool" where
  "digit c \<longleftrightarrow> 48 \<le> uchar c \<and> uchar c \<le> 57"

definition digit_val :: "char \<Rightarrow> int" where
  "digit_val c = int (uchar c) - 48"

definition wf_response :: "char \<Rightarrow> bytes \<Rightarrow> bytes \<Rightarrow> (bytes \<times> bytes) list \<Rightarrow> bool" where
  "wf_response minor status msg hs \<longleftrightarrow> digit minor \<and> length status = 3 \<and> list_all digit status
     \<and> (msg = [] \<or> hd msg \<noteq> SP) \<and> (\<forall>c \<in> set msg. \<not> found_ctl c) \<and> (\<forall>h \<in> set hs. wf_header h)"

lemma PARSE_INT_run: "digit c \<Longrightarrow> PARSE_INT (pre @ c # post) (length pre) m = PRet (m * digit_val c, length pre + 1)"
  by (simp add: PARSE_INT_def digit_def digit_val_def schar_def)

lemma PARSE_INT_3_run:
  assumes "list_all digit [x, y, z]"
  shows "PARSE_INT_3 (pre @ x # y # z # post) (length pre) s = (100 * digit_val x + 10 * digit_val y + digit_val z, PRet (length pre + 3))"
proof -
  let ?b = "pre @ x # y # z # post"
  have "PARSE_INT ?b (length pre) 100 = PRet (100 * digit_val x, length pre + 1)"
    "PARSE_INT ?b (length pre + 1) 10 = PRet (10 * digit_val y, length pre + 2)"
    "PARSE_INT ?b (length pre + 2) 1 = PRet (digit_val z, length pre + 3)"
    using assms PARSE_INT_run [of x pre] PARSE_INT_run [of y "pre @ [x]" "z # post"] PARSE_INT_run [of z "pre @ [x, y]" post] by auto
  then show ?thesis by (simp add: PARSE_INT_3_def)
qed

lemma parse_msg_run:
  assumes "msg = [] \<or> hd msg \<noteq> SP"
  shows "parse_msg (pre @ SP # msg @ CR # post) (length pre) (Suc (length msg)) = PRet (length pre + 1, length msg)"
proof -
  have "(pre @ SP # msg @ CR # post) ! Suc (length pre) = hd (msg @ [CR])"
    by (cases msg) (simp_all add: nth_append)
  moreover have "hd (msg @ [CR]) \<noteq> SP" using assms by (cases msg) auto
  ultimately show ?thesis by (subst parse_msg_def, subst skip_msg_spaces.simps) (simp add: size_dec_def)
qed

lemma digit_not_SP: "digit c \<Longrightarrow> c \<noteq> SP"
  by (auto simp: digit_def uchar_def)

lemma parse_response_line_run:
  assumes wf: "wf_response minor [x, y, z] msg hs"
  shows "parse_response (print_response minor [x, y, z] msg hs @ rest) 0 (rs, out) m =
    (case parse_headers (print_response minor [x, y, z] msg hs @ rest) (length msg + 15) (out\<lparr>o_minor_version := digit_val minor\<rparr>) m of (out, r) \<Rightarrow>
      ((rs\<lparr>r_status := 100 * digit_val x + 10 * digit_val y + digit_val z, r_msg := Some 13, r_msg_len := length msg\<rparr>, out), r))"
proof -
  let ?hs = "concat (map print_header hs) @ CR # LF # rest"
  let ?b = "print_response minor [x, y, z] msg hs @ rest"
  have w: "digit minor" "list_all digit [x, y, z]" "msg = [] \<or> hd msg \<noteq> SP" "\<forall>c \<in> set msg. \<not> found_ctl c"
    using wf by (auto simp: wf_response_def)
  have b: "?b = ''HTTP/1.'' @ minor # SP # x # y # z # SP # msg @ CR # LF # ?hs" by (simp add: print_response_def)
  have nc: "\<forall>c \<in> set (SP # msg). \<not> found_ctl c" using w(4) by (auto simp: found_ctl_def uchar_def)
  have "parse_http_version ?b 0 = PRet (digit_val minor, 8)"
    using parse_http_version_run [of minor "[]" SP] w(1) unfolding b by (simp add: digit_def digit_val_def)
  moreover have "peek ?b 8 = PRet SP" unfolding b by simp
  moreover have "skip_spaces ?b 8 = PRet 9"
    using skip_spaces_run [OF digit_not_SP [of x], of "''HTTP/1.'' @ [minor]" SP] w(2) unfolding b by (simp add: eval_nat_numeral)
  moreover have "\<not> length ?b - 9 < 4" unfolding b by simp
  moreover have "PARSE_INT_3 ?b 9 (r_status rs) = (100 * digit_val x + 10 * digit_val y + digit_val z, PRet 12)"
    using PARSE_INT_3_run [OF w(2), of "''HTTP/1.'' @ [minor, SP]"] unfolding b by (simp add: eval_nat_numeral)
  moreover have "get_token_to_eol ?b 12 = PRet (12, Suc (length msg), length msg + 15)"
    using get_token_to_eol_run [OF nc, of "''HTTP/1.'' @ [minor, SP, x, y, z]"] unfolding b by (simp add: eval_nat_numeral)
  moreover have "parse_msg ?b 12 (Suc (length msg)) = PRet (13, length msg)"
    using parse_msg_run [OF w(3), of "''HTTP/1.'' @ [minor, SP, x, y, z]"] unfolding b by (simp add: eval_nat_numeral)
  ultimately show ?thesis by (simp add: parse_response_def Let_def)
qed

lemma parse_response_run:
  assumes wf: "wf_response minor [x, y, z] msg hs"
    and out: "o_num_headers out = 0" "length hs \<le> m" "m \<le> length (o_headers out)"
  shows "parse_response (print_response minor [x, y, z] msg hs @ rest) 0 (rs, out) m =
    ((rs\<lparr>r_status := 100 * digit_val x + 10 * digit_val y + digit_val z, r_msg := Some 13, r_msg_len := length msg\<rparr>,
      store_headers (out\<lparr>o_minor_version := digit_val minor\<rparr>) (length msg + 15) hs),
     PRet (length (print_response minor [x, y, z] msg hs)))"
proof -
  let ?pre = "''HTTP/1.'' @ minor # SP # x # y # z # SP # msg @ [CR, LF]"
  let ?o = "out\<lparr>o_minor_version := digit_val minor\<rparr>"
  have "parse_headers (?pre @ concat (map print_header hs) @ CR # LF # rest) (length ?pre) ?o m =
      (store_headers ?o (length ?pre) hs, PRet (length ?pre + length (concat (map print_header hs)) + 2))"
    using wf out by (intro parse_headers_run) (simp_all add: wf_response_def)
  moreover have "?pre @ concat (map print_header hs) @ CR # LF # rest = print_response minor [x, y, z] msg hs @ rest"
    "length ?pre = length msg + 15"
    "length (print_response minor [x, y, z] msg hs) = length msg + 15 + length (concat (map print_header hs)) + 2"
    by (simp_all add: print_response_def)
  ultimately show ?thesis by (simp only: parse_response_line_run [OF wf]) simp
qed

lemma phr_parse_response_run:
  assumes wf: "wf_response minor [x, y, z] msg hs"
    and out: "length hs \<le> o_num_headers out" "o_num_headers out \<le> length (o_headers out)"
    and b_def: "b = print_response minor [x, y, z] msg hs @ rest"
  shows "\<exists>rs' out'. phr_parse_response b (rs, out) 0 = ((rs', out'), PRet (length (print_response minor [x, y, z] msg hs)))
    \<and> r_status rs' = 100 * digit_val x + 10 * digit_val y + digit_val z \<and> o_minor_version out' = digit_val minor
    \<and> bslice b (the (r_msg rs')) (r_msg_len rs') = msg \<and> header_pairs b out' = hs"
proof -
  let ?o = "out\<lparr>o_minor_version := digit_val minor, o_num_headers := 0\<rparr>"
  let ?pre = "''HTTP/1.'' @ minor # SP # x # y # z # SP # msg @ [CR, LF]"
  have b: "b = ?pre @ concat (map print_header hs) @ CR # LF # rest" by (simp add: b_def print_response_def)
  have hp: "header_pairs b (store_headers ?o (length msg + 15) hs) = hs"
    using header_pairs_store [of hs ?o ?pre "CR # LF # rest"] out unfolding b by (simp add: eval_nat_numeral)
  have ms: "bslice b 13 (length msg) = msg"
    using bslice_at [of "''HTTP/1.'' @ [minor, SP, x, y, z, SP]" msg "CR # LF # concat (map print_header hs) @ CR # LF # rest"] unfolding b by (simp add: eval_nat_numeral)
  show ?thesis
    using parse_response_run [OF wf, of "out\<lparr>o_minor_version := -1, o_num_headers := 0\<rparr>" "o_num_headers out" rest] out hp ms
    unfolding b_def by (simp add: phr_parse_response_def store_headers_def)
qed

end
