(* ===== verification/PicoResponseGate.thy ===== *)
theory PicoResponseGate
  imports PicoResponse PicoGate
begin

text \<open>
  The response parser under \<^verbatim>\<open>last_len\<close>: it never looks behind the head it accepts, every accepted head ends
  with a blank line, so it meets the contract \<open>gated_parser\<close>.
\<close>

lemma ext_definite: "ext r r' \<Longrightarrow> r \<noteq> PPartial \<Longrightarrow> r \<noteq> PFault \<Longrightarrow> r' = r"
  by (simp add: ext_def)

lemma ext2_definite: "ext2 p p' \<Longrightarrow> snd p \<noteq> PPartial \<Longrightarrow> snd p \<noteq> PFault \<Longrightarrow> p' = p"
  by (simp add: ext2_def)

lemma PARSE_INT_3_not_partial: "snd (PARSE_INT_3 b i s) \<noteq> PPartial"
proof -
  have p: "PARSE_INT b i m \<noteq> PPartial" for i m
    by (cases "i < length b") (simp_all add: PARSE_INT_def peek_def)
  then show ?thesis
    by (auto simp: PARSE_INT_3_def sbind_def split: prod.splits pres.splits)
qed

lemma PARSE_INT_3_local: "i + 3 \<le> length b \<Longrightarrow> PARSE_INT_3 (b @ c) i s = PARSE_INT_3 b i s"
  by (rule ext2_definite [OF ext2_PARSE_INT_3 PARSE_INT_3_not_partial PARSE_INT_3_no_fault])

lemma skip_msg_spaces_not_partial: "skip_msg_spaces b m n \<noteq> PPartial"
proof (induction m arbitrary: n rule: cursor_induct [of b])
  case (step m)
  show ?case
    using step.IH by (subst skip_msg_spaces.simps) (cases "Suc m < length b"; simp add: peek_def)
qed

lemma parse_msg_local: "get_token_to_eol b i = PRet (m, n, j) \<Longrightarrow> parse_msg (b @ c) m n = parse_msg b m n"
  by (rule ext_definite [OF ext_parse_msg _ parse_msg_no_fault])
     (auto simp: parse_msg_def peek_def skip_msg_spaces_not_partial)

lemma digits_crlf:
  assumes "PARSE_INT_3 b i s = (v, PRet j)"
  shows "crlf b i j"
proof (rule crlf_span [where P = "\<lambda>c. c \<noteq> CR"])
  have cr: "schar CR < 48" by (simp add: schar_def uchar_def)
  note d = PARSE_INT_3_PRet [OF assms]
  show "span b i j (\<lambda>c. c \<noteq> CR)"
    unfolding span_def
  proof (intro allI impI)
    fix k
    assume "i \<le> k \<and> k < j"
    moreover from this have "k - i < 3" using d by linarith
    then have "48 \<le> schar (b ! (i + (k - i)))" using d by blast
    ultimately show "b ! k \<noteq> CR" using cr by auto
  qed
qed simp

lemma get_token_to_eol_crlf:
  assumes "get_token_to_eol b i = PRet (v, n, k)"
  shows "crlf b i k \<and> 0 < k \<and> b ! (k - 1) = LF"
proof -
  note sp = get_token_to_eol_span [OF assms]
  have "crlf b i (i + n)" using sp(2) by (intro crlf_span [where P = "\<lambda>c. \<not> found_ctl c"]) simp_all
  moreover have "i + n \<le> k" using get_token_to_eol_cursor [OF assms] by simp
  ultimately show ?thesis using crlf_trans [OF _ crlf_eol [OF sp(3)]] sp(3) by (auto simp: eol_def)
qed

lemma parse_response_cursors:
  assumes "parse_http_version b i = PRet (v, i1)" "skip_spaces b i1 = PRet i2" "PARSE_INT_3 b i2 s = (status, PRet i3)"
    and "get_token_to_eol b i3 = PRet (msg, msg_len, i4)"
  shows "i1 < i2" "i3 = i2 + 3" "i3 < i4"
  using skip_spaces_cursor [OF assms(2)] PARSE_INT_3_PRet [OF assms(3)] get_token_to_eol_cursor [OF assms(4)] by auto

lemma parse_response_local:
  assumes "parse_response (b @ c) i (rs, out) m = ((rs', out'), PRet n)" and "o_num_headers out \<le> m" and "n \<le> length b"
  shows "parse_response b i (rs, out) m = ((rs', out'), PRet n)"
proof -
  obtain v i1 i2 status i3 msg msg_len i4 msg' msg_len' where
    s: "parse_http_version (b @ c) i = PRet (v, i1)" "(b @ c) ! i1 = SP" "skip_spaces (b @ c) i1 = PRet i2"
    "PARSE_INT_3 (b @ c) i2 (r_status rs) = (status, PRet i3)" "get_token_to_eol (b @ c) i3 = PRet (msg, msg_len, i4)"
    "parse_msg (b @ c) msg msg_len = PRet (msg', msg_len')"
    and rs': "rs' = rs\<lparr>r_status := status, r_msg := Some msg', r_msg_len := msg_len'\<rparr>"
    and h: "parse_headers (b @ c) i4 (out\<lparr>o_minor_version := v\<rparr>) m = (out', PRet n)"
    using parse_response_steps [OF assms(1)] by metis
  note le = parse_response_cursors [OF s(1,3-5)]
  have i4: "i4 < n" using parse_headers_bounds [OF h] assms(2) by simp
  have lt: "i1 < length b" "i2 < length b" "i2 + 3 \<le> length b" "i4 \<le> length b" "\<not> length b - i2 < 4"
    using le i4 assms(3) by simp_all
  have g: "get_token_to_eol b i3 = PRet (msg, msg_len, i4)" by (rule get_token_to_eol_local [OF s(5) lt(4)])
  have "parse_headers b i4 (out\<lparr>o_minor_version := v\<rparr>) m = (out', PRet n)"
    using parse_headers_local [OF h _ assms(3)] assms(2) by simp
  moreover have "PARSE_INT_3 b i2 (r_status rs) = (status, PRet i3)" using s(4) by (simp add: PARSE_INT_3_local lt(3))
  moreover have "parse_msg b msg msg_len = PRet (msg', msg_len')" using s(6) by (simp add: parse_msg_local [OF g])
  ultimately show ?thesis
    using parse_http_version_local [OF s(1) lt(1)] skip_spaces_local [OF s(3) lt(2)] s(2) g lt(1,5)
    by (simp add: parse_response_def Let_def rs' nth_append)
qed

lemma parse_response_blank_line:
  assumes "parse_response b 0 (rs, out) m = ((rs', out'), PRet e)"
  shows "crlf b 0 e \<and> (\<exists>f. b ! f = LF \<and> eol b (f + 1) e)"
proof -
  obtain v i1 i2 status i3 msg msg_len i4 where
    s: "parse_http_version b 0 = PRet (v, i1)" "b ! i1 = SP" "skip_spaces b i1 = PRet i2"
    "PARSE_INT_3 b i2 (r_status rs) = (status, PRet i3)" "get_token_to_eol b i3 = PRet (msg, msg_len, i4)"
    and h: "parse_headers b i4 (out\<lparr>o_minor_version := v\<rparr>) m = (out', PRet e)"
    using parse_response_steps [OF assms] by metis
  note le = parse_response_cursors [OF s(1,3-5)] and g = get_token_to_eol_crlf [OF s(5)]
  obtain f where f: "crlf b i4 e" "i4 - 1 \<le> f" "b ! f = LF" "eol b (f + 1) e"
    using parse_headers_blank_line [OF h] g by blast
  have "crlf b 0 (Suc i1)" using crlf_trans [OF parse_http_version_crlf [OF s(1)] crlf_one] s(2) by simp
  then have "crlf b 0 i2" using crlf_trans [OF _ skip_spaces_crlf [OF s(3)]] le by simp
  then have "crlf b 0 i3" using crlf_trans [OF _ digits_crlf [OF s(4)]] le by simp
  then have "crlf b 0 i4" using crlf_trans g le by auto
  then have "crlf b 0 e" using crlf_trans [OF _ f(1)] f(2,4) by (auto simp: eol_def)
  with f show ?thesis by blast
qed

text \<open>The structure \<^verbatim>\<open>phr_parse_response\<close> starts from, for a caller with the header array \<open>hs\<close>.\<close>

definition response_start :: "phr_header list \<Rightarrow> phr_status \<times> phr_out" where
  "response_start hs = (\<lparr>r_status = 0, r_msg = None, r_msg_len = 0\<rparr>,
     \<lparr>o_method = None, o_method_len = 0, o_path = None, o_path_len = 0, o_minor_version = -1, o_headers = hs, o_num_headers = 0\<rparr>)"

definition response_call :: "phr_header list \<Rightarrow> phr_status \<times> phr_out" where
  "response_call hs = (case response_start hs of (rs, out) \<Rightarrow> (rs, out\<lparr>o_num_headers := length hs\<rparr>))"

interpretation response: gated_parser "\<lambda>b. parse_response b 0 (response_start hs) (length hs)" "response_start hs"
  for hs
proof unfold_locales
  fix b c s e
  let ?p = "\<lambda>b. parse_response b 0 (response_start hs) (length hs)"
  show "?p b = (s, PRet e)" if "?p (b @ c) = (s, PRet e)" "e \<le> length b"
    using that parse_response_local [of b c 0 _ _ "length hs" "fst s" "snd s" e] by (simp add: response_start_def)
  show "ext2 (?p b) (?p (b @ c))" by (rule ext2_parse_response)
  show "snd (?p b) \<noteq> PFault" by (rule parse_response_no_fault) (simp_all add: response_start_def)
  show "crlf b 0 e \<and> (\<exists>f. b ! f = LF \<and> eol b (f + 1) e)" if "?p b = (s, PRet e)"
    using that parse_response_blank_line [of b _ _ "length hs" "fst s" "snd s" e] by (simp add: response_start_def)
qed

lemma phr_parse_response_gated: "phr_parse_response b (response_call hs) last_len = response.gated hs b last_len"
  unfolding response.gated_def phr_parse_response_def
  by (simp add: response_call_def response_start_def Let_def sbind_const [of _ _ "\<lambda>st. parse_response b 0 st (length hs)"])

end
