(* ===== verification/ResponseProperties.thy ===== *)
theory ResponseProperties
  imports PicoResponseGate HttpMessage
begin

text \<open>
  The properties of the response parser, and its agreement with the server's own
  \<^verbatim>\<open>serialize_response\<close>.
\<close>

definition sample_status :: phr_status where
  "sample_status = \<lparr>r_status = 7, r_msg = Some 3, r_msg_len = 9\<rparr>"

definition response_out :: phr_out where
  "response_out = \<lparr>o_method = None, o_method_len = 0, o_path = None, o_path_len = 0, o_minor_version = 0,
     o_headers = replicate 2 empty_header, o_num_headers = 2\<rparr>"

definition sample_response :: bytes where
  "sample_response = ''HTTP/1.1 404  Not Found'' @ [CR, LF] @ ''A: b'' @ [CR, LF, CR, LF]"

text \<open>
  memory safety of \<^verbatim>\<open>phr_parse_response\<close>: with a header array as long as announced and a
  \<^verbatim>\<open>last_len\<close> not beyond the buffer, no byte outside the buffer is read and no header outside the array
  written. In particular the loop that skips the spaces before the message stops at the line end.
\<close>
theorem phr_parse_response_memory_safe:
  assumes "o_num_headers out \<le> length (o_headers out)" and "last_len \<le> length b + 3"
  shows "snd (phr_parse_response b (rs, out) last_len) \<noteq> PFault"
  using assms by (auto simp: phr_parse_response_def Let_def pres_iff no_fault)

theorem phr_parse_response_memory_safe_witness:
  "snd (phr_parse_response sample_response (sample_status, response_out) 7) \<noteq> PFault"
  using phr_parse_response_memory_safe [of response_out 7 sample_response sample_status]
  by (simp add: response_out_def sample_response_def)

text \<open>
  C28: soundness and finality of \<^verbatim>\<open>phr_parse_response\<close>: what it accepts has a status written in three digits, then
  only spaces, then a message without control characters that starts with no space and reaches exactly to the end of
  the line (so that \<^verbatim>\<open>*msg_len\<close>, which the loop over the spaces counts down, has not wrapped around), a version digit
  and well-formed headers; and bytes that arrive later change nothing.
\<close>
theorem phr_parse_response_sound:
  assumes "phr_parse_response b (rs, out) 0 = ((rs', out'), PRet n)"
  shows "0 < n \<and> n \<le> length b \<and> response_ok b rs' out' \<and> o_num_headers out' \<le> o_num_headers out
    \<and> phr_parse_response (b @ c) (rs, out) 0 = ((rs', out'), PRet n)"
proof -
  let ?rs = "rs\<lparr>r_status := 0, r_msg := None, r_msg_len := 0\<rparr>" and ?out = "out\<lparr>o_minor_version := -1, o_num_headers := 0\<rparr>"
  have p: "parse_response b 0 (?rs, ?out) (o_num_headers out) = ((rs', out'), PRet n)"
    using assms by (simp add: phr_parse_response_def)
  have "response_ok b rs' out'" by (rule parse_response_ok [OF p]) simp
  moreover have "0 < n \<and> n \<le> length b \<and> o_num_headers out' \<le> o_num_headers out"
  proof -
    obtain v i4 where "parse_headers b i4 (?out\<lparr>o_minor_version := v\<rparr>) (o_num_headers out) = (out', PRet n)"
      using parse_response_steps [OF p] by metis
    from parse_headers_bounds [OF this] show ?thesis by simp
  qed
  moreover have "phr_parse_response (b @ c) (rs, out) 0 = ((rs', out'), PRet n)"
    using ext2_phr_parse_response [of b "(rs, out)" c] assms by (simp add: ext2_def)
  ultimately show ?thesis by blast
qed

lemma sample_response_parsed:
  "phr_parse_response sample_response (sample_status, response_out) 0 =
    ((\<lparr>r_status = 404, r_msg = Some 14, r_msg_len = 9\<rparr>,
      response_out\<lparr>o_minor_version := 1, o_headers := [\<lparr>h_name = Some 25, h_name_len = 1, h_value = Some 28, h_value_len = 1\<rparr>, empty_header], o_num_headers := 1\<rparr>), PRet 33)"
  by code_simp

theorem phr_parse_response_sound_witness:
  "\<exists>rs out. response_ok sample_response rs out \<and> r_status rs = 404
    \<and> phr_parse_response (sample_response @ ''body'') (sample_status, response_out) 0 = ((rs, out), PRet 33)"
  using phr_parse_response_sound [OF sample_response_parsed, of "''body''"] by (metis phr_status.select_convs(1))

text \<open>
  C37: reading a response piece by piece: where the whole of it is accepted, every part too short is reported
  incomplete, whatever \<^verbatim>\<open>last_len\<close> of an earlier part the caller passes, and a retry with such a
  \<^verbatim>\<open>last_len\<close> gives the very result of parsing from scratch.
\<close>
theorem phr_parse_response_resumes:
  assumes "phr_parse_response b (response_call hs) 0 = (st, PRet e)" and "last_len < e"
  shows "phr_parse_response b (response_call hs) last_len = (st, PRet e)
    \<and> (last_len \<le> k \<and> k < e \<longrightarrow> snd (phr_parse_response (take k b) (response_call hs) last_len) = PPartial)"
proof -
  have "parse_response b 0 (response_start hs) (length hs) = (st, PRet e)"
    using assms(1) by (simp only: phr_parse_response_gated response.gated_0)
  from response.gated_later [OF this assms(2)] response.gated_incomplete [OF this] show ?thesis
    by (simp add: phr_parse_response_gated)
qed

theorem phr_parse_response_resumes_witness:
  "r_status (fst (fst (phr_parse_response sample_response (response_call [empty_header]) 20))) = 404
    \<and> snd (phr_parse_response (take 30 sample_response) (response_call [empty_header]) 20) = PPartial"
proof -
  have "r_status (fst (fst (phr_parse_response sample_response (response_call [empty_header]) 0))) = 404"
    "snd (phr_parse_response sample_response (response_call [empty_header]) 0) = PRet 33"
    by code_simp+
  then obtain st where st: "phr_parse_response sample_response (response_call [empty_header]) 0 = (st, PRet 33)" "r_status (fst st) = 404"
    by (metis prod.collapse)
  from phr_parse_response_resumes [OF st(1), of 20 30] st(2) show ?thesis by simp
qed

lemma show_status [simp]:
  "show_int 200 = ''200''" "show_int 204 = ''204''" "show_int 400 = ''400''" "show_int 403 = ''403''"
  "show_int 404 = ''404''" "show_int 405 = ''405''" "show_int 500 = ''500''" "show_int 505 = ''505''"
  by code_simp+

lemma status_digits:
  "\<exists>x y z. show_int (status_code s) = [x, y, z] \<and> list_all digit [x, y, z]
     \<and> 100 * digit_val x + 10 * digit_val y + digit_val z = status_code s"
  by (cases s) (simp_all add: digit_def digit_val_def uchar_def)

lemma status_text_plain:
  "(\<forall>c \<in> set (status_text (status_code s)). \<not> found_ctl c) \<and> hd (status_text (status_code s)) \<noteq> SP"
  by (cases s) (simp_all add: status_text_def found_ctl_def uchar_def)

lemma response_text_print:
  assumes "show_int (status_code (res_status res)) = [x, y, z]"
  shows "response_text res = print_response (CHR ''0'') [x, y, z] (status_text (status_code (res_status res))) (res_headers res)"
proof -
  have "header_line = print_header" by (simp add: fun_eq_iff header_line_def print_header_def)
  then show ?thesis by (simp add: response_text_def status_line_def print_response_def assms)
qed

text \<open>
  C10: the server's responses are responses: what \<^verbatim>\<open>serialize_response\<close> writes is, followed by any body, accepted
  by \<^verbatim>\<open>phr_parse_response\<close>, which consumes exactly the head and finds the status code, the reason phrase and
  the headers that went in.
\<close>
theorem serialized_response_parses:
  assumes "serialize_response res sz = Some text" "\<forall>h \<in> set (res_headers res). wf_header h"
    and "length (res_headers res) \<le> o_num_headers out" "o_num_headers out \<le> length (o_headers out)"
  shows "\<exists>rs' out'. phr_parse_response (text @ body) (rs, out) 0 = ((rs', out'), PRet (length text))
    \<and> r_status rs' = status_code (res_status res) \<and> o_minor_version out' = 0
    \<and> bslice (text @ body) (the (r_msg rs')) (r_msg_len rs') = status_text (status_code (res_status res))
    \<and> header_pairs (text @ body) out' = res_headers res"
proof -
  obtain x y z where d: "show_int (status_code (res_status res)) = [x, y, z]" "list_all digit [x, y, z]"
    "100 * digit_val x + 10 * digit_val y + digit_val z = status_code (res_status res)"
    using status_digits by blast
  let ?m = "status_text (status_code (res_status res))"
  have t: "text = print_response (CHR ''0'') [x, y, z] ?m (res_headers res)"
    using assms(1) response_text_print [OF d(1)] by (simp add: serialize_response_eq split: if_splits)
  have z: "digit (CHR ''0'')" "digit_val (CHR ''0'') = 0" by (simp_all add: digit_def digit_val_def uchar_def)
  have wf: "wf_response (CHR ''0'') [x, y, z] ?m (res_headers res)"
    using d(2) z(1) assms(2) status_text_plain [of "res_status res"] by (simp add: wf_response_def)
  from phr_parse_response_run [OF wf assms(3,4) refl, of body rs] d(3) z(2) show ?thesis by (simp add: t)
qed

theorem serialized_response_parses_witness:
  "\<exists>text rs' out'. serialize_response \<lparr>res_status = HTTP_NOT_FOUND, res_headers = [(''Server'', ''x'')]\<rparr> 100 = Some text
    \<and> phr_parse_response (text @ ''gone'') (sample_status, response_out) 0 = ((rs', out'), PRet (length text)) \<and> r_status rs' = 404"
proof -
  let ?res = "\<lparr>res_status = HTTP_NOT_FOUND, res_headers = [(''Server'', ''x'')]\<rparr>"
  have "serialize_response ?res 100 = Some (response_text ?res)" by code_simp
  moreover have "\<forall>h \<in> set (res_headers ?res). wf_header h" by code_simp
  ultimately show ?thesis
    using serialized_response_parses [of ?res 100 "response_text ?res" response_out "''gone''" sample_status]
    by (auto simp: response_out_def)
qed

end
