(* ===== verification/ChunkedDecoder.thy ===== *)
theory ChunkedDecoder
  imports Prelude "HOL-Library.Word"
begin

text \<open>
  \<^verbatim>\<open>phr_decode_chunked\<close> of \<^verbatim>\<open>srclib/picohttpparser.c\<close>: the decoder of chunked bodies, which rewrites
  the caller's buffer in place. The model keeps the two offsets and the \<^verbatim>\<open>memmove\<close> calls; a
  reference automaton that looks at one byte at a time, and that the two agree, is in \<open>ChunkedProps\<close>.
\<close>

section \<open>The decoder\<close>

datatype chunk_state = CHUNKED_IN_CHUNK_SIZE | CHUNKED_IN_CHUNK_EXT | CHUNKED_IN_CHUNK_HEADER_EXPECT_LF
  | CHUNKED_IN_CHUNK_DATA | CHUNKED_IN_CHUNK_DATA_EXPECT_CR | CHUNKED_IN_CHUNK_DATA_EXPECT_LF
  | CHUNKED_IN_TRAILERS_LINE_HEAD | CHUNKED_IN_TRAILERS_LINE_MIDDLE

record phr_chunked_decoder =
  bytes_left_in_chunk :: "64 word"
  consume_trailer :: bool
  hex_count :: nat
  chunk_st :: chunk_state
  total_read :: "64 word"
  total_overhead :: "64 word"

definition decode_hex :: "int \<Rightarrow> int" where
  "decode_hex ch =
     (if 48 \<le> ch \<and> ch \<le> 57 then ch - 48
      else if 65 \<le> ch \<and> ch \<le> 70 then ch - 65 + 10
      else if 97 \<le> ch \<and> ch \<le> 102 then ch - 97 + 10
      else -1)"

definition memmove :: "bytes \<Rightarrow> nat \<Rightarrow> nat \<Rightarrow> nat \<Rightarrow> bytes" where
  "memmove buf dst src n = take dst buf @ take n (drop src buf) @ drop (dst + n) buf"

text \<open>Where an iteration ends: in the loop again, at \<^verbatim>\<open>Exit\<close> with a value of \<^verbatim>\<open>ret\<close>, or at \<^verbatim>\<open>Complete\<close>.\<close>

datatype chunk_goto = Again | Exit int | Complete | Beyond

text \<open>
  What a state other than the copying one does with the byte it looks at: the new decoder, whether
  the byte is consumed, and where it goes. The iterations of the inner \<^verbatim>\<open>for\<close> loops are those that
  keep the state; a fall-through is one that goes on.
\<close>

definition byte_step :: "phr_chunked_decoder \<Rightarrow> char \<Rightarrow> phr_chunked_decoder \<times> nat \<times> chunk_goto" where
  "byte_step d c = (case chunk_st d of
     CHUNKED_IN_CHUNK_SIZE \<Rightarrow>
       (let v = decode_hex (schar c) in
        if v = -1 then
          if hex_count d = 0 then (d, 0, Exit (-1))
          else if c = SP \<or> c = HT \<or> c = CHR '';'' \<or> c = LF \<or> c = CR
          then (d\<lparr>hex_count := 0, chunk_st := CHUNKED_IN_CHUNK_EXT\<rparr>, 0, Again)
          else (d, 0, Exit (-1))
        else if hex_count d = 16 then (d, 0, Exit (-1))
        else (d\<lparr>bytes_left_in_chunk := bytes_left_in_chunk d * 16 + word_of_int v, hex_count := hex_count d + 1\<rparr>, 1, Again))
   | CHUNKED_IN_CHUNK_EXT \<Rightarrow>
       if c = CR then (d\<lparr>chunk_st := CHUNKED_IN_CHUNK_HEADER_EXPECT_LF\<rparr>, 1, Again)
       else if c = LF then (d, 0, Exit (-1))
       else (d, 1, Again)
   | CHUNKED_IN_CHUNK_HEADER_EXPECT_LF \<Rightarrow>
       if c \<noteq> LF then (d, 0, Exit (-1))
       else if bytes_left_in_chunk d = 0 then
         if consume_trailer d then (d\<lparr>chunk_st := CHUNKED_IN_TRAILERS_LINE_HEAD\<rparr>, 1, Again)
         else (d, 1, Complete)
       else (d\<lparr>chunk_st := CHUNKED_IN_CHUNK_DATA\<rparr>, 1, Again)
   | CHUNKED_IN_CHUNK_DATA \<Rightarrow> (d, 0, Again)
   | CHUNKED_IN_CHUNK_DATA_EXPECT_CR \<Rightarrow>
       if c \<noteq> CR then (d, 0, Exit (-1)) else (d\<lparr>chunk_st := CHUNKED_IN_CHUNK_DATA_EXPECT_LF\<rparr>, 1, Again)
   | CHUNKED_IN_CHUNK_DATA_EXPECT_LF \<Rightarrow>
       if c \<noteq> LF then (d, 0, Exit (-1)) else (d\<lparr>chunk_st := CHUNKED_IN_CHUNK_SIZE\<rparr>, 1, Again)
   | CHUNKED_IN_TRAILERS_LINE_HEAD \<Rightarrow>
       if c = CR then (d, 1, Again)
       else if c = LF then (d, 1, Complete)
       else (d\<lparr>chunk_st := CHUNKED_IN_TRAILERS_LINE_MIDDLE\<rparr>, 1, Again)
   | CHUNKED_IN_TRAILERS_LINE_MIDDLE \<Rightarrow>
       if c = LF then (d\<lparr>chunk_st := CHUNKED_IN_TRAILERS_LINE_HEAD\<rparr>, 1, Again)
       else (d, 1, Again))"

text \<open>At the end of the input such a state leaves with -2; \<open>Beyond\<close> is an access behind the end of the buffer.\<close>

definition chunk_byte :: "bytes \<Rightarrow> nat \<Rightarrow> nat \<Rightarrow> phr_chunked_decoder \<Rightarrow> phr_chunked_decoder \<times> nat \<times> chunk_goto" where
  "chunk_byte buf bufsz src d =
     (if src = bufsz then (d, src, Exit (-2))
      else if bufsz < src \<or> length buf \<le> src then (d, src, Beyond)
      else (case byte_step d (buf ! src) of (d, n, g) \<Rightarrow> (d, src + n, g)))"

text \<open>The state that copies: all that is available, or the rest of the chunk.\<close>

definition chunk_data :: "bytes \<Rightarrow> nat \<Rightarrow> nat \<Rightarrow> nat \<Rightarrow> phr_chunked_decoder \<Rightarrow> phr_chunked_decoder \<times> bytes \<times> nat \<times> nat \<times> chunk_goto" where
  "chunk_data buf bufsz dst src d =
     (let avail = bufsz - src; left = unat (bytes_left_in_chunk d) in
      if bufsz < src \<or> length buf < bufsz then (d, buf, dst, src, Beyond)
      else if avail < left then
        (d\<lparr>bytes_left_in_chunk := bytes_left_in_chunk d - of_nat avail\<rparr>,
         if dst \<noteq> src then memmove buf dst src avail else buf, dst + avail, src + avail, Exit (-2))
      else
        (d\<lparr>bytes_left_in_chunk := 0, chunk_st := CHUNKED_IN_CHUNK_DATA_EXPECT_CR\<rparr>,
         if dst \<noteq> src then memmove buf dst src left else buf, dst + left, src + left, Again))"

definition chunk_step :: "bytes \<Rightarrow> nat \<Rightarrow> nat \<Rightarrow> nat \<Rightarrow> phr_chunked_decoder \<Rightarrow> phr_chunked_decoder \<times> bytes \<times> nat \<times> nat \<times> chunk_goto" where
  "chunk_step buf bufsz dst src d =
     (if chunk_st d = CHUNKED_IN_CHUNK_DATA then chunk_data buf bufsz dst src d
      else (case chunk_byte buf bufsz src d of (d, src, g) \<Rightarrow> (d, buf, dst, src, g)))"

text \<open>For termination: an iteration that goes on consumes bytes, or is in a state that falls through without one.\<close>

definition chunk_rank :: "chunk_state \<Rightarrow> nat" where
  "chunk_rank s = (if s = CHUNKED_IN_CHUNK_SIZE \<or> s = CHUNKED_IN_CHUNK_DATA then 1 else 0)"

lemma byte_step_again:
  assumes "byte_step d c = (d', n, Again)" "chunk_st d \<noteq> CHUNKED_IN_CHUNK_DATA"
  shows "n = 1 \<or> n = 0 \<and> chunk_rank (chunk_st d') < chunk_rank (chunk_st d)"
  using assms by (cases "chunk_st d") (auto simp: byte_step_def chunk_rank_def Let_def split: if_splits)

lemma chunk_byte_again:
  assumes "chunk_byte buf bufsz src d = (d', src', Again)" "chunk_st d \<noteq> CHUNKED_IN_CHUNK_DATA"
  shows "src' \<le> bufsz \<and> (src < src' \<or> src' = src \<and> chunk_rank (chunk_st d') < chunk_rank (chunk_st d))"
proof -
  have s: "src < bufsz" "src < length buf" using assms(1) by (auto simp: chunk_byte_def split: if_splits)
  obtain n where n: "byte_step d (buf ! src) = (d', n, Again)" "src' = src + n"
    using assms(1) s by (auto simp: chunk_byte_def split: prod.splits)
  from byte_step_again [OF n(1) assms(2)] s n(2) show ?thesis by auto
qed

lemma chunk_data_again:
  assumes "chunk_data buf bufsz dst src d = (d', buf', dst', src', Again)"
  shows "src' \<le> bufsz \<and> src \<le> src' \<and> chunk_st d' = CHUNKED_IN_CHUNK_DATA_EXPECT_CR"
  using assms by (auto simp: chunk_data_def Let_def split: if_splits)

lemma chunk_step_again:
  assumes "chunk_step buf bufsz dst src d = (d', buf', dst', src', Again)"
  shows "src' \<le> bufsz \<and> (src < src' \<or> src' = src \<and> chunk_rank (chunk_st d') < chunk_rank (chunk_st d))"
proof (cases "chunk_st d = CHUNKED_IN_CHUNK_DATA")
  case True
  with assms chunk_data_again [of buf bufsz dst src d d' buf' dst' src'] show ?thesis by (auto simp: chunk_step_def chunk_rank_def)
next
  case False
  with assms chunk_byte_again [of buf bufsz src d d' src'] show ?thesis by (auto simp: chunk_step_def split: prod.splits)
qed

text \<open>The loop: the decoder, the buffer, the two offsets and how it was left.\<close>

function chunk_loop :: "bytes \<Rightarrow> nat \<Rightarrow> nat \<Rightarrow> nat \<Rightarrow> phr_chunked_decoder \<Rightarrow> phr_chunked_decoder \<times> bytes \<times> nat \<times> nat \<times> chunk_goto" where
  "chunk_loop buf bufsz dst src d =
     (case chunk_step buf bufsz dst src d of
        (d', buf', dst', src', Again) \<Rightarrow> chunk_loop buf' bufsz dst' src' d'
      | r \<Rightarrow> r)"
  by pat_completeness auto
termination
  by (relation "measures [\<lambda>(buf, bufsz, dst, src, d). bufsz - src, \<lambda>(buf, bufsz, dst, src, d). chunk_rank (chunk_st d)]")
     (auto dest!: chunk_step_again [OF sym])

declare chunk_loop.simps [simp del]

text \<open>
  The result: the return value (\<open>None\<close> for an access behind the buffer), the decoder, the buffer and
  the new \<^verbatim>\<open>*_bufsz\<close>.
\<close>

definition phr_decode_chunked :: "phr_chunked_decoder \<Rightarrow> bytes \<Rightarrow> nat \<Rightarrow> int option \<times> phr_chunked_decoder \<times> bytes \<times> nat" where
  "phr_decode_chunked d buf bufsz =
     (let d = d\<lparr>total_read := total_read d + of_nat bufsz\<rparr> in
      case chunk_loop buf bufsz 0 0 d of (d, buf, dst, src, g) \<Rightarrow>
      case g of Beyond \<Rightarrow> (None, d, buf, dst) | _ \<Rightarrow>
      (let ret = (case g of Complete \<Rightarrow> int (bufsz - src) | Exit r \<Rightarrow> r | _ \<Rightarrow> -2);
           buf = (if dst \<noteq> src then memmove buf dst src (bufsz - src) else buf) in
       if ret = -2 then
         (let d = d\<lparr>total_overhead := total_overhead d + of_nat (bufsz - dst)\<rparr> in
          if 102400 \<le> total_overhead d \<and> total_read d - total_overhead d < total_read d div 4
          then (Some (-1), d, buf, dst) else (Some (-2), d, buf, dst))
       else (Some ret, d, buf, dst)))"

definition phr_decode_chunked_is_in_data :: "phr_chunked_decoder \<Rightarrow> bool" where
  "phr_decode_chunked_is_in_data d \<longleftrightarrow> chunk_st d = CHUNKED_IN_CHUNK_DATA"

end
