(* ===== verification/ChunkedProps.thy ===== *)
theory ChunkedProps
  imports ChunkedDecoder
begin

text \<open>
  The decoder of chunked bodies against a reference that reads a list byte by byte and emits the
  data: safety of the in-place copying, independence of the way the input is cut into pieces, and
  the round trip with the chunked encoding.
\<close>

section \<open>The reference\<close>

datatype feed_end = NeedMore | Malformed | Finished bytes

definition data_byte :: "phr_chunked_decoder \<Rightarrow> phr_chunked_decoder" where
  "data_byte d = (if bytes_left_in_chunk d = 1 then d\<lparr>bytes_left_in_chunk := 0, chunk_st := CHUNKED_IN_CHUNK_DATA_EXPECT_CR\<rparr>
     else d\<lparr>bytes_left_in_chunk := bytes_left_in_chunk d - 1\<rparr>)"

definition emit :: "bytes \<Rightarrow> phr_chunked_decoder \<times> bytes \<times> feed_end \<Rightarrow> phr_chunked_decoder \<times> bytes \<times> feed_end" where
  "emit xs r = (fst r, xs @ fst (snd r), snd (snd r))"

function feed_chunks :: "phr_chunked_decoder \<Rightarrow> bytes \<Rightarrow> phr_chunked_decoder \<times> bytes \<times> feed_end" where
  "feed_chunks d [] = (d, [], NeedMore)"
| "feed_chunks d (c # cs) =
     (if chunk_st d = CHUNKED_IN_CHUNK_DATA then emit [c] (feed_chunks (data_byte d) cs)
      else (case byte_step d c of
        (d', n, Again) \<Rightarrow> feed_chunks d' (if n = 0 then c # cs else cs)
      | (d', n, Complete) \<Rightarrow> (d', [], Finished cs)
      | (d', n, _) \<Rightarrow> (d', [], Malformed)))"
  by pat_completeness auto
termination
  by (relation "measures [\<lambda>(d, cs). length cs, \<lambda>(d, cs). chunk_rank (chunk_st d)]")
     (auto dest!: byte_step_again [OF sym])

declare feed_chunks.simps(2) [simp del]

lemma emit_simps [simp]: "emit xs (d, out, e) = (d, xs @ out, e)" "emit [] r = r" "emit xs (emit ys r) = emit (xs @ ys) r"
  by (simp_all add: emit_def)

lemma feed_data:
  "chunk_st d = CHUNKED_IN_CHUNK_DATA \<Longrightarrow> feed_chunks d (c # cs) = emit [c] (feed_chunks (data_byte d) cs)"
  by (simp add: feed_chunks.simps(2))

lemma feed_again:
  "chunk_st d \<noteq> CHUNKED_IN_CHUNK_DATA \<Longrightarrow> byte_step d c = (d', n, Again) \<Longrightarrow>
   feed_chunks d (c # cs) = feed_chunks d' (if n = 0 then c # cs else cs)"
  by (simp add: feed_chunks.simps(2))

lemma data_block_part:
  "chunk_st d = CHUNKED_IN_CHUNK_DATA \<Longrightarrow> length xs < unat (bytes_left_in_chunk d) \<Longrightarrow>
   feed_chunks d (xs @ ys) = emit xs (feed_chunks (d\<lparr>bytes_left_in_chunk := bytes_left_in_chunk d - of_nat (length xs)\<rparr>) ys)"
proof (induction xs arbitrary: d)
  case (Cons x xs)
  have n1: "bytes_left_in_chunk d \<noteq> 1" using Cons.prems(2) by auto
  have nz: "bytes_left_in_chunk d \<noteq> 0" using Cons.prems(2) by auto
  then have "unat (bytes_left_in_chunk d - 1) = unat (bytes_left_in_chunk d) - 1" by (rule unat_minus_one)
  then have "length xs < unat (bytes_left_in_chunk (data_byte d))" using Cons.prems(2) n1 by (simp add: data_byte_def)
  with Cons.IH [of "data_byte d"] Cons.prems(1) n1 show ?case
    by (simp add: feed_data data_byte_def algebra_simps)
qed simp

lemma data_block:
  assumes "chunk_st d = CHUNKED_IN_CHUNK_DATA" "length xs = unat (bytes_left_in_chunk d)" "xs \<noteq> []"
  shows "feed_chunks d (xs @ ys) = emit xs (feed_chunks (d\<lparr>bytes_left_in_chunk := 0, chunk_st := CHUNKED_IN_CHUNK_DATA_EXPECT_CR\<rparr>) ys)"
proof -
  obtain us c where xs: "xs = us @ [c]" using assms(3) by (metis rev_exhaust)
  let ?d = "d\<lparr>bytes_left_in_chunk := bytes_left_in_chunk d - of_nat (length us)\<rparr>"
  have "bytes_left_in_chunk d = of_nat (length xs)" using assms(2) by simp
  then have one: "bytes_left_in_chunk ?d = 1" by (simp add: xs)
  have "feed_chunks d (us @ c # ys) = emit us (feed_chunks ?d (c # ys))"
    using data_block_part [OF assms(1), of us "c # ys"] assms(2) xs by simp
  also have "feed_chunks ?d (c # ys) = emit [c] (feed_chunks (data_byte ?d) ys)" using assms(1) by (simp add: feed_data)
  also have "data_byte ?d = d\<lparr>bytes_left_in_chunk := 0, chunk_st := CHUNKED_IN_CHUNK_DATA_EXPECT_CR\<rparr>"
    using one by (simp add: data_byte_def)
  finally show ?thesis by (simp add: xs)
qed

section \<open>The loop follows the reference\<close>

text \<open>A decoder that is in the middle of a chunk has bytes left in it, and the size read so far fits its digits.\<close>

definition decoder_ok :: "phr_chunked_decoder \<Rightarrow> bool" where
  "decoder_ok d \<longleftrightarrow> (chunk_st d = CHUNKED_IN_CHUNK_DATA \<longrightarrow> bytes_left_in_chunk d \<noteq> 0) \<and> hex_count d \<le> 16
     \<and> (chunk_st d = CHUNKED_IN_CHUNK_SIZE \<longrightarrow> unat (bytes_left_in_chunk d) < 16 ^ hex_count d)
     \<and> (chunk_st d \<in> {CHUNKED_IN_CHUNK_DATA_EXPECT_CR, CHUNKED_IN_CHUNK_DATA_EXPECT_LF} \<longrightarrow> bytes_left_in_chunk d = 0)
     \<and> (chunk_st d \<noteq> CHUNKED_IN_CHUNK_SIZE \<longrightarrow> hex_count d = 0)"

lemma decode_hex_range: "decode_hex c \<noteq> -1 \<Longrightarrow> 0 \<le> decode_hex c \<and> decode_hex c < 16"
  by (auto simp: decode_hex_def split: if_splits)

text \<open>Another digit does not overflow the size.\<close>

lemma size_digit:
  fixes a :: "64 word"
  assumes "unat a < 16 ^ n" "n < 16" "0 \<le> v" "v < 16"
  shows "unat (a * 16 + word_of_int v) = unat a * 16 + nat v" and "unat a * 16 + nat v < 16 ^ Suc n"
proof -
  have "(16 :: nat) ^ n \<le> 16 ^ 15" using assms(2) by (intro power_increasing) auto
  then have a: "unat a * 16 + nat v < 2 ^ 64" using assms(1,3,4) by simp
  have v: "unat (word_of_int v :: 64 word) = nat v" using assms(3,4) by (simp add: unat_eq_nat_uint uint_word_of_int)
  have m: "unat (a * 16) = unat a * 16" using a by (subst unat_mult_lem [THEN iffD1]) auto
  have "unat (a * 16) + unat (word_of_int v :: 64 word) < 2 ^ LENGTH(64)" using a m v by simp
  then show "unat (a * 16 + word_of_int v) = unat a * 16 + nat v" using m v unat_add_lem [THEN iffD1] by metis
  show "unat a * 16 + nat v < 16 ^ Suc n" using assms by simp
qed

lemma byte_step_ok:
  assumes "decoder_ok d" "byte_step d c = (d', n, g)" "chunk_st d \<noteq> CHUNKED_IN_CHUNK_DATA"
  shows "decoder_ok d'"
proof (cases "chunk_st d = CHUNKED_IN_CHUNK_SIZE \<and> decode_hex (schar c) \<noteq> -1 \<and> hex_count d \<noteq> 16")
  case True
  then have d': "d' = d\<lparr>bytes_left_in_chunk := bytes_left_in_chunk d * 16 + word_of_int (decode_hex (schar c)), hex_count := hex_count d + 1\<rparr>"
    using assms(2) by (auto simp: byte_step_def Let_def)
  have "unat (bytes_left_in_chunk d) < 16 ^ hex_count d" and h: "hex_count d < 16" using assms(1) True by (auto simp: decoder_ok_def)
  from size_digit [OF this] decode_hex_range [of "schar c"] True h show ?thesis by (simp add: decoder_ok_def d')
next
  case False
  with assms show ?thesis
    by (cases "chunk_st d") (auto simp: byte_step_def decoder_ok_def Let_def split: if_splits)
qed

lemma byte_step_leaves:
  assumes "byte_step d c = (d', n, g)" "chunk_st d \<noteq> CHUNKED_IN_CHUNK_DATA"
  shows "g = Again \<or> g = Complete \<and> n = 1 \<or> g = Exit (-1) \<and> n = 0"
  using assms by (cases "chunk_st d") (auto simp: byte_step_def Let_def split: if_splits)

definition moved :: "bytes \<Rightarrow> nat \<Rightarrow> nat \<Rightarrow> nat \<Rightarrow> bytes" where
  "moved buf dst src n = (if dst \<noteq> src then memmove buf dst src n else buf)"

lemma moved_props:
  assumes "dst \<le> src" "src + n \<le> length buf"
  shows "length (moved buf dst src n) = length buf" "take (dst + n) (moved buf dst src n) = take dst buf @ take n (drop src buf)"
    "drop (src + n) (moved buf dst src n) = drop (src + n) buf"
proof -
  show "length (moved buf dst src n) = length buf" using assms by (simp add: moved_def memmove_def)
  show "take (dst + n) (moved buf dst src n) = take dst buf @ take n (drop src buf)"
    using assms by (simp add: moved_def memmove_def take_add)
  show "drop (src + n) (moved buf dst src n) = drop (src + n) buf" using assms by (simp add: moved_def memmove_def)
qed

text \<open>How a result of the loop relates to what the reference makes of the rest of the input.\<close>

definition follows :: "bytes \<Rightarrow> nat \<Rightarrow> nat \<Rightarrow> phr_chunked_decoder \<Rightarrow> phr_chunked_decoder \<times> bytes \<times> nat \<times> nat \<times> chunk_goto \<Rightarrow> bool" where
  "follows buf dst src d r = (case r of (d', buf', dst', src', g) \<Rightarrow> case feed_chunks d (drop src buf) of (d'', out, e) \<Rightarrow>
     d' = d'' \<and> length buf' = length buf \<and> dst' = dst + length out \<and> dst' \<le> src' \<and> src' \<le> length buf
     \<and> take dst' buf' = take dst buf @ out \<and> drop src' buf' = drop src' buf
     \<and> (case e of NeedMore \<Rightarrow> g = Exit (-2) \<and> src' = length buf | Malformed \<Rightarrow> g = Exit (-1)
        | Finished rest \<Rightarrow> g = Complete \<and> drop src' buf = rest))"

lemma follows_emit:
  assumes "follows buf' (dst + length xs) src' d' r" "length buf' = length buf" "take (dst + length xs) buf' = take dst buf @ xs"
    and "feed_chunks d (drop src buf) = emit xs (feed_chunks d' (drop src' buf'))"
    and "drop src' buf' = drop src' buf" "src' \<le> fst (snd (snd (snd r)))"
  shows "follows buf dst src d r"
proof -
  obtain d2 buf2 dst2 src2 g where r: "r = (d2, buf2, dst2, src2, g)" by (cases r) auto
  have "drop k buf' = drop k buf" if "src' \<le> k" for k
  proof -
    have "drop k buf' = drop (k - src') (drop src' buf')" using that by simp
    also have "\<dots> = drop k buf" using that by (simp add: assms(5))
    finally show ?thesis .
  qed
  then have "drop src2 buf' = drop src2 buf" using assms(6) by (simp add: r)
  then show ?thesis
    using assms(1-4) by (auto simp: follows_def r emit_def add.assoc split: prod.splits feed_end.splits)
qed

text \<open>The loop unfolded once, by where the iteration goes.\<close>

lemma chunk_loop_again:
  "chunk_step buf bufsz dst src d = (d', buf', dst', src', Again) \<Longrightarrow>
   chunk_loop buf bufsz dst src d = chunk_loop buf' bufsz dst' src' d'"
  by (subst chunk_loop.simps) simp

lemma chunk_loop_leaves:
  "chunk_step buf bufsz dst src d = (d', buf', dst', src', g) \<Longrightarrow> g \<noteq> Again \<Longrightarrow>
   chunk_loop buf bufsz dst src d = (d', buf', dst', src', g)"
  by (subst chunk_loop.simps) (cases g; simp)

lemma chunk_loop_induct [case_names step]:
  assumes "\<And>buf bufsz dst src d. (\<And>d' buf' dst' src'. chunk_step buf bufsz dst src d = (d', buf', dst', src', Again) \<Longrightarrow> P buf' bufsz dst' src' d')
    \<Longrightarrow> P buf bufsz dst src d"
  shows "P buf bufsz dst src d"
  by (induction buf bufsz dst src d rule: chunk_loop.induct) (rule assms, metis)

lemma chunk_loop_src:
  "src \<le> fst (snd (snd (snd (chunk_loop buf bufsz dst src d))))"
proof (induction buf bufsz dst src d rule: chunk_loop_induct)
  case (step buf bufsz dst src d)
  obtain d' buf' dst' src' g where s: "chunk_step buf bufsz dst src d = (d', buf', dst', src', g)" by (metis prod_cases5)
  have le: "src \<le> src'"
    using s by (auto simp: chunk_step_def chunk_data_def chunk_byte_def Let_def split: if_splits prod.splits)
  show ?case
  proof (cases "g = Again")
    case True
    with step s le show ?thesis by (fastforce simp: chunk_loop_again)
  qed (simp add: chunk_loop_leaves [OF s] le)
qed

text \<open>An iteration in a state other than the copying one, and what the reference makes of the same byte.\<close>

lemma chunk_step_byte:
  assumes "chunk_st d \<noteq> CHUNKED_IN_CHUNK_DATA" "src < length buf" "byte_step d (buf ! src) = (d', n, g)"
  shows "chunk_step buf (length buf) dst src d = (d', buf, dst, src + n, g)"
  using assms by (simp add: chunk_step_def chunk_byte_def)

lemma feed_byte:
  assumes "chunk_st d \<noteq> CHUNKED_IN_CHUNK_DATA" "src < length buf" "byte_step d (buf ! src) = (d', n, Again)"
  shows "feed_chunks d (drop src buf) = feed_chunks d' (drop (src + n) buf)"
  using feed_again [OF assms(1,3)] byte_step_again [OF assms(3,1)] assms(2) by (auto simp flip: Cons_nth_drop_Suc)

lemma follows_byte:
  assumes "chunk_st d \<noteq> CHUNKED_IN_CHUNK_DATA" "src < length buf" "dst \<le> src"
    and "byte_step d (buf ! src) = (d', n, g)" "g \<noteq> Again"
  shows "follows buf dst src d (d', buf, dst, src + n, g)"
  using byte_step_leaves [OF assms(4,1)] assms
  by (auto simp: follows_def feed_chunks.simps(2) simp flip: Cons_nth_drop_Suc)

text \<open>The copying state.\<close>

lemma chunk_step_data:
  assumes "chunk_st d = CHUNKED_IN_CHUNK_DATA" "src \<le> length buf" "unat (bytes_left_in_chunk d) = left"
  shows "chunk_step buf (length buf) dst src d =
    (if length buf - src < left
     then (d\<lparr>bytes_left_in_chunk := bytes_left_in_chunk d - of_nat (length buf - src)\<rparr>,
           moved buf dst src (length buf - src), dst + (length buf - src), length buf, Exit (-2))
     else (d\<lparr>bytes_left_in_chunk := 0, chunk_st := CHUNKED_IN_CHUNK_DATA_EXPECT_CR\<rparr>, moved buf dst src left, dst + left, src + left, Again))"
  using assms by (simp add: chunk_step_def chunk_data_def moved_def Let_def)

lemma follows_data_part:
  assumes "chunk_st d = CHUNKED_IN_CHUNK_DATA" "src \<le> length buf" "dst \<le> src" "length buf - src < unat (bytes_left_in_chunk d)"
  shows "follows buf dst src d (chunk_step buf (length buf) dst src d)"
  using moved_props [of dst src "length buf - src" buf] data_block_part [of d "drop src buf" "[]"] assms
  by (simp add: follows_def chunk_step_data)

lemma follows_data:
  assumes d: "chunk_st d = CHUNKED_IN_CHUNK_DATA" "bytes_left_in_chunk d \<noteq> 0" and l: "unat (bytes_left_in_chunk d) = left"
    and s: "dst \<le> src" "src + left \<le> length buf"
    and f: "follows (moved buf dst src left) (dst + left) (src + left) (d\<lparr>bytes_left_in_chunk := 0, chunk_st := CHUNKED_IN_CHUNK_DATA_EXPECT_CR\<rparr>) r"
    and r: "src + left \<le> fst (snd (snd (snd r)))"
  shows "follows buf dst src d r"
proof -
  let ?xs = "take left (drop src buf)"
  note m = moved_props [OF s]
  have len: "length ?xs = left" using s by simp
  have "left \<noteq> 0" using d(2) l by (metis unat_eq_0)
  then have ne: "?xs \<noteq> []" using len by force
  have split: "drop src buf = ?xs @ drop (src + left) buf" by (metis append_take_drop_id drop_drop add.commute)
  have e: "feed_chunks d (drop src buf) = emit ?xs (feed_chunks (d\<lparr>bytes_left_in_chunk := 0, chunk_st := CHUNKED_IN_CHUNK_DATA_EXPECT_CR\<rparr>) (drop (src + left) (moved buf dst src left)))"
    using data_block [OF d(1) trans [OF len l [symmetric]] ne, of "drop (src + left) buf"] by (simp only: split [symmetric] m(3))
  show ?thesis
    by (rule follows_emit [where xs = "?xs", OF _ m(1) _ e m(3) r]) (simp_all only: len f m(2))
qed

lemma chunk_loop_follows:
  "bufsz = length buf \<Longrightarrow> dst \<le> src \<Longrightarrow> src \<le> length buf \<Longrightarrow> decoder_ok d \<Longrightarrow>
   follows buf dst src d (chunk_loop buf bufsz dst src d)"
proof (induction buf bufsz dst src d rule: chunk_loop_induct)
  case (step buf bufsz dst src d)
  note z [simp] = step.prems(1) and le = step.prems(2,3) and ok = step.prems(4)
  show ?case
  proof (cases "chunk_st d = CHUNKED_IN_CHUNK_DATA")
    case st: True
    define left where "left = unat (bytes_left_in_chunk d)"
    show ?thesis
    proof (cases "length buf - src < left")
      case True
      then show ?thesis using follows_data_part [OF st le(2,1)] chunk_loop_leaves [OF chunk_step_data [OF st le(2) refl, unfolded if_P [OF True [unfolded left_def]]]]
        by (simp add: left_def chunk_step_data [OF st le(2)])
    next
      case False
      let ?d = "d\<lparr>bytes_left_in_chunk := 0, chunk_st := CHUNKED_IN_CHUNK_DATA_EXPECT_CR\<rparr>"
      have s: "chunk_step buf (length buf) dst src d = (?d, moved buf dst src left, dst + left, src + left, Again)"
        using chunk_step_data [OF st le(2), of left dst] False by (simp add: left_def)
      have l: "src + left \<le> length buf" using False le by simp
      have "decoder_ok ?d" using ok st by (simp add: decoder_ok_def)
      then have "follows (moved buf dst src left) (dst + left) (src + left) ?d (chunk_loop (moved buf dst src left) (length buf) (dst + left) (src + left) ?d)"
        using step.IH [of ?d "moved buf dst src left"] s le l moved_props(1) [OF le(1) l] by simp
      then have "follows buf dst src d (chunk_loop (moved buf dst src left) (length buf) (dst + left) (src + left) ?d)"
        using ok st by (intro follows_data [OF st _ left_def [symmetric] le(1) l _ chunk_loop_src]) (auto simp: decoder_ok_def)
      then show ?thesis by (simp add: chunk_loop_again [OF s])
    qed
  next
    case st: False
    show ?thesis
    proof (cases "src = length buf")
      case True
      then have "chunk_step buf bufsz dst src d = (d, buf, dst, src, Exit (-2))" using st by (simp add: chunk_step_def chunk_byte_def)
      then show ?thesis using True le by (simp add: chunk_loop_leaves follows_def)
    next
      case False
      then have src: "src < length buf" using le by simp
      obtain d' n g where b: "byte_step d (buf ! src) = (d', n, g)" by (metis prod_cases3)
      note s = chunk_step_byte [OF st src b, of dst]
      show ?thesis
      proof (cases "g = Again")
        case True
        have "src + n \<le> length buf" using byte_step_again [OF _ st, of "buf ! src" d' n] b True src by auto
        then have "follows buf dst (src + n) d' (chunk_loop buf (length buf) dst (src + n) d')"
          using step.IH [of d' buf dst "src + n"] s True le byte_step_ok [OF ok b st] by simp
        then show ?thesis using feed_byte [OF st src] b True s by (simp add: chunk_loop_again follows_def)
      next
        case g: False
        then show ?thesis using follows_byte [OF st src le(1) b g] chunk_loop_leaves [OF s g] by simp
      qed
    qed
  qed
qed

text \<open>Bytes of the buffer behind \<^verbatim>\<open>bufsz\<close> are not touched.\<close>

lemma memmove_tail:
  "dst \<le> src \<Longrightarrow> src + n \<le> length buf \<Longrightarrow> memmove (buf @ tail) dst src n = memmove buf dst src n @ tail"
  by (simp add: memmove_def)

lemma chunk_step_tail:
  assumes "bufsz = length buf" "dst \<le> src" "src \<le> bufsz"
  shows "chunk_step (buf @ tail) bufsz dst src d = (case chunk_step buf bufsz dst src d of (d', buf', r) \<Rightarrow> (d', buf' @ tail, r))"
  using assms by (auto simp: chunk_step_def chunk_data_def chunk_byte_def memmove_tail nth_append Let_def split: prod.splits)

lemma chunk_step_offsets:
  assumes "bufsz = length buf" "dst \<le> src" "src \<le> bufsz" "chunk_step buf bufsz dst src d = (d', buf', dst', src', Again)"
  shows "length buf' = bufsz \<and> dst' \<le> src' \<and> src' \<le> bufsz"
proof -
  have "src' \<le> bufsz" using chunk_step_again [OF assms(4)] by blast
  moreover have "length buf' = bufsz \<and> dst' \<le> src'"
    using assms by (auto simp: chunk_step_def chunk_data_def chunk_byte_def memmove_def Let_def split: prod.splits if_splits)
  ultimately show ?thesis by simp
qed

lemma chunk_loop_tail:
  "bufsz = length buf \<Longrightarrow> dst \<le> src \<Longrightarrow> src \<le> bufsz \<Longrightarrow>
   chunk_loop (buf @ tail) bufsz dst src d = (case chunk_loop buf bufsz dst src d of (d', buf', r) \<Rightarrow> (d', buf' @ tail, r))"
proof (induction buf bufsz dst src d rule: chunk_loop_induct)
  case (step buf bufsz dst src d)
  obtain d' buf' dst' src' g where s: "chunk_step buf bufsz dst src d = (d', buf', dst', src', g)" by (metis prod_cases5)
  have t: "chunk_step (buf @ tail) bufsz dst src d = (d', buf' @ tail, dst', src', g)" using chunk_step_tail [OF step.prems] s by simp
  show ?case
  proof (cases "g = Again")
    case True
    then show ?thesis
      using step.IH [of d' buf' dst' src'] chunk_step_offsets [OF step.prems, of d d' buf' dst' src'] s t by (simp add: chunk_loop_again)
  next
    case False
    then show ?thesis using chunk_loop_leaves [OF s False] chunk_loop_leaves [OF t False] by simp
  qed
qed

section \<open>The decoder against the reference\<close>

text \<open>What the function returns, when the reference ends at \<open>e\<close> with the decoder \<open>d\<close> having emitted \<open>n\<close> bytes of \<open>z\<close>.\<close>

definition charged :: "phr_chunked_decoder \<Rightarrow> nat \<Rightarrow> phr_chunked_decoder" where
  "charged d n = d\<lparr>total_overhead := total_overhead d + of_nat n\<rparr>"

definition too_chatty :: "phr_chunked_decoder \<Rightarrow> bool" where
  "too_chatty d \<longleftrightarrow> 102400 \<le> total_overhead d \<and> total_read d - total_overhead d < total_read d div 4"

definition decoded :: "nat \<Rightarrow> phr_chunked_decoder \<times> bytes \<times> feed_end \<Rightarrow> int \<times> phr_chunked_decoder \<times> bytes \<times> bytes" where
  "decoded z r = (case r of (d, out, e) \<Rightarrow> case e of
     NeedMore \<Rightarrow> (let d = charged d (z - length out) in (if too_chatty d then -1 else -2, d, out, []))
   | Malformed \<Rightarrow> (-1, d, out, [])
   | Finished rest \<Rightarrow> (int (length rest), d, out, rest))"

lemma memmove_at_dst:
  assumes "dst \<le> src" "src \<le> length buf"
  shows "take dst (moved buf dst src (length buf - src)) = take dst buf"
    and "length (moved buf dst src (length buf - src)) = length buf"
    and "take (length buf - src) (drop dst (moved buf dst src (length buf - src))) = drop src buf"
  using assms by (auto simp: moved_def memmove_def)

theorem decode_follows:
  assumes "decoder_ok d" "bufsz \<le> length buf"
    and "decoded bufsz (feed_chunks (d\<lparr>total_read := total_read d + of_nat bufsz\<rparr>) (take bufsz buf)) = (ret, d', out, rest)"
  shows "\<exists>buf'. phr_decode_chunked d buf bufsz = (Some ret, d', buf', length out) \<and> length buf' = length buf
    \<and> length out + length rest \<le> bufsz \<and> take (length out) buf' = out \<and> take (length rest) (drop (length out) buf') = rest
    \<and> drop bufsz buf' = drop bufsz buf"
proof -
  define b where "b = take bufsz buf"
  define tail where "tail = drop bufsz buf"
  have buf: "buf = b @ tail" and lb: "length b = bufsz" using assms(2) by (simp_all add: b_def tail_def)
  let ?d = "d\<lparr>total_read := total_read d + of_nat bufsz\<rparr>"
  have ok: "decoder_ok ?d" using assms(1) by (simp add: decoder_ok_def)
  obtain d2 b2 dst src g where l: "chunk_loop b bufsz 0 0 ?d = (d2, b2, dst, src, g)" by (metis prod_cases5)
  have lt: "chunk_loop buf bufsz 0 0 ?d = (d2, b2 @ tail, dst, src, g)" using chunk_loop_tail [of bufsz b 0 0 tail ?d] lb l buf by simp
  obtain d3 xs e where f: "feed_chunks ?d b = (d3, xs, e)" by (metis prod_cases3)
  have fo: "follows b 0 0 ?d (d2, b2, dst, src, g)" using chunk_loop_follows [of bufsz b 0 0 ?d] ok lb l by simp
  have props: "d2 = d3" "length b2 = bufsz" "dst = length xs" "dst \<le> src" "src \<le> bufsz" "take dst b2 = xs" "drop src b2 = drop src b"
    using fo lb by (auto simp: follows_def f)
  have e: "case e of NeedMore \<Rightarrow> g = Exit (-2) \<and> src = bufsz | Malformed \<Rightarrow> g = Exit (-1) | Finished rest \<Rightarrow> g = Complete \<and> drop src b = rest"
    using fo lb by (simp add: follows_def f split: feed_end.splits)
  define b3 where "b3 = moved b2 dst src (bufsz - src)"
  have b3: "take dst b3 = xs" "length b3 = bufsz" "take (bufsz - src) (drop dst b3) = drop src b"
    using memmove_at_dst [of dst src b2] props unfolding b3_def by auto
  have mv: "(if dst \<noteq> src then memmove (b2 @ tail) dst src (bufsz - src) else b2 @ tail) = b3 @ tail"
    using props by (simp add: b3_def moved_def memmove_tail)
  note phr = phr_decode_chunked_def Let_def lt
  have "phr_decode_chunked d buf bufsz = (Some ret, d', b3 @ tail, length out) \<and> out = xs \<and> length rest \<le> bufsz - src \<and> take (length rest) (drop dst b3) = rest"
  proof (cases e)
    case NeedMore
    then show ?thesis using assms(3) e f mv props
      by (auto simp: phr b_def decoded_def charged_def too_chatty_def split: if_splits)
  next
    case Malformed
    then show ?thesis using assms(3) e f mv props by (auto simp: phr b_def decoded_def)
  next
    case (Finished r)
    have r: "rest = drop src b" "ret = int (bufsz - src)" "out = xs" "d' = d2"
      using assms(3) e f props(1) lb by (auto simp: Finished decoded_def b_def)
    have "phr_decode_chunked d buf bufsz = (Some (int (bufsz - src)), d2, b3 @ tail, dst)"
      using e mv by (simp add: Finished phr)
    then show ?thesis using props(3) b3(3) lb by (simp add: r)
  qed
  then have res: "phr_decode_chunked d buf bufsz = (Some ret, d', b3 @ tail, dst)" "out = xs" "length rest \<le> bufsz - src" "take (length rest) (drop dst b3) = rest"
    using props(3) by simp_all
  have "dst + length rest \<le> bufsz" using res(3) props(4,5) by simp
  then show ?thesis using res b3(1,2) lb
    by (intro exI [of _ "b3 @ tail"]) (simp add: buf res(2) flip: props(3))
qed

end
