(* ===== verification/ChunkedPieces.thy ===== *)
theory ChunkedPieces
  imports ChunkedProps
begin

text \<open>
  The reference of the chunked decoder on concatenated input: feeding it in pieces, the counters it
  does not read, and the chunked encoding it undoes.
\<close>

section \<open>Feeding in pieces\<close>

lemma feed_complete:
  "chunk_st d \<noteq> CHUNKED_IN_CHUNK_DATA \<Longrightarrow> byte_step d c = (d', 1, Complete) \<Longrightarrow> feed_chunks d (c # cs) = (d', [], Finished cs)"
  by (simp add: feed_chunks.simps(2))

lemma feed_malformed:
  "chunk_st d \<noteq> CHUNKED_IN_CHUNK_DATA \<Longrightarrow> byte_step d c = (d', 0, Exit (-1)) \<Longrightarrow> feed_chunks d (c # cs) = (d', [], Malformed)"
  by (simp add: feed_chunks.simps(2))

lemma feed_chunks_induct [case_names empty data again complete malformed]:
  assumes "\<And>d. P d []"
    and "\<And>d x xs. chunk_st d = CHUNKED_IN_CHUNK_DATA \<Longrightarrow> P (data_byte d) xs \<Longrightarrow> P d (x # xs)"
    and "\<And>d x xs d' n. chunk_st d \<noteq> CHUNKED_IN_CHUNK_DATA \<Longrightarrow> byte_step d x = (d', n, Again) \<Longrightarrow>
           P d' (if n = 0 then x # xs else xs) \<Longrightarrow> P d (x # xs)"
    and "\<And>d x xs d'. chunk_st d \<noteq> CHUNKED_IN_CHUNK_DATA \<Longrightarrow> byte_step d x = (d', 1, Complete) \<Longrightarrow> P d (x # xs)"
    and "\<And>d x xs d'. chunk_st d \<noteq> CHUNKED_IN_CHUNK_DATA \<Longrightarrow> byte_step d x = (d', 0, Exit (-1)) \<Longrightarrow> P d (x # xs)"
  shows "P d cs"
proof (induction d cs rule: feed_chunks.induct)
  case (2 d c cs)
  show ?case
  proof (cases "chunk_st d = CHUNKED_IN_CHUNK_DATA")
    case True
    show ?thesis by (rule assms(2) [OF True 2(1) [OF True]])
  next
    case False
    obtain d' n g where b: "byte_step d c = (d', n, g)" by (metis prod_cases3)
    consider "g = Again" | "g = Complete" "n = 1" | "g = Exit (-1)" "n = 0" using byte_step_leaves [OF b False] by blast
    then show ?thesis
    proof cases
      case 1
      show ?thesis by (rule assms(3) [OF False b [unfolded 1] 2(2) [OF False b [symmetric] refl 1]])
    next
      case 2
      show ?thesis by (rule assms(4) [OF False b [unfolded 2]])
    next
      case 3
      show ?thesis by (rule assms(5) [OF False b [unfolded 3]])
    qed
  qed
qed (rule assms(1))

lemma feed_chunks_append:
  "feed_chunks d (a @ b) = (case feed_chunks d a of
     (d', out, NeedMore) \<Rightarrow> emit out (feed_chunks d' b)
   | (d', out, Finished rest) \<Rightarrow> (d', out, Finished (rest @ b))
   | r \<Rightarrow> r)"
proof (induction d a rule: feed_chunks_induct)
  case (data d x xs)
  then show ?case
    by (simp add: feed_data split: prod.splits feed_end.splits)
next
  case (again d x xs d' n)
  then show ?case by (cases "n = 0") (simp_all add: feed_again)
qed (simp_all add: feed_complete feed_malformed)

lemma data_byte_ok:
  assumes "decoder_ok d" "chunk_st d = CHUNKED_IN_CHUNK_DATA"
  shows "decoder_ok (data_byte d)"
  using assms by (simp add: decoder_ok_def data_byte_def)

lemma feed_chunks_ok: "decoder_ok d \<Longrightarrow> decoder_ok (fst (feed_chunks d cs))"
proof (induction d cs rule: feed_chunks_induct)
  case (data d x xs)
  then show ?case by (simp add: feed_data data_byte_ok emit_def)
next
  case (again d x xs d' n)
  then show ?case using byte_step_ok by (simp add: feed_again)
qed (auto simp: feed_complete feed_malformed dest: byte_step_ok)

text \<open>The counters are not read by the automaton, nor written.\<close>

definition counters :: "64 word \<Rightarrow> 64 word \<Rightarrow> phr_chunked_decoder \<Rightarrow> phr_chunked_decoder" where
  "counters r v d = d\<lparr>total_read := r, total_overhead := v\<rparr>"

lemma counters_simps [simp]:
  "chunk_st (counters r v d) = chunk_st d" "total_read (counters r v d) = r" "total_overhead (counters r v d) = v"
  "decoder_ok (counters r v d) = decoder_ok d" "counters r v (counters r' v' d) = counters r v d"
  "counters (total_read d) (total_overhead d) d = d"
  by (simp_all add: counters_def decoder_ok_def)

lemma byte_step_counters:
  "byte_step (counters r v d) c = (case byte_step d c of (d', n, g) \<Rightarrow> (counters r v d', n, g))"
  by (cases "chunk_st d") (simp_all add: byte_step_def counters_def Let_def)

lemma feed_chunks_counters:
  "feed_chunks (counters r v d) cs = (case feed_chunks d cs of (d', out, e) \<Rightarrow> (counters r v d', out, e))"
proof (induction d cs rule: feed_chunks_induct)
  case (data d x xs)
  moreover have "data_byte (counters r v d) = counters r v (data_byte d)" by (simp add: data_byte_def counters_def)
  ultimately show ?case by (simp add: feed_data split: prod.splits)
next
  case (again d x xs d' n)
  then have "byte_step (counters r v d) x = (counters r v d', n, Again)" by (simp add: byte_step_counters)
  with again show ?case by (simp add: feed_again [where d = d] feed_again [where d = "counters r v d"])
next
  case (complete d x xs d')
  then have "byte_step (counters r v d) x = (counters r v d', 1, Complete)" by (simp add: byte_step_counters)
  with complete show ?case by (simp add: feed_complete [where d = d] feed_complete [where d = "counters r v d"])
next
  case (malformed d x xs d')
  then have "byte_step (counters r v d) x = (counters r v d', 0, Exit (-1))" by (simp add: byte_step_counters)
  with malformed show ?case by (simp add: feed_malformed [where d = d] feed_malformed [where d = "counters r v d"])
qed simp

lemma feed_out_le: "length (fst (snd (feed_chunks d cs))) \<le> length cs"
proof (induction d cs rule: feed_chunks_induct)
  case (data d x xs)
  then show ?case by (simp add: feed_data emit_def)
next
  case (again d x xs d' n)
  then show ?case by (cases "n = 0") (simp_all add: feed_again)
qed (simp_all add: feed_complete feed_malformed)

lemma charged_counters [simp]: "charged (counters r v d) n = counters r (v + of_nat n) d"
  by (simp add: charged_def counters_def)

text \<open>The result of one call, without the counters' bookkeeping.\<close>

definition decode_result :: "phr_chunked_decoder \<Rightarrow> bytes \<Rightarrow> int \<times> phr_chunked_decoder \<times> bytes \<times> bytes" where
  "decode_result d b = decoded (length b) (feed_chunks (counters (total_read d + of_nat (length b)) (total_overhead d) d) b)"

lemma counters_read: "d\<lparr>total_read := total_read d + x\<rparr> = counters (total_read d + x) (total_overhead d) d"
  by (simp add: counters_def)

lemma decode_result_need_more:
  assumes "decode_result d b = (-2, d', out, rest)"
  shows "rest = [] \<and> (\<exists>e. feed_chunks d b = (e, out, NeedMore)
    \<and> d' = counters (total_read d + of_nat (length b)) (total_overhead d + of_nat (length b - length out)) e)"
  using assms
  by (auto simp: decode_result_def feed_chunks_counters decoded_def Let_def split: prod.splits feed_end.splits if_splits)

lemma decode_result_append:
  assumes "decode_result d a = (-2, d1, out1, rest1)" "decode_result d1 b = (ret, d2, out2, rest2)"
  shows "\<exists>d3. decode_result d (a @ b) = (ret, d3, out1 @ out2, rest2) \<and> d2 = counters (total_read d2) (total_overhead d2) d3
    \<and> total_read d2 = total_read d3 \<and> (ret = -2 \<longrightarrow> d2 = d3)"
proof -
  obtain e where e: "feed_chunks d a = (e, out1, NeedMore)"
    and d1: "d1 = counters (total_read d + of_nat (length a)) (total_overhead d + of_nat (length a - length out1)) e"
    using decode_result_need_more [OF assms(1)] by blast
  obtain f o2 g where f: "feed_chunks e b = (f, o2, g)" by (metis prod_cases3)
  have le: "length out1 \<le> length a" "length o2 \<le> length b" using feed_out_le [of d a] feed_out_le [of e b] e f by auto
  have ab: "feed_chunks d (a @ b) = (f, out1 @ o2, g)" using feed_chunks_append [of d a b] e f by simp
  have "length a + length b - (length out1 + length o2) = (length a - length out1) + (length b - length o2)" using le by simp
  then have ov: "(of_nat (length a + length b - (length out1 + length o2)) :: 64 word) = of_nat (length a - length out1) + of_nat (length b - length o2)"
    by simp
  have o2: "o2 = out2"
    using assms(2) f d1 by (cases g) (auto simp: decode_result_def feed_chunks_counters decoded_def Let_def)
  show ?thesis using assms(2) f d1 ab ov unfolding o2
    by (cases g) (auto simp: decode_result_def feed_chunks_counters decoded_def Let_def add.assoc)
qed

section \<open>Any number of pieces\<close>

text \<open>
  A decoder that is called with the bytes as they arrive, as \<^verbatim>\<open>picohttpparser.h\<close> asks: again while it
  returns -2. A call yields the return value, the decoder, the decoded bytes and those left undecoded.
\<close>

locale stream_decoder =
  fixes invar :: "'s \<Rightarrow> bool"
    and decode :: "'s \<Rightarrow> bytes \<Rightarrow> int option \<times> 's \<times> bytes \<times> bytes"
  assumes waits: "invar s \<Longrightarrow> decode s a = (Some (-2), s1, out1, rest1) \<Longrightarrow> invar s1"
    and joins: "invar s \<Longrightarrow> decode s a = (Some (-2), s1, out1, rest1) \<Longrightarrow> decode s1 b = (ret, s2, out2, rest2) \<Longrightarrow>
      \<exists>s3. decode s (a @ b) = (ret, s3, out1 @ out2, rest2) \<and> (ret = Some (-2) \<longrightarrow> s3 = s2)"
begin

text \<open>The calls for the pieces \<open>ps\<close>, which all have to ask for more.\<close>

primrec drain :: "'s \<Rightarrow> bytes list \<Rightarrow> ('s \<times> bytes) option" where
  "drain s [] = Some (s, [])"
| "drain s (p # ps) = (case decode s p of (ret, s', out, rest) \<Rightarrow>
     if ret = Some (-2) then map_option (\<lambda>(s'', out'). (s'', out @ out')) (drain s' ps) else None)"

lemma drain_decode:
  "invar s \<Longrightarrow> drain s ps = Some (s', out) \<Longrightarrow> decode s' b = (ret, s2, out2, rest2) \<Longrightarrow>
   \<exists>s3. decode s (concat ps @ b) = (ret, s3, out @ out2, rest2) \<and> (ret = Some (-2) \<longrightarrow> s3 = s2)"
proof (induction ps arbitrary: s out)
  case (Cons p ps)
  obtain s1 o1 r1 o' where d: "decode s p = (Some (-2), s1, o1, r1)" and o: "drain s1 ps = Some (s', o')" "out = o1 @ o'"
    using Cons.prems(2) by (auto split: prod.splits if_splits)
  obtain s3 where s3: "decode s1 (concat ps @ b) = (ret, s3, o' @ out2, rest2)" "ret = Some (-2) \<longrightarrow> s3 = s2"
    using Cons.IH [OF waits [OF Cons.prems(1) d] o(1) Cons.prems(3)] by blast
  from joins [OF Cons.prems(1) d s3(1)] s3(2) o(2) show ?case by auto
qed auto

lemma drain_invar: "invar s \<Longrightarrow> drain s ps = Some (s', out) \<Longrightarrow> invar s'"
  by (induction ps arbitrary: s out) (auto split: prod.splits if_splits dest: waits)

end

definition decode_chunked :: "phr_chunked_decoder \<Rightarrow> bytes \<Rightarrow> int option \<times> phr_chunked_decoder \<times> bytes \<times> bytes" where
  "decode_chunked d b = (case phr_decode_chunked d b (length b) of (ret, d', buf, n) \<Rightarrow>
     (ret, d', take n buf, take (nat (the ret)) (drop n buf)))"

lemma decoded_rest: "decoded z r = (ret, d, out, rest) \<Longrightarrow> length rest = nat ret"
  by (auto simp: decoded_def Let_def split: prod.splits feed_end.splits if_splits)

lemma decode_chunked_result:
  assumes "decoder_ok d"
  shows "decode_chunked d b = (case decode_result d b of (ret, d', out, rest) \<Rightarrow> (Some ret, d', out, rest))"
proof -
  obtain ret d' out rest where r: "decode_result d b = (ret, d', out, rest)" by (metis prod_cases4)
  then have "decoded (length b) (feed_chunks (d\<lparr>total_read := total_read d + of_nat (length b)\<rparr>) (take (length b) b)) = (ret, d', out, rest)"
    by (simp add: decode_result_def counters_read)
  from decode_follows [OF assms order_refl this] decoded_rest [OF this] r show ?thesis
    by (auto simp: decode_chunked_def)
qed

lemma decode_result_ok: "decoder_ok d \<Longrightarrow> decode_result d b = (-2, d', out, rest) \<Longrightarrow> decoder_ok d'"
  using feed_chunks_ok [of d b] by (auto dest!: decode_result_need_more)

interpretation chunked: stream_decoder decoder_ok decode_chunked
proof unfold_locales
  fix d a d1 out1 rest1 b ret d2 out2 rest2
  assume ok: "decoder_ok d" and a: "decode_chunked d a = (Some (-2), d1, out1, rest1)"
  then have ra: "decode_result d a = (-2, d1, out1, rest1)" by (auto simp: decode_chunked_result split: prod.splits)
  then show ok1: "decoder_ok d1" by (rule decode_result_ok [OF ok])
  assume b: "decode_chunked d1 b = (ret, d2, out2, rest2)"
  then obtain r where rb: "decode_result d1 b = (r, d2, out2, rest2)" "ret = Some r" by (auto simp: decode_chunked_result [OF ok1] split: prod.splits)
  from decode_result_append [OF ra rb(1)] rb(2)
  show "\<exists>d3. decode_chunked d (a @ b) = (ret, d3, out1 @ out2, rest2) \<and> (ret = Some (-2) \<longrightarrow> d3 = d2)"
    by (auto simp: decode_chunked_result [OF ok])
qed

end
