(* ===== verification/ChunkedRoundtrip.thy ===== *)
theory ChunkedRoundtrip
  imports ChunkedPieces
begin

text \<open>
  The chunked encoding of RFC 7230 4.1 as a function, and the reference of the decoder on it: the
  data of the chunks comes out, the bytes behind the last chunk are handed back.
\<close>

section \<open>The encoding\<close>

definition hex_digit :: "char \<Rightarrow> bool" where
  "hex_digit c \<longleftrightarrow> decode_hex (schar c) \<noteq> -1"

definition hex_val :: "string \<Rightarrow> nat \<Rightarrow> nat" where
  "hex_val hs a = foldl (\<lambda>a c. a * 16 + nat (decode_hex (schar c))) a hs"

text \<open>A chunk: the digits of its size, what follows them on the line, and its data.\<close>

type_synonym chunk = "string \<times> string \<times> bytes"

definition size_line :: "string \<Rightarrow> string \<Rightarrow> bytes" where
  "size_line hs ex = hs @ ex @ [CR, LF]"

definition size_line_ok :: "string \<Rightarrow> string \<Rightarrow> nat \<Rightarrow> bool" where
  "size_line_ok hs ex n \<longleftrightarrow> hs \<noteq> [] \<and> length hs \<le> 16 \<and> list_all hex_digit hs \<and> hex_val hs 0 = n
     \<and> (ex = [] \<or> hd ex \<in> {SP, HT, CHR '';''}) \<and> CR \<notin> set ex \<and> LF \<notin> set ex"

fun chunk_ok :: "chunk \<Rightarrow> bool" where
  "chunk_ok (hs, ex, xs) \<longleftrightarrow> xs \<noteq> [] \<and> size_line_ok hs ex (length xs)"

fun encode_chunk :: "chunk \<Rightarrow> bytes" where
  "encode_chunk (hs, ex, xs) = size_line hs ex @ xs @ [CR, LF]"

text \<open>A line of the trailer, which neither starts with a line end nor has one inside.\<close>

definition trailer_ok :: "string \<Rightarrow> bool" where
  "trailer_ok t \<longleftrightarrow> t \<noteq> [] \<and> hd t \<noteq> CR \<and> LF \<notin> set t"

definition encode_trailer :: "string list \<Rightarrow> bytes" where
  "encode_trailer ts = concat (map (\<lambda>t. t @ [CR, LF]) ts) @ [CR, LF]"

section \<open>Decoding it\<close>

lemma feed_digits:
  assumes "chunk_st d = CHUNKED_IN_CHUNK_SIZE" "list_all hex_digit hs" "hex_count d + length hs \<le> 16" "unat (bytes_left_in_chunk d) < 16 ^ hex_count d"
  shows "feed_chunks d (hs @ ys) =
    feed_chunks (d\<lparr>bytes_left_in_chunk := of_nat (hex_val hs (unat (bytes_left_in_chunk d))), hex_count := hex_count d + length hs\<rparr>) ys"
  using assms
proof (induction hs arbitrary: d)
  case (Cons h hs)
  let ?v = "decode_hex (schar h)"
  let ?d = "d\<lparr>bytes_left_in_chunk := bytes_left_in_chunk d * 16 + word_of_int ?v, hex_count := hex_count d + 1\<rparr>"
  have v: "0 \<le> ?v" "?v < 16" "?v \<noteq> -1" using decode_hex_range [of "schar h"] Cons.prems(2) by (auto simp: hex_digit_def)
  have k: "hex_count d < 16" using Cons.prems(3) by simp
  note n = size_digit [OF Cons.prems(4) k v(1,2)]
  have "byte_step d h = (?d, 1, Again)" using v k Cons.prems(1) by (simp add: byte_step_def Let_def)
  then have "feed_chunks d ((h # hs) @ ys) = feed_chunks ?d (hs @ ys)" using feed_again [of d h ?d 1] Cons.prems(1) by simp
  also have "\<dots> = feed_chunks (?d\<lparr>bytes_left_in_chunk := of_nat (hex_val hs (unat (bytes_left_in_chunk ?d))), hex_count := hex_count ?d + length hs\<rparr>) ys"
    using Cons n by (intro Cons.IH) simp_all
  finally show ?case by (simp add: n(1) hex_val_def)
qed (simp add: hex_val_def)

lemma feed_ext:
  assumes "chunk_st d = CHUNKED_IN_CHUNK_EXT" "CR \<notin> set ex" "LF \<notin> set ex"
  shows "feed_chunks d (ex @ CR # LF # ys) = feed_chunks (d\<lparr>chunk_st := CHUNKED_IN_CHUNK_HEADER_EXPECT_LF\<rparr>) (LF # ys)"
  using assms
proof (induction ex)
  case Nil
  then show ?case using feed_again [of d CR "d\<lparr>chunk_st := CHUNKED_IN_CHUNK_HEADER_EXPECT_LF\<rparr>" 1] by (simp add: byte_step_def)
next
  case (Cons c ex)
  then have "byte_step d c = (d, 1, Again)" by (auto simp: byte_step_def)
  with Cons show ?case by (simp add: feed_again)
qed

lemma hex_val_bound: "list_all hex_digit hs \<Longrightarrow> a < 16 ^ k \<Longrightarrow> hex_val hs a < 16 ^ (k + length hs)"
proof (induction hs arbitrary: a k)
  case (Cons h hs)
  have "nat (decode_hex (schar h)) < 16" using Cons.prems(1) decode_hex_range [of "schar h"] by (auto simp: hex_digit_def nat_less_iff)
  then have "a * 16 + nat (decode_hex (schar h)) < 16 ^ Suc k" using Cons.prems(2) by simp
  with Cons.IH [of _ "Suc k"] Cons.prems(1) show ?case by (simp add: hex_val_def)
qed (simp add: hex_val_def)

text \<open>The decoder waits for a size.\<close>

definition between :: "phr_chunked_decoder \<Rightarrow> bool" where
  "between d \<longleftrightarrow> chunk_st d = CHUNKED_IN_CHUNK_SIZE \<and> hex_count d = 0 \<and> bytes_left_in_chunk d = 0"

lemma feed_after_size:
  assumes "chunk_st d = CHUNKED_IN_CHUNK_SIZE" "hex_count d \<noteq> 0" "decode_hex (schar c) = -1" "c \<in> {SP, HT, CHR '';'', LF, CR}"
  shows "feed_chunks d (c # ys) = feed_chunks (d\<lparr>hex_count := 0, chunk_st := CHUNKED_IN_CHUNK_EXT\<rparr>) (c # ys)"
  using feed_again [of d c _ 0] assms by (auto simp: byte_step_def Let_def)

lemma feed_size_line:
  assumes "between d" "size_line_ok hs ex n"
  shows "feed_chunks d (size_line hs ex @ ys) = feed_chunks (d\<lparr>bytes_left_in_chunk := of_nat n, hex_count := 0, chunk_st := CHUNKED_IN_CHUNK_HEADER_EXPECT_LF\<rparr>) (LF # ys)"
    and "n < 2 ^ 64"
proof -
  let ?d = "d\<lparr>bytes_left_in_chunk := of_nat n, hex_count := length hs\<rparr>"
  have ok: "hs \<noteq> []" "length hs \<le> 16" "list_all hex_digit hs" "hex_val hs 0 = n" "CR \<notin> set ex" "LF \<notin> set ex" and e: "ex = [] \<or> hd ex \<in> {SP, HT, CHR '';''}"
    using assms(2) by (auto simp: size_line_ok_def)
  have b: "chunk_st d = CHUNKED_IN_CHUNK_SIZE" "hex_count d = 0" "bytes_left_in_chunk d = 0" using assms(1) by (auto simp: between_def)
  have "feed_chunks d (hs @ (ex @ CR # LF # ys)) = feed_chunks ?d (ex @ CR # LF # ys)"
    using feed_digits [of d hs "ex @ CR # LF # ys"] ok b by simp
  also obtain c cs where c: "ex @ CR # LF # ys = c # cs" "c \<in> {SP, HT, CHR '';'', LF, CR}"
    using e by (cases ex) auto
  have nd: "decode_hex (schar c) = -1" using c(2) by (auto simp: decode_hex_def schar_def uchar_def)
  have "feed_chunks ?d (ex @ CR # LF # ys) = feed_chunks (?d\<lparr>hex_count := 0, chunk_st := CHUNKED_IN_CHUNK_EXT\<rparr>) (ex @ CR # LF # ys)"
    using feed_after_size [of ?d c cs] ok(1) b nd c by simp
  also have "\<dots> = feed_chunks (?d\<lparr>hex_count := 0, chunk_st := CHUNKED_IN_CHUNK_HEADER_EXPECT_LF\<rparr>) (LF # ys)"
    using feed_ext [OF _ ok(5,6), of "?d\<lparr>hex_count := 0, chunk_st := CHUNKED_IN_CHUNK_EXT\<rparr>"] by simp
  finally show "feed_chunks d (size_line hs ex @ ys) = feed_chunks (d\<lparr>bytes_left_in_chunk := of_nat n, hex_count := 0, chunk_st := CHUNKED_IN_CHUNK_HEADER_EXPECT_LF\<rparr>) (LF # ys)"
    using b by (simp add: size_line_def)
  have "(16 :: nat) ^ length hs \<le> 16 ^ 16" using ok(2) by (intro power_increasing) auto
  then show "n < 2 ^ 64" using hex_val_bound [OF ok(3), of 0 0] ok(4) by simp
qed

lemma feed_chunk:
  assumes "between d" "chunk_ok c"
  shows "feed_chunks d (encode_chunk c @ ys) = emit (snd (snd c)) (feed_chunks d ys)"
proof -
  obtain hs ex xs where c: "c = (hs, ex, xs)" by (cases c) auto
  have xs: "xs \<noteq> []" "size_line_ok hs ex (length xs)" using assms(2) by (auto simp: c)
  let ?l = "of_nat (length xs) :: 64 word"
  let ?h = "d\<lparr>bytes_left_in_chunk := ?l, hex_count := 0, chunk_st := CHUNKED_IN_CHUNK_HEADER_EXPECT_LF\<rparr>"
  let ?cr = "d\<lparr>hex_count := 0, bytes_left_in_chunk := 0, chunk_st := CHUNKED_IN_CHUNK_DATA_EXPECT_CR\<rparr>"
  have u: "unat ?l = length xs" using feed_size_line(2) [OF assms(1) xs(2)] by (simp add: unat_of_nat take_bit_nat_eq_self)
  have nz: "?l \<noteq> 0" using u xs(1) by (metis length_0_conv unat_0)
  have "feed_chunks d (encode_chunk c @ ys) = feed_chunks ?h (LF # xs @ CR # LF # ys)"
    using feed_size_line(1) [OF assms(1) xs(2), of "xs @ CR # LF # ys"] by (simp add: c)
  also have "\<dots> = feed_chunks (?h\<lparr>chunk_st := CHUNKED_IN_CHUNK_DATA\<rparr>) (xs @ CR # LF # ys)"
    using feed_again [of ?h LF "?h\<lparr>chunk_st := CHUNKED_IN_CHUNK_DATA\<rparr>" 1] nz by (simp add: byte_step_def)
  also have "\<dots> = emit xs (feed_chunks ?cr (CR # LF # ys))"
    using data_block [of "?h\<lparr>chunk_st := CHUNKED_IN_CHUNK_DATA\<rparr>" xs] u xs(1) by simp
  also have "feed_chunks ?cr (CR # LF # ys) = feed_chunks (?cr\<lparr>chunk_st := CHUNKED_IN_CHUNK_DATA_EXPECT_LF\<rparr>) (LF # ys)"
    using feed_again [of ?cr CR "?cr\<lparr>chunk_st := CHUNKED_IN_CHUNK_DATA_EXPECT_LF\<rparr>" 1] by (simp add: byte_step_def)
  also have "\<dots> = feed_chunks (?cr\<lparr>chunk_st := CHUNKED_IN_CHUNK_SIZE\<rparr>) ys"
    using feed_again [of "?cr\<lparr>chunk_st := CHUNKED_IN_CHUNK_DATA_EXPECT_LF\<rparr>" LF "?cr\<lparr>chunk_st := CHUNKED_IN_CHUNK_SIZE\<rparr>" 1] by (simp add: byte_step_def)
  also have "?cr\<lparr>chunk_st := CHUNKED_IN_CHUNK_SIZE\<rparr> = d" using assms(1) by (simp add: between_def)
  finally show ?thesis by (simp add: c)
qed

lemma feed_all_chunks:
  "between d \<Longrightarrow> list_all chunk_ok cs \<Longrightarrow>
   feed_chunks d (concat (map encode_chunk cs) @ ys) = emit (concat (map (snd \<circ> snd) cs)) (feed_chunks d ys)"
  by (induction cs) (simp_all add: feed_chunk)

lemma feed_last_chunk:
  assumes "between d" "size_line_ok hs ex 0"
  shows "feed_chunks d (size_line hs ex @ ys) =
    (if consume_trailer d then feed_chunks (d\<lparr>chunk_st := CHUNKED_IN_TRAILERS_LINE_HEAD\<rparr>) ys
     else (d\<lparr>chunk_st := CHUNKED_IN_CHUNK_HEADER_EXPECT_LF\<rparr>, [], Finished ys))"
proof -
  let ?h = "d\<lparr>chunk_st := CHUNKED_IN_CHUNK_HEADER_EXPECT_LF\<rparr>"
  have h: "d\<lparr>bytes_left_in_chunk := of_nat 0, hex_count := 0, chunk_st := CHUNKED_IN_CHUNK_HEADER_EXPECT_LF\<rparr> = ?h"
    using assms(1) by (simp add: between_def)
  have "feed_chunks d (size_line hs ex @ ys) = feed_chunks ?h (LF # ys)"
    using feed_size_line(1) [OF assms, of ys] unfolding h .
  moreover have "bytes_left_in_chunk ?h = 0" using assms(1) by (simp add: between_def)
  ultimately show ?thesis
    using feed_again [of ?h LF "d\<lparr>chunk_st := CHUNKED_IN_TRAILERS_LINE_HEAD\<rparr>" 1] feed_complete [of ?h LF ?h]
    by (simp add: byte_step_def)
qed

lemma feed_trailer_line:
  assumes "chunk_st d = CHUNKED_IN_TRAILERS_LINE_MIDDLE" "LF \<notin> set t"
  shows "feed_chunks d (t @ LF # ys) = feed_chunks (d\<lparr>chunk_st := CHUNKED_IN_TRAILERS_LINE_HEAD\<rparr>) ys"
  using assms
proof (induction t)
  case Nil
  then show ?case using feed_again [of d LF "d\<lparr>chunk_st := CHUNKED_IN_TRAILERS_LINE_HEAD\<rparr>" 1] by (simp add: byte_step_def)
next
  case (Cons c t)
  then have "byte_step d c = (d, 1, Again)" by (auto simp: byte_step_def)
  with Cons show ?case by (simp add: feed_again)
qed

lemma feed_trailers:
  assumes "chunk_st d = CHUNKED_IN_TRAILERS_LINE_HEAD" "list_all trailer_ok ts"
  shows "feed_chunks d (encode_trailer ts @ ys) = (d, [], Finished ys)"
  using assms(2)
proof (induction ts)
  case Nil
  then show ?case
    using feed_again [of d CR d 1] feed_complete [of d LF d] assms(1) by (simp add: encode_trailer_def byte_step_def)
next
  case (Cons t ts)
  obtain c u where t: "t = c # u" and ok: "c \<noteq> CR" "c \<noteq> LF" "LF \<notin> set u" using Cons.prems by (cases t) (auto simp: trailer_ok_def)
  let ?m = "d\<lparr>chunk_st := CHUNKED_IN_TRAILERS_LINE_MIDDLE\<rparr>"
  have "feed_chunks d (encode_trailer (t # ts) @ ys) = feed_chunks d (c # (u @ [CR]) @ LF # (encode_trailer ts @ ys))"
    by (simp add: encode_trailer_def t)
  also have "\<dots> = feed_chunks ?m ((u @ [CR]) @ LF # (encode_trailer ts @ ys))"
    using feed_again [of d c ?m 1] assms(1) ok by (simp add: byte_step_def)
  also have "\<dots> = feed_chunks (?m\<lparr>chunk_st := CHUNKED_IN_TRAILERS_LINE_HEAD\<rparr>) (encode_trailer ts @ ys)"
    using ok(3) by (intro feed_trailer_line) simp_all
  also have "?m\<lparr>chunk_st := CHUNKED_IN_TRAILERS_LINE_HEAD\<rparr> = d" using assms(1) by simp
  finally show ?case using Cons by simp
qed

lemma feed_body:
  assumes "between d" "list_all chunk_ok cs" "size_line_ok hs ex 0" "list_all trailer_ok ts"
    and "body = concat (map encode_chunk cs) @ size_line hs ex @ (if consume_trailer d then encode_trailer ts else [])"
  shows "\<exists>e. feed_chunks d (body @ rest) = (e, concat (map (snd \<circ> snd) cs), Finished rest)"
  using assms(5) feed_last_chunk [OF assms(1,3)] feed_trailers [OF _ assms(4), of "d\<lparr>chunk_st := CHUNKED_IN_TRAILERS_LINE_HEAD\<rparr>" rest]
  by (simp add: feed_all_chunks [OF assms(1,2)])

end
