(* ===== verification/ChunkedProperties.thy ===== *)
theory ChunkedProperties
  imports ChunkedRoundtrip
begin

text \<open>The properties of the decoder of chunked bodies.\<close>

lemma decode_follows_any:
  assumes "decoder_ok d" "bufsz \<le> length buf"
  obtains ret d' buf' n where "phr_decode_chunked d buf bufsz = (Some ret, d', buf', n)" "decoder_ok d'"
    "n + nat ret \<le> bufsz" "length buf' = length buf" "drop bufsz buf' = drop bufsz buf" "-2 \<le> ret"
proof -
  let ?d = "d\<lparr>total_read := total_read d + of_nat bufsz\<rparr>"
  obtain ret d' out rest where r: "decoded bufsz (feed_chunks ?d (take bufsz buf)) = (ret, d', out, rest)" by (metis prod_cases4)
  have "decoder_ok ?d" using assms(1) by (simp add: decoder_ok_def)
  then have "decoder_ok (fst (feed_chunks ?d (take bufsz buf)))" by (rule feed_chunks_ok)
  with r have "decoder_ok d' \<and> -2 \<le> ret"
    by (auto simp: decoded_def charged_def decoder_ok_def Let_def split: prod.splits feed_end.splits if_splits)
  moreover obtain buf' where "phr_decode_chunked d buf bufsz = (Some ret, d', buf', length out)" "length buf' = length buf"
    "length out + length rest \<le> bufsz" "drop bufsz buf' = drop bufsz buf" using decode_follows [OF assms r] by blast
  ultimately show thesis using that decoded_rest [OF r] by simp
qed

lemma chunked_bounds:
  assumes "decoder_ok d" "phr_decode_chunked d b (length b) = (Some ret, d', b', n)"
  shows "n \<le> length b \<and> length b' = length b"
  using decode_follows_any [OF assms(1) order_refl, of b] assms(2) by (metis Pair_inject add_leD1)

text \<open>
  C29: The chunked decoder stays inside its buffer, keeps the decoder well-formed (so no size ever
  overflows its 64 bits), never grows the data and leaves what lies behind the given size alone: for every
  well-formed decoder and every buffer.
\<close>
theorem chunked_in_bounds:
  assumes "decoder_ok d" "bufsz \<le> length buf"
  shows "\<exists>ret d' buf' n. phr_decode_chunked d buf bufsz = (Some ret, d', buf', n) \<and> decoder_ok d' \<and> n \<le> bufsz
    \<and> length buf' = length buf \<and> drop bufsz buf' = drop bufsz buf \<and> -2 \<le> ret \<and> (0 \<le> ret \<longrightarrow> n + nat ret \<le> bufsz)"
  using decode_follows_any [OF assms] by (metis add_leD1)

definition demo_decoder :: phr_chunked_decoder where
  "demo_decoder = \<lparr>bytes_left_in_chunk = 0, consume_trailer = False, hex_count = 0, chunk_st = CHUNKED_IN_CHUNK_SIZE, total_read = 0, total_overhead = 0\<rparr>"

lemma demo_decoder_ok: "decoder_ok demo_decoder" "between demo_decoder"
  by (simp_all add: demo_decoder_def decoder_ok_def between_def)

theorem chunked_in_bounds_witness:
  "\<exists>ret d' buf' n. phr_decode_chunked demo_decoder ''3;x!'' 3 = (Some ret, d', buf', n) \<and> n \<le> 3 \<and> length buf' = 4"
  using chunked_in_bounds [OF demo_decoder_ok(1), of 3 "''3;x!''"] by auto

text \<open>
  C11: Cutting the input into pieces does not change what is decoded: when the calls for any number of pieces
  leave the decoder waiting, the call for the next one returns what a single call for everything at once returns,
  the data of the calls is the data of the one, the bytes left undecoded are the same, and a decoder that waits
  again is the same, counters included.
\<close>
theorem chunked_in_pieces:
  assumes "decoder_ok d" and "chunked.drain d ps = Some (d1, out)"
    and "phr_decode_chunked d1 b (length b) = (Some ret, d2, b', n)"
  shows "\<exists>d3 c'. phr_decode_chunked d (concat ps @ b) (length (concat ps @ b)) = (Some ret, d3, c', length out + n)
    \<and> take (length out + n) c' = out @ take n b' \<and> (ret = -2 \<longrightarrow> d3 = d2)
    \<and> take (nat ret) (drop (length out + n) c') = take (nat ret) (drop n b')"
proof -
  let ?c = "concat ps @ b"
  have n: "n \<le> length b'" using chunked_bounds [OF chunked.drain_invar [OF assms(1,2)] assms(3)] by simp
  have "decode_chunked d1 b = (Some ret, d2, take n b', take (nat ret) (drop n b'))"
    using assms(3) by (simp add: decode_chunked_def)
  from chunked.drain_decode [OF assms(1,2) this] obtain d3
    where d3: "decode_chunked d ?c = (Some ret, d3, out @ take n b', take (nat ret) (drop n b'))" "ret = -2 \<longrightarrow> d3 = d2" by auto
  obtain c' k where c: "phr_decode_chunked d ?c (length ?c) = (Some ret, d3, c', k)" "take k c' = out @ take n b'"
    "take (nat ret) (drop k c') = take (nat ret) (drop n b')"
    using d3(1) unfolding decode_chunked_def by (auto split: prod.splits)
  have "k \<le> length c'" using chunked_bounds [OF assms(1) c(1)] by simp
  then have "k = length out + n" using arg_cong [OF c(2), of length] n by simp
  with c d3(2) show ?thesis by simp
qed

text \<open>
  C16: Decoding undoes the chunked encoding: for any chunks, extensions and trailer lines, a fresh decoder
  returns how many bytes follow the encoded body, keeps them behind the decoded data, and the data is the
  concatenation of the chunks.
\<close>
theorem chunked_roundtrip:
  assumes "between d" "list_all chunk_ok cs" "size_line_ok hs ex 0" "list_all trailer_ok ts"
    and "body = concat (map encode_chunk cs) @ size_line hs ex @ (if consume_trailer d then encode_trailer ts else [])"
  shows "\<exists>d' buf'. phr_decode_chunked d (body @ rest) (length (body @ rest)) = (Some (int (length rest)), d', buf', length (concat (map (snd \<circ> snd) cs)))
    \<and> take (length (concat (map (snd \<circ> snd) cs)) + length rest) buf' = concat (map (snd \<circ> snd) cs) @ rest"
proof -
  let ?out = "concat (map (snd \<circ> snd) cs)" and ?z = "length (body @ rest)"
  let ?d = "d\<lparr>total_read := total_read d + of_nat ?z\<rparr>"
  have bt: "between ?d" and ok: "decoder_ok d" using assms(1) by (auto simp: between_def decoder_ok_def)
  have "body = concat (map encode_chunk cs) @ size_line hs ex @ (if consume_trailer ?d then encode_trailer ts else [])"
    using assms(5) by simp
  from feed_body [OF bt assms(2-4) this, of rest] obtain e where "feed_chunks ?d (body @ rest) = (e, ?out, Finished rest)" by blast
  then have "decoded ?z (feed_chunks ?d (take ?z (body @ rest))) = (int (length rest), e, ?out, rest)"
    by (simp add: decoded_def)
  from decode_follows [OF ok order_refl this] show ?thesis
    by (auto simp: take_add)
qed

text \<open>Two chunks and a last one with an extension, in front of the byte that follows; cut inside the first chunk.\<close>

lemma demo_pieces:
  "phr_decode_chunked demo_decoder (''3'' @ [CR, LF] @ ''ab'') (length (''3'' @ [CR, LF] @ ''ab'')) =
     (Some (-2), demo_decoder\<lparr>bytes_left_in_chunk := 1, chunk_st := CHUNKED_IN_CHUNK_DATA, total_read := 5, total_overhead := 3\<rparr>, ''ab'' @ [LF] @ ''ab'', 2)"
  "phr_decode_chunked (demo_decoder\<lparr>bytes_left_in_chunk := 1, chunk_st := CHUNKED_IN_CHUNK_DATA, total_read := 5, total_overhead := 3\<rparr>)
       (''c'' @ [CR, LF] @ ''0;x'' @ [CR, LF] @ ''!'') (length (''c'' @ [CR, LF] @ ''0;x'' @ [CR, LF] @ ''!'')) =
     (Some 1, demo_decoder\<lparr>chunk_st := CHUNKED_IN_CHUNK_HEADER_EXPECT_LF, total_read := 14, total_overhead := 3\<rparr>, ''c!'' @ [LF] @ ''0;x'' @ [CR, LF] @ ''!'', 1)"
  by (simp_all add: phr_decode_chunked_def chunk_loop_again chunk_loop_leaves chunk_step_def chunk_data_def chunk_byte_def byte_step_def
        decode_hex_def schar_def uchar_def memmove_def demo_decoder_def Let_def)

theorem chunked_in_pieces_witness:
  "\<exists>d3 c'. phr_decode_chunked demo_decoder (''3'' @ [CR, LF] @ ''abc'' @ [CR, LF] @ ''0;x'' @ [CR, LF] @ ''!'') 14 = (Some 1, d3, c', 3)
     \<and> take 3 c' = ''abc'' \<and> take 1 (drop 3 c') = ''!''"
proof -
  let ?a = "''3'' @ [CR, LF] @ ''ab''"
  have "chunked.drain demo_decoder [?a] =
      Some (demo_decoder\<lparr>bytes_left_in_chunk := 1, chunk_st := CHUNKED_IN_CHUNK_DATA, total_read := 5, total_overhead := 3\<rparr>, ''ab'')"
    using demo_pieces(1) by (simp add: decode_chunked_def)
  from chunked_in_pieces [OF demo_decoder_ok(1) this demo_pieces(2)] show ?thesis by (auto simp: eval_nat_numeral)
qed

theorem chunked_roundtrip_witness:
  "\<exists>d' buf'. phr_decode_chunked (demo_decoder\<lparr>consume_trailer := True\<rparr>)
      (concat (map encode_chunk [(''03'', '';x'', ''abc''), (''a'', [], ''0123456789'')]) @ size_line ''0'' [] @ encode_trailer [''k: v''] @ ''!'') 38
    = (Some 1, d', buf', 13) \<and> take 14 buf' = ''abc0123456789!''"
proof -
  let ?d = "demo_decoder\<lparr>consume_trailer := True\<rparr>"
  have "between ?d" by (simp add: demo_decoder_def between_def)
  moreover have "list_all chunk_ok [(''03'', '';x'', ''abc''), (''a'', [], ''0123456789'')]" by code_simp
  moreover have "size_line_ok ''0'' [] 0" by code_simp
  moreover have "list_all trailer_ok [''k: v'']" by code_simp
  ultimately show ?thesis
    using chunked_roundtrip [of ?d "[(''03'', '';x'', ''abc''), (''a'', [], ''0123456789'')]" "''0''" "[]" "[''k: v'']" _ "''!''"]
    by (simp add: size_line_def encode_trailer_def eval_nat_numeral)
qed

end
