(* ===== verification/ServerMain.thy ===== *)
theory ServerMain
  imports EpollProps "HOL-Library.Signed_Division"
begin

text \<open>
  The start of the program, \<^verbatim>\<open>main\<close> of \<^verbatim>\<open>src/server.c\<close> as compiled with \<^verbatim>\<open>USE_EPOLL\<close>: the
  configuration, the log file, the event loop. libconfuse is a parameter: a record of the functions
  the program calls. Then what every run of the whole server may do.
\<close>

section \<open>The configuration\<close>

abbreviation (input) DEF_CONF_FILE :: bytes where "DEF_CONF_FILE \<equiv> ''server.conf''"
abbreviation (input) DEFAULT_PORT :: int where "DEFAULT_PORT \<equiv> 8000"
abbreviation (input) DEFAULT_ROOT :: bytes where "DEFAULT_ROOT \<equiv> ''www/''"
abbreviation (input) DEFAULT_SIGN :: bytes where "DEFAULT_SIGN \<equiv> ''Server''"
abbreviation (input) DEFAULT_LOG_FILE :: bytes where "DEFAULT_LOG_FILE \<equiv> ''server_logs''"
abbreviation (input) DEFAULT_TIMEOUT_MS :: int where "DEFAULT_TIMEOUT_MS \<equiv> 1000"
abbreviation (input) DEFAULT_POOL_SIZE :: int where "DEFAULT_POOL_SIZE \<equiv> 8"
abbreviation (input) DEFAULT_QUEUE_SIZE :: int where "DEFAULT_QUEUE_SIZE \<equiv> 32"
abbreviation (input) DEFAULT_BACKLOG :: int where "DEFAULT_BACKLOG \<equiv> 10"

datatype cfg_opt = CFG_INT bytes int | CFG_STR bytes bytes

datatype cfg_result = CFG_SUCCESS | CFG_FILE_ERROR | CFG_PARSE_ERROR

text \<open>The functions of libconfuse; \<^verbatim>\<open>cfg_init\<close> and \<^verbatim>\<open>cfg_parse\<close> are one, of the options and the file name.\<close>

record 'c confuse =
  cfg_parse :: "cfg_opt list \<Rightarrow> bytes \<Rightarrow> cfg_result \<times> 'c"
  cfg_getint :: "'c \<Rightarrow> bytes \<Rightarrow> int"
  cfg_getstr :: "'c \<Rightarrow> bytes \<Rightarrow> bytes"

definition conf_opts :: "cfg_opt list" where
  "conf_opts = [
     CFG_INT ''listen_port'' DEFAULT_PORT,
     CFG_STR ''server_root'' DEFAULT_ROOT,
     CFG_STR ''server_signature'' DEFAULT_SIGN,
     CFG_STR ''log_file'' DEFAULT_LOG_FILE,
     CFG_INT ''timeout_ms'' DEFAULT_TIMEOUT_MS,
     CFG_INT ''pool_size'' DEFAULT_POOL_SIZE,
     CFG_INT ''queue_size'' DEFAULT_QUEUE_SIZE,
     CFG_INT ''backlog'' DEFAULT_BACKLOG]"

text \<open>
  \<open>malloc_ok\<close>: the structure could be allocated; \<open>open_dir\<close>: what \<^verbatim>\<open>open\<close> with \<^verbatim>\<open>O_DIRECTORY\<close> returns. The
  options are of type \<^verbatim>\<open>long\<close> and cut to an \<^verbatim>\<open>int\<close>; \<^verbatim>\<open>strdup\<close> is taken to succeed.
\<close>

definition initialize_server_conf :: "'c confuse \<Rightarrow> bool \<Rightarrow> (bytes \<Rightarrow> int) \<Rightarrow> bytes \<Rightarrow> server_conf option io" where
  "initialize_server_conf lib malloc_ok open_dir conf_filename =
     (let (r, cfg) = cfg_parse lib conf_opts conf_filename in
      if r = CFG_PARSE_ERROR then return None
      else if \<not> malloc_ok then return None
      else do {
        let root = cfg_getstr lib cfg ''server_root'';
        let sc = \<lparr>server_root = root, root_fd = open_dir root,
                  listen_port = wrap32 (cfg_getint lib cfg ''listen_port''),
                  server_signature = cfg_getstr lib cfg ''server_signature'',
                  conf_log_file = cfg_getstr lib cfg ''log_file'',
                  timeout_ms = wrap32 (cfg_getint lib cfg ''timeout_ms''),
                  queue_size = wrap32 (cfg_getint lib cfg ''queue_size''),
                  pool_size = wrap32 (cfg_getint lib cfg ''pool_size''),
                  backlog = wrap32 (cfg_getint lib cfg ''backlog'')\<rparr>;
        _ \<leftarrow> note_event (OpenDir root (root_fd sc));
        if root_fd sc < 0 then return None else return (Some sc)
      })"

text \<open>\<^verbatim>\<open>timeout.tv_sec\<close> and \<^verbatim>\<open>timeout.tv_usec\<close>, with the division of C.\<close>

definition socket_timeout :: "server_conf \<Rightarrow> int \<times> int" where
  "socket_timeout sc = (timeout_ms sc sdiv 1000, (timeout_ms sc smod 1000) * 1000)"

section \<open>main\<close>

text \<open>What the system answers while the program starts.\<close>

record startup =
  st_malloc :: bool
  st_open_dir :: "bytes \<Rightarrow> int"
  st_log_malloc :: bool
  st_logs_is_dir :: "bool option"
  st_mkdir :: bool
  st_fopen :: bool
  st_mutex :: bool
  st_date :: bytes
  st_calloc :: bool

text \<open>The handler of SIGINT only sets the flag that \<open>epoll_loop\<close> is given; SIGPIPE is ignored.\<close>

definition main :: "'c confuse \<Rightarrow> startup \<Rightarrow> os \<Rightarrow> (bool + ready list) list \<Rightarrow> status io" where
  "main lib st os waits = do {
     conf \<leftarrow> initialize_server_conf lib (st_malloc st) (st_open_dir st) DEF_CONF_FILE;
     (case conf of
        None \<Rightarrow> return (Exited (-1))
      | Some sc \<Rightarrow> do {
          lf \<leftarrow> logs_init_file (st_log_malloc st) (st_logs_is_dir st) (st_mkdir st) (st_fopen st) (st_mutex st) (st_date st) (Some (conf_log_file sc));
          (case lf of
             LogFailed \<Rightarrow> return (Exited (-1))
           | LogOverflow \<Rightarrow> return Crashed
           | LogOpened lf \<Rightarrow> epoll_server os sc (st_calloc st) waits)
        })
   }"

lemma conf_fst:
  "fst (run_state (initialize_server_conf lib malloc_ok open_dir f) w) = fst (run_state (initialize_server_conf lib malloc_ok open_dir f) [])"
  by (simp add: initialize_server_conf_def Let_def split: prod.split)

text \<open>Loading the configuration opens nothing but its document root.\<close>

lemma conf_events:
  "\<exists>es. snd (run_state (initialize_server_conf lib malloc_ok open_dir f) w) = w @ es
     \<and> (case fst (run_state (initialize_server_conf lib malloc_ok open_dir f) w) of
          None \<Rightarrow> es = [] \<or> (\<exists>root fd. es = [OpenDir root fd] \<and> root = cfg_getstr lib (snd (cfg_parse lib conf_opts f)) ''server_root'' \<and> fd < 0)
        | Some sc \<Rightarrow> es = [OpenDir (server_root sc) (root_fd sc)] \<and> 0 \<le> root_fd sc
            \<and> server_root sc = cfg_getstr lib (snd (cfg_parse lib conf_opts f)) ''server_root'')"
  by (auto simp: initialize_server_conf_def Let_def split: prod.split)

section \<open>What the whole server may do\<close>

text \<open>Files are opened below the document root, programs are started through the two interpreters.\<close>

definition server_event :: "int \<Rightarrow> event \<Rightarrow> bool" where
  "server_event root e = (case e of
     OpenAt r p fd \<Rightarrow> r = root
   | OpenDir p fd \<Rightarrow> False
   | MkDir p ok \<Rightarrow> False
   | FOpen p ok \<Rightarrow> False
   | Fork pid argv \<Rightarrow> \<exists>fp. argv = [''/usr/bin/python3'', ''python3'', fp] \<or> argv = [''/usr/bin/php'', ''php'', fp]
   | _ \<Rightarrow> True)"

lemma script_interpreter:
  assumes "is_script (get_mime_type p)"
  shows "\<exists>x. child_argv p fp = [''/usr/bin/python3'', ''python3'', x] \<or> child_argv p fp = [''/usr/bin/php'', ''php'', x]"
proof -
  obtain e where e: "strrchr p (CHR ''.'') = Some e" "tl e = ''py'' \<or> tl e = ''php''"
    using assms by (auto simp: get_mime_type_def is_script_def Let_def split: option.splits if_splits)
  then have "e = ''.py'' \<or> e = ''.php''" by (auto simp: strrchr_Some)
  with e show ?thesis by (auto simp: child_argv_def)
qed

lemma server_event_client: "client_events c (server_event root)"
  by (simp add: client_events_def server_event_def)

lemma server_event_simps [simp]:
  "server_event root (OpenAt root p fd)" "server_event root (Send a b n)" "server_event root (Recv a n)" "server_event root (Shutdown a)"
  "server_event root (Close a)" "server_event root (LogWrite b)" "server_event root (Socket a)" "server_event root (Accept a)"
  "server_event root (EpollAdd a)" "server_event root (EpollDel a)" "server_event root (ReadBeyond k)"
  by (simp_all add: server_event_def)

lemma server_event_fork [simp]: "is_script (get_mime_type p) \<Longrightarrow> server_event root (Fork pid (child_argv p fp))"
  using script_interpreter [of p fp] by (auto simp: server_event_def)

lemma traces_process_server: "traces (server_event (root_fd sc)) (http_process_request os sc buff r c)"
  by (rule traces_process_any [OF server_event_client]) simp_all

lemma traces_client_ready: "traces (server_event (root_fd sc)) (client_ready os sc cd)"
  unfolding client_ready_def tcp_recv_def Let_def
  by (intro tracing) (auto split: verdict.split intro!: tracing traces_process_server)

lemma traces_free_clients: "(\<And>fd. P (Close fd)) \<Longrightarrow> traces P (free_clients os clients)"
  by (induction clients rule: free_clients.induct) (auto intro!: tracing)

lemma traces_handle_event: "traces (server_event (root_fd sc)) (handle_event os sc sockfd epollfd e clients)"
  unfolding handle_event_def accept_client_def tcp_accept_connection_def Let_def
  by (auto split: ready.split intro!: tracing traces_client_ready traces_free_clients)

lemma traces_handle_batch: "traces (server_event (root_fd sc)) (handle_batch os sc sockfd epollfd es clients)"
  by (induction es arbitrary: clients) (auto split: status.split intro!: tracing traces_handle_event)

lemma traces_epoll_loop: "traces (server_event (root_fd sc)) (epoll_loop os sc sockfd epollfd bs clients)"
proof (induction bs arbitrary: clients)
  case (Cons b bs)
  then show ?case by (cases b) (auto split: status.split intro!: tracing traces_handle_batch)
qed (auto intro!: tracing)

lemma traces_epoll_server: "traces (server_event (root_fd sc)) (epoll_server os sc calloc_ok waits)"
  unfolding epoll_server_def tcp_start_connection_def Let_def
  by (auto intro!: tracing traces_epoll_loop)

end
