(* ===== verification/PoolConfined.thy ===== *)
theory PoolConfined
  imports ServerMain PoolShutdown
begin

text \<open>
  What the threaded server may do: every step of every thread only adds events the server is allowed, and none that
  reads behind a buffer.
\<close>

definition adds :: "(event \<Rightarrow> bool) \<Rightarrow> pool \<Rightarrow> pool \<Rightarrow> bool" where
  "adds P p p' \<longleftrightarrow> (\<exists>es. hist p' = hist p @ es \<and> list_all P es)"

lemma adds_same: "hist p' = hist p \<Longrightarrow> adds P p p'"
  by (simp add: adds_def)

lemma adds_traces: "traces P m \<Longrightarrow> hist p' = snd (run_state m (hist p)) \<Longrightarrow> adds P p p'"
  unfolding traces_def adds_def by metis

lemma adds_trans: "adds P p p' \<Longrightarrow> adds P p' p'' \<Longrightarrow> adds P p p''"
  unfolding adds_def by (metis append.assoc list_all_append)

lemma traces_serve_server: "traces (server_event (root_fd sc)) (serve_client os sc c ws)"
  by (rule traces_serve_client [OF server_event_client]) simp_all

text \<open>The calls the threads make outside a handler.\<close>

definition pool_events :: "(event \<Rightarrow> bool) \<Rightarrow> bool" where
  "pool_events P \<longleftrightarrow> (\<forall>s. P (LogWrite s)) \<and> (\<forall>fd. P (Shutdown fd)) \<and> (\<forall>fd. P (Close fd)) \<and> (\<forall>fd. P (Accept fd))"

lemma pool_eventsD [simp]: "pool_events P \<Longrightarrow> P (LogWrite s)" "pool_events P \<Longrightarrow> P (Shutdown fd)" "pool_events P \<Longrightarrow> P (Close fd)"
  "pool_events P \<Longrightarrow> P (Accept fd)"
  by (simp_all add: pool_events_def)

lemma worker_step_adds:
  assumes P: "pool_events P"
    and serve: "\<And>fd. w_pc (workers p ! i) = WActive fd \<Longrightarrow>
      \<exists>es. snd (run_state (serve_client os sc fd (workers p ! i)) (hist p)) = hist p @ es \<and> list_all P es"
    and assms: "worker_step os sc i p = Some p'"
  shows "adds P p p'"
proof (cases "w_pc (workers p ! i)")
  case WLoop
  with assms show ?thesis
    by (intro adds_same) (auto simp: worker_step_def set_worker_def Let_def split: qres.splits prod.splits)
next
  case (WAdd fd)
  let ?m = "do {
      ip_port_str \<leftarrow> get_client_ip_port os fd;
      _ \<leftarrow> logs_print os LOG_INFO (''Connection accepted by thread '' @ show_int (int i) @ '' - descriptor ''
             @ show_int fd @ '' - client '' @ ip_port_str);
      return ip_port_str
    }"
  have "hist p' = snd (run_state ?m (hist p))"
    using assms WAdd unfolding worker_step_def Let_def set_worker_def
    by (simp only: worker_pc.case option.inject split_beta) auto
  then show ?thesis by (rule adds_traces [rotated]) (intro tracing, simp_all add: P)
next
  case (WActive fd)
  with assms have "hist p' = snd (run_state (serve_client os sc fd (workers p ! i)) (hist p))"
    by (auto simp: worker_step_def set_worker_def split: prod.splits)
  with serve [OF WActive] show ?thesis by (simp add: adds_def)
next
  case (WShut fd ok)
  let ?m = "do {
      _ \<leftarrow> tcp_shutdown os fd;
      if ok then do { _ \<leftarrow> logs_print os LOG_INFO (''Closing connection '' @ show_int fd); return () } else return ()
    }"
  have "hist p' = snd (run_state ?m (hist p))"
    using assms WShut unfolding worker_step_def Let_def set_worker_def
    by (simp only: worker_pc.case option.inject split_beta) auto
  then show ?thesis by (rule adds_traces [rotated]) (intro tracing, simp_all add: P)
next
  case (WShutDel fd)
  with assms have "hist p' = snd (run_state (tcp_shutdown os fd) (hist p))" by (auto simp: worker_step_def set_worker_def)
  then show ?thesis by (rule adds_traces [rotated]) (intro tracing, simp_all add: P)
qed (insert assms, auto intro!: adds_same simp: worker_step_def set_worker_def)

lemma main_step_adds:
  assumes P: "pool_events P" and assms: "main_step os sc sockfd v p = Some p'"
  shows "adds P p p'"
proof (cases "mpc p")
  case MAccepting
  with assms have "hist p' = snd (run_state (accept_step os sc sockfd) (hist p))"
    by (auto simp: main_step_def split: prod.splits)
  then show ?thesis
    by (rule adds_traces [rotated]) (unfold accept_step_def tcp_accept_connection_def Let_def, intro tracing, simp_all add: P)
next
  case (MPush fd)
  let ?m = "logs_print os LOG_INFO (''New connection added to queue: descriptor '' @ show_int fd)"
  have "hist p' = hist p \<or> hist p' = snd (run_state ?m (hist p))"
    using MPush assms by (auto simp: main_step_def Let_def split: qres.splits option.splits)
  then show ?thesis by (elim disjE adds_same adds_traces [rotated]) (intro tracing, simp add: P)
next
  case MShutdown
  then have "hist p' = snd (run_state (logs_print os LOG_INFO ''SIGINT received, shutting down server'') (hist p))"
    using assms by (auto simp: main_step_def)
  then show ?thesis by (rule adds_traces [rotated]) (intro tracing, simp add: P)
next
  case (MJoinShut i fd)
  then have "hist p' = snd (run_state (tcp_shutdown os fd) (hist p))" using assms by (auto simp: main_step_def)
  then show ?thesis by (rule adds_traces [rotated]) (intro tracing, simp_all add: P)
next
  case MClose
  then have "hist p' = snd (run_state (tcp_shutdown os sockfd) (hist p))" using assms by (auto simp: main_step_def split: prod.splits)
  then show ?thesis by (rule adds_traces [rotated]) (intro tracing, simp_all add: P)
qed (insert assms, auto intro!: adds_same simp: main_step_def Let_def split: if_splits)

lemma pool_env_adds: "pool_env p p' \<Longrightarrow> adds P p p'"
  by (auto elim!: pool_envE intro!: adds_same simp: set_worker_def)

lemma server_pool_events: "pool_events (server_event root)" "pool_events in_bounds"
  by (simp_all add: pool_events_def in_bounds_def)

lemma pool_run_adds: "pool_run os sc sockfd p0 p \<Longrightarrow> adds (server_event (root_fd sc)) p0 p"
proof (induction rule: pool_run.induct)
  case start
  show ?case by (rule adds_same) simp
next
  case (step p p')
  have e: "\<exists>es. snd (run_state (serve_client os sc fd ws) w) = w @ es \<and> list_all (server_event (root_fd sc)) es" for fd ws w
    using traces_serve_server unfolding traces_def by blast
  from step(2) have "adds (server_event (root_fd sc)) p p'"
    by (cases rule: pool_step.cases) (rule worker_step_adds [OF server_pool_events(1) e] main_step_adds [OF server_pool_events(1)]; assumption)+
  with step.IH show ?case by (rule adds_trans)
next
  case (env p p')
  then show ?case using pool_env_adds adds_trans by blast
qed

text \<open>The workers stay inside their buffers, whatever their stacks hold.\<close>

lemma pool_run_in_bounds: "pool_run os sc sockfd p0 p \<Longrightarrow> pool_ok False p0 \<Longrightarrow> pool_ok False p \<and> adds in_bounds p0 p"
proof (induction rule: pool_run.induct)
  case start
  then show ?case by (simp add: adds_same)
next
  case (step p p')
  then have ok: "pool_ok False p" and a: "adds in_bounds p0 p" by simp_all
  from step(2) have "adds in_bounds p p'"
  proof (cases rule: pool_step.cases)
    case (worker i)
    have "worker_sized (workers p ! i)" using ok worker(1) workers_ok_nth by (simp add: pool_ok_def)
    then show ?thesis using worker_step_adds [OF server_pool_events(2) _ worker(2)] serve_client_in_bounds by blast
  next
    case (main v)
    then show ?thesis using main_step_adds [OF server_pool_events(2)] by blast
  qed
  with pool_step_ok [OF ok step(2)] adds_trans [OF a] show ?case by blast
next
  case (env p p')
  then show ?case using pool_env_ok pool_env_adds adds_trans by blast
qed

end
