(* ===== verification/Lifetime.thy ===== *)
theory Lifetime
  imports PoolShutdown ServerMain
begin

text \<open>
  The memory the program allocates, from its allocation to its release: the configuration,
  the log, the queue, the arrays of the threads, the array of events and the structures of the clients. Every function that
  allocates or frees some of it, on every path, is followed here on the set of live blocks; freeing a block that is
  not live, or reaching through a pointer to one, is \<open>None\<close>.
\<close>

section \<open>Blocks\<close>

datatype block = BlkCfg | BlkConf | BlkRoot | BlkSign | BlkLogName | BlkLog | BlkLogFile
  | BlkQueue | BlkFds | BlkActive | BlkThreads | BlkArgs | BlkEvents | BlkClient nat

type_synonym memory = "block set"

definition c_malloc :: "block \<Rightarrow> memory \<Rightarrow> memory option" where
  "c_malloc b m = (if b \<in> m then None else Some (insert b m))"

definition c_free :: "block \<Rightarrow> memory \<Rightarrow> memory option" where
  "c_free b m = (if b \<in> m then Some (m - {b}) else None)"

text \<open>\<^verbatim>\<open>free(p->f)\<close>: the pointer is read through \<open>p\<close>.\<close>

definition c_free_field :: "block \<Rightarrow> block \<Rightarrow> memory \<Rightarrow> memory option" where
  "c_free_field p b m = (if p \<in> m then c_free b m else None)"

section \<open>Allocation and release of each part\<close>

text \<open>The conditions are those of \<open>initialize_server_conf\<close>; a root that cannot be opened releases nothing.\<close>

definition initialize_server_conf_mem :: "'c confuse \<Rightarrow> bool \<Rightarrow> bytes \<Rightarrow> memory \<Rightarrow> memory option" where
  "initialize_server_conf_mem lib malloc_ok conf_filename m = do {
     m \<leftarrow> c_malloc BlkCfg m;
     if fst (cfg_parse lib conf_opts conf_filename) = CFG_PARSE_ERROR then c_free BlkCfg m
     else if \<not> malloc_ok then Some m
     else do {
       m \<leftarrow> c_malloc BlkConf m;
       m \<leftarrow> c_malloc BlkRoot m;
       m \<leftarrow> c_malloc BlkSign m;
       m \<leftarrow> c_malloc BlkLogName m;
       c_free BlkCfg m
     }
   }"

definition free_server_conf :: "memory \<Rightarrow> memory option" where
  "free_server_conf m = do {
     m \<leftarrow> c_free_field BlkConf BlkSign m;
     m \<leftarrow> c_free_field BlkConf BlkRoot m;
     m \<leftarrow> c_free_field BlkConf BlkLogName m;
     c_free BlkConf m
   }"

text \<open>
  The conditions are those of \<open>logs_init_file\<close>, whose every failure behind the first returns without releasing
  the structure; only the file is closed when the mutex fails.
\<close>

definition logs_init_file_mem :: "bool \<Rightarrow> bool option \<Rightarrow> bool \<Rightarrow> bool \<Rightarrow> bool \<Rightarrow> bytes option \<Rightarrow> memory \<Rightarrow> memory option" where
  "logs_init_file_mem malloc_ok logs_is_dir mkdir_ok fopen_ok mutex_ok log_name m =
     (if \<not> malloc_ok then Some m
      else do {
        m \<leftarrow> c_malloc BlkLog m;
        if log_name = None then Some m
        else if (case logs_is_dir of None \<Rightarrow> \<not> mkdir_ok | Some is_dir \<Rightarrow> \<not> is_dir) then Some m
        else if \<not> fopen_ok then Some m
        else do {
          m \<leftarrow> c_malloc BlkLogFile m;
          if \<not> mutex_ok then c_free_field BlkLog BlkLogFile m else Some m
        }
      })"

definition logs_destroy :: "memory \<Rightarrow> memory option" where
  "logs_destroy m = do {
     m \<leftarrow> c_free_field BlkLog BlkLogFile m;
     c_free BlkLog m
   }"

text \<open>Whether the queue was created, and the memory.\<close>

definition queue_create_mem :: "(nat \<Rightarrow> bool) \<Rightarrow> memory \<Rightarrow> (bool \<times> memory) option" where
  "queue_create_mem alloc m =
     (if \<not> alloc 0 then Some (False, m)
      else do {
        m \<leftarrow> c_malloc BlkQueue m;
        if \<not> alloc 1 then do { m \<leftarrow> c_free BlkQueue m; Some (False, m) }
        else do {
          m \<leftarrow> c_malloc BlkFds m;
          if \<not> alloc 2 then do {
            m \<leftarrow> c_free_field BlkQueue BlkFds m;
            m \<leftarrow> c_free BlkQueue m;
            Some (False, m)
          } else do { m \<leftarrow> c_malloc BlkActive m; Some (True, m) }
        }
      })"

definition queue_destroy :: "memory \<Rightarrow> memory option" where
  "queue_destroy m = do {
     m \<leftarrow> c_free_field BlkQueue BlkFds m;
     m \<leftarrow> c_free_field BlkQueue BlkActive m;
     c_free BlkQueue m
   }"

section \<open>The event loop\<close>

text \<open>The two orders in which the exits of \<^verbatim>\<open>epoll_server\<close> release: behind \<^verbatim>\<open>epoll_wait\<close>, and behind \<^verbatim>\<open>accept\<close>.\<close>

definition release_events_first :: "memory \<Rightarrow> memory option" where
  "release_events_first m = do { m \<leftarrow> c_free BlkEvents m; m \<leftarrow> logs_destroy m; free_server_conf m }"

definition release_log_first :: "memory \<Rightarrow> memory option" where
  "release_log_first m = do { m \<leftarrow> logs_destroy m; m \<leftarrow> c_free BlkEvents m; free_server_conf m }"

text \<open>The walk over the list frees each structure; it is followed up to the oldest one.\<close>

fun free_clients_mem :: "client_list \<Rightarrow> memory \<Rightarrow> memory option" where
  "free_clients_mem [] m = Some m"
| "free_clients_mem ((a, cd) # clients) m = do { m \<leftarrow> c_free (BlkClient a) m; free_clients_mem clients m }"

definition accept_client_mem :: "os \<Rightarrow> int \<Rightarrow> nat option \<Rightarrow> client_list \<Rightarrow> world \<Rightarrow> memory \<Rightarrow> memory option" where
  "accept_client_mem os sockfd addr clients w m =
     (case run_state (tcp_accept_connection os False sockfd) w of ((connfd, ret), w) \<Rightarrow>
      if ret \<noteq> 0 then release_log_first m
      else (case addr of
         None \<Rightarrow> Some m
       | Some a \<Rightarrow> do {
           m \<leftarrow> c_malloc (BlkClient a) m;
           if fst (run_state (sys_epoll_add os (the connfd)) w) then Some m
           else do {
             m \<leftarrow> logs_destroy m;
             m \<leftarrow> c_free BlkEvents m;
             m \<leftarrow> free_clients_mem (add_client clients a (new_client (the connfd))) m;
             free_server_conf m
           }
         }))"

text \<open>\<^verbatim>\<open>remove_client\<close> frees the structure it takes out of the list.\<close>

definition handle_event_mem :: "os \<Rightarrow> server_conf \<Rightarrow> int \<Rightarrow> ready \<Rightarrow> client_list \<Rightarrow> world \<Rightarrow> memory \<Rightarrow> memory option" where
  "handle_event_mem os sc sockfd e clients w m = (case e of
     NewConnection addr \<Rightarrow> accept_client_mem os sockfd addr clients w m
   | ClientIO a \<Rightarrow> (case map_of clients a of
        None \<Rightarrow> Some m
      | Some cd \<Rightarrow> (case fst (run_state (client_ready os sc cd) w) of
           Removed \<Rightarrow> c_free (BlkClient a) m
         | _ \<Rightarrow> Some m)))"

fun handle_batch_mem :: "os \<Rightarrow> server_conf \<Rightarrow> int \<Rightarrow> int \<Rightarrow> ready list \<Rightarrow> client_list \<Rightarrow> world \<Rightarrow> memory \<Rightarrow> memory option" where
  "handle_batch_mem os sc sockfd epollfd [] clients w m = Some m"
| "handle_batch_mem os sc sockfd epollfd (e # es) clients w m = do {
     m \<leftarrow> handle_event_mem os sc sockfd e clients w m;
     (case run_state (handle_event os sc sockfd epollfd e clients) w of
        (Running clients, w) \<Rightarrow> handle_batch_mem os sc sockfd epollfd es clients w m
      | _ \<Rightarrow> Some m)
   }"

fun epoll_loop_mem :: "os \<Rightarrow> server_conf \<Rightarrow> int \<Rightarrow> int \<Rightarrow> (bool + ready list) list \<Rightarrow> client_list \<Rightarrow> world \<Rightarrow> memory \<Rightarrow> memory option" where
  "epoll_loop_mem os sc sockfd epollfd [] clients w m = Some m"
| "epoll_loop_mem os sc sockfd epollfd (Inl interrupted # bs) clients w m = release_events_first m"
| "epoll_loop_mem os sc sockfd epollfd (Inr batch # bs) clients w m = do {
     m \<leftarrow> handle_batch_mem os sc sockfd epollfd batch clients w m;
     (case run_state (handle_batch os sc sockfd epollfd batch clients) w of
        (Running clients, w) \<Rightarrow> epoll_loop_mem os sc sockfd epollfd bs clients w m
      | _ \<Rightarrow> Some m)
   }"

definition epoll_server_mem :: "os \<Rightarrow> server_conf \<Rightarrow> bool \<Rightarrow> (bool + ready list) list \<Rightarrow> world \<Rightarrow> memory \<Rightarrow> memory option" where
  "epoll_server_mem os sc calloc_ok waits w m =
     (case run_state (tcp_start_connection os False (listen_port sc) 16) w of ((fd, r), w) \<Rightarrow>
      case run_state (set_non_blocking os (the fd)) w of (ret, w) \<Rightarrow>
      if ret \<noteq> 0 then do { m \<leftarrow> logs_destroy m; free_server_conf m }
      else if initialize_events calloc_ok \<noteq> 0 then do { m \<leftarrow> logs_destroy m; free_server_conf m }
      else do {
        m \<leftarrow> c_malloc BlkEvents m;
        (case run_state (sys_epoll_create os) w of (epollfd, w) \<Rightarrow>
         if epollfd = -1 then release_events_first m
         else (case run_state (sys_epoll_add os (the fd)) w of (ok, w) \<Rightarrow>
           if \<not> ok then release_events_first m
           else epoll_loop_mem os sc (the fd) epollfd waits [] w m))
      })"

definition main_mem :: "'c confuse \<Rightarrow> startup \<Rightarrow> os \<Rightarrow> (bool + ready list) list \<Rightarrow> world \<Rightarrow> memory option" where
  "main_mem lib st os waits w = do {
     m \<leftarrow> initialize_server_conf_mem lib (st_malloc st) DEF_CONF_FILE {};
     (case run_state (initialize_server_conf lib (st_malloc st) (st_open_dir st) DEF_CONF_FILE) w of
        (None, w) \<Rightarrow> Some m
      | (Some sc, w) \<Rightarrow> do {
          m \<leftarrow> logs_init_file_mem (st_log_malloc st) (st_logs_is_dir st) (st_mkdir st) (st_fopen st) (st_mutex st) (Some (conf_log_file sc)) m;
          (case run_state (logs_init_file (st_log_malloc st) (st_logs_is_dir st) (st_mkdir st) (st_fopen st) (st_mutex st) (st_date st)
              (Some (conf_log_file sc))) w of
             (LogFailed, w) \<Rightarrow> free_server_conf m
           | (LogOverflow, w) \<Rightarrow> Some m
           | (LogOpened lf, w) \<Rightarrow> epoll_server_mem os sc (st_calloc st) waits w m)
        })
   }"

text \<open>What \<^verbatim>\<open>calloc\<close> promises along a run: the address it returns is that of no live structure.\<close>

fun batch_fresh :: "os \<Rightarrow> server_conf \<Rightarrow> int \<Rightarrow> int \<Rightarrow> ready list \<Rightarrow> client_list \<Rightarrow> world \<Rightarrow> bool" where
  "batch_fresh os sc sockfd epollfd [] clients w = True"
| "batch_fresh os sc sockfd epollfd (e # es) clients w = (fresh e clients \<and>
     (case run_state (handle_event os sc sockfd epollfd e clients) w of
        (Running clients, w) \<Rightarrow> batch_fresh os sc sockfd epollfd es clients w
      | _ \<Rightarrow> True))"

fun loop_fresh :: "os \<Rightarrow> server_conf \<Rightarrow> int \<Rightarrow> int \<Rightarrow> (bool + ready list) list \<Rightarrow> client_list \<Rightarrow> world \<Rightarrow> bool" where
  "loop_fresh os sc sockfd epollfd [] clients w = True"
| "loop_fresh os sc sockfd epollfd (Inl interrupted # bs) clients w = True"
| "loop_fresh os sc sockfd epollfd (Inr batch # bs) clients w = (batch_fresh os sc sockfd epollfd batch clients w \<and>
     (case run_state (handle_batch os sc sockfd epollfd batch clients) w of
        (Running clients, w) \<Rightarrow> loop_fresh os sc sockfd epollfd bs clients w
      | _ \<Rightarrow> True))"

text \<open>The history when the loop is entered: only \<^verbatim>\<open>socket\<close> and the registration of the listening socket leave events.\<close>

definition epoll_fresh :: "os \<Rightarrow> server_conf \<Rightarrow> (bool + ready list) list \<Rightarrow> world \<Rightarrow> bool" where
  "epoll_fresh os sc waits w =
     (case run_state (tcp_start_connection os False (listen_port sc) 16) w of ((fd, r), w) \<Rightarrow>
      case run_state (sys_epoll_create os) w of (epollfd, w) \<Rightarrow>
      case run_state (sys_epoll_add os (the fd)) w of (ok, w) \<Rightarrow> loop_fresh os sc (the fd) epollfd waits [] w)"

definition main_fresh :: "'c confuse \<Rightarrow> startup \<Rightarrow> os \<Rightarrow> (bool + ready list) list \<Rightarrow> world \<Rightarrow> bool" where
  "main_fresh lib st os waits w =
     (case run_state (initialize_server_conf lib (st_malloc st) (st_open_dir st) DEF_CONF_FILE) w of
        (None, w) \<Rightarrow> True
      | (Some sc, w) \<Rightarrow> (case run_state (logs_init_file (st_log_malloc st) (st_logs_is_dir st) (st_mkdir st) (st_fopen st) (st_mutex st) (st_date st)
            (Some (conf_log_file sc))) w of (lf, w) \<Rightarrow> epoll_fresh os sc waits w))"

section \<open>The thread pool\<close>

text \<open>\<^verbatim>\<open>main\<close> from \<^verbatim>\<open>queue_create\<close> on; the conditions are those of \<open>pool_init\<close>.\<close>

definition release_pool_start :: "memory \<Rightarrow> memory option" where
  "release_pool_start m = do { m \<leftarrow> queue_destroy m; m \<leftarrow> free_server_conf m; logs_destroy m }"

definition pool_init_mem :: "os \<Rightarrow> server_conf \<Rightarrow> (nat \<Rightarrow> bool) \<Rightarrow> (nat \<Rightarrow> bool) \<Rightarrow> world \<Rightarrow> memory \<Rightarrow> memory option" where
  "pool_init_mem os sc alloc create w m = do {
     (ok, m) \<leftarrow> queue_create_mem (\<lambda>k. alloc k \<and> (k = 1 \<longrightarrow> 0 \<le> queue_size sc) \<and> (k = 2 \<longrightarrow> 0 \<le> pool_size sc)) m;
     if \<not> ok then do { m \<leftarrow> free_server_conf m; logs_destroy m }
     else if snd (fst (run_state (tcp_start_connection os False (listen_port sc) (backlog sc)) w)) = -1 then release_pool_start m
     else if \<not> alloc 3 then release_pool_start m
     else do {
       m \<leftarrow> c_malloc BlkThreads m;
       if \<not> alloc 4 then release_pool_start m
       else do {
         m \<leftarrow> c_malloc BlkArgs m;
         if \<not> list_all create [0..<nat (pool_size sc)] then do {
           m \<leftarrow> release_pool_start m;
           m \<leftarrow> c_free BlkArgs m;
           c_free BlkThreads m
         } else Some m
       }
     }
   }"

text \<open>The end of \<^verbatim>\<open>main\<close>, behind \<^verbatim>\<open>tcp_shutdown(sockfd)\<close>.\<close>

definition pool_exit_mem :: "int \<Rightarrow> memory \<Rightarrow> memory option" where
  "pool_exit_mem ret m = do {
     m \<leftarrow> (if ret < 0 then do { m \<leftarrow> free_server_conf m; m \<leftarrow> queue_destroy m; logs_destroy m }
          else do { m \<leftarrow> queue_destroy m; m \<leftarrow> free_server_conf m; logs_destroy m });
     m \<leftarrow> c_free BlkArgs m;
     c_free BlkThreads m
   }"

section \<open>What is left\<close>

definition conf_blocks :: memory where
  "conf_blocks = {BlkConf, BlkRoot, BlkSign, BlkLogName}"

definition log_blocks :: memory where
  "log_blocks = {BlkLog, BlkLogFile}"

definition queue_blocks :: memory where
  "queue_blocks = {BlkQueue, BlkFds, BlkActive}"

text \<open>
  What is never released, by the place where \<^verbatim>\<open>main\<close> gives up: the parser of the configuration when the structure
  cannot be allocated, the structure when its directory cannot be opened, the log structure when the log file
  cannot be created.
\<close>

definition startup_leak :: "'c confuse \<Rightarrow> startup \<Rightarrow> memory" where
  "startup_leak lib st =
     (if fst (cfg_parse lib conf_opts DEF_CONF_FILE) = CFG_PARSE_ERROR then {}
      else if \<not> st_malloc st then {BlkCfg}
      else (case fst (run_state (initialize_server_conf lib True (st_open_dir st) DEF_CONF_FILE) []) of
          None \<Rightarrow> conf_blocks
        | Some sc \<Rightarrow> (case fst (run_state (logs_init_file (st_log_malloc st) (st_logs_is_dir st) (st_mkdir st) (st_fopen st) (st_mutex st) (st_date st)
              (Some (conf_log_file sc))) []) of
            LogFailed \<Rightarrow> if st_log_malloc st then {BlkLog} else {}
          | _ \<Rightarrow> {})))"

lemmas mem_defs = c_malloc_def c_free_def c_free_field_def

lemmas block_defs = conf_blocks_def log_blocks_def queue_blocks_def

lemma free_server_conf_live: "conf_blocks \<subseteq> m \<Longrightarrow> free_server_conf m = Some (m - conf_blocks)"
  by (auto simp: free_server_conf_def mem_defs conf_blocks_def)

abbreviation server_blocks :: memory where
  "server_blocks \<equiv> conf_blocks \<union> log_blocks"

abbreviation pool_blocks :: memory where
  "pool_blocks \<equiv> insert BlkArgs (insert BlkThreads (server_blocks \<union> queue_blocks))"

lemma release_server: "logs_destroy server_blocks \<bind> free_server_conf = Some {}"
  "free_server_conf server_blocks \<bind> logs_destroy = Some {}"
  by code_simp+

text \<open>The structures in a list, and all the memory of a running loop.\<close>

definition client_blocks :: "client_list \<Rightarrow> memory" where
  "client_blocks clients = BlkClient ` fst ` set clients"

definition loop_blocks :: "client_list \<Rightarrow> memory" where
  "loop_blocks clients = insert BlkEvents server_blocks \<union> client_blocks clients"

lemma client_blocks_disjoint: "b \<in> insert BlkEvents server_blocks \<Longrightarrow> b \<notin> client_blocks clients"
  by (auto simp: client_blocks_def block_defs)

lemma release_loop:
  "release_events_first (loop_blocks clients) = Some (client_blocks clients)" "release_log_first (loop_blocks clients) = Some (client_blocks clients)"
  "logs_destroy (loop_blocks clients) \<bind> c_free BlkEvents = Some (conf_blocks \<union> client_blocks clients)"
  "free_server_conf (conf_blocks \<union> client_blocks clients) = Some (client_blocks clients)"
  using client_blocks_disjoint [of _ clients]
  by (auto simp: release_events_first_def release_log_first_def logs_destroy_def free_server_conf_def mem_defs block_defs loop_blocks_def)

lemma release_pool: "release_pool_start (server_blocks \<union> queue_blocks) = Some {}"
  "release_pool_start (insert BlkThreads (server_blocks \<union> queue_blocks)) = Some {BlkThreads}"
  "release_pool_start pool_blocks = Some {BlkThreads, BlkArgs}"
  "pool_exit_mem ret pool_blocks = Some {}"
  by (code_simp, code_simp, code_simp, cases "ret < 0") (simp_all add: pool_exit_mem_def, code_simp+)

lemma free_clients_live:
  "distinct (map fst clients) \<Longrightarrow> client_blocks clients \<inter> m = {} \<Longrightarrow> free_clients_mem clients (m \<union> client_blocks clients) = Some m"
proof (induction clients "m \<union> client_blocks clients" arbitrary: m rule: free_clients_mem.induct)
  case (2 a cd clients)
  have "m \<union> client_blocks ((a, cd) # clients) - {BlkClient a} = m \<union> client_blocks clients"
    using "2.prems" by (auto simp: client_blocks_def)
  with 2 show ?case by (simp add: c_free_def client_blocks_def)
qed (simp add: client_blocks_def)

lemma release_refused:
  assumes "distinct (map fst cs)"
  shows "(do { m \<leftarrow> logs_destroy (loop_blocks cs); m \<leftarrow> c_free BlkEvents m; m \<leftarrow> free_clients_mem cs m; free_server_conf m }) = Some {}"
proof -
  have "free_clients_mem cs (conf_blocks \<union> client_blocks cs) = Some conf_blocks"
    using assms by (intro free_clients_live) (auto simp: client_blocks_def block_defs)
  moreover have "free_server_conf conf_blocks = Some {}" by code_simp
  ultimately show ?thesis using release_loop(3) [of cs] by (cases "logs_destroy (loop_blocks cs)") simp_all
qed

lemma malloc_client: "a \<notin> fst ` set clients \<Longrightarrow> c_malloc (BlkClient a) (loop_blocks clients) = Some (loop_blocks ((a, cd) # clients))"
  by (auto simp: c_malloc_def client_blocks_def block_defs loop_blocks_def)

lemma free_client: "distinct (map fst clients) \<Longrightarrow> map_of clients a = Some cd \<Longrightarrow>
    c_free (BlkClient a) (loop_blocks clients) = Some (loop_blocks (remove_client clients a))"
  by (auto simp: c_free_def client_blocks_def block_defs loop_blocks_def remove_client_filter dest!: map_of_SomeD)
     (force simp: image_iff)+

text \<open>While the loop goes on, the live structures are those in the list.\<close>

lemma handle_event_mem_running:
  assumes ok: "server_ok clients" and f: "fresh e clients"
    and r: "run_state (handle_event os sc sockfd epollfd e clients) w = (Running clients', w')"
  shows "handle_event_mem os sc sockfd e clients w (loop_blocks clients) = Some (loop_blocks clients')"
proof (cases e)
  case (NewConnection addr)
  then have r': "run_state (accept_client os sockfd epollfd addr clients) w = (Running clients', w')" using r by (simp add: handle_event_def)
  then have ok: "os_accept os w sockfd \<noteq> -1" "os_epoll_add os (w @ [Accept (os_accept os w sockfd)]) (os_accept os w sockfd)"
    by (auto simp: accept_client_def tcp_accept_connection_def sys_accept_def sys_epoll_add_def sys_close_def run_free_clients Let_def
        split: if_splits option.splits)
  obtain a fd where "addr = Some a" "clients' = (a, new_client fd) # clients"
    using accept_client_run [OF r'] by (auto simp: add_client_def)
  with ok f NewConnection show ?thesis
    using malloc_client [of a clients "new_client fd"]
    by (simp add: handle_event_mem_def accept_client_mem_def tcp_accept_connection_def sys_accept_def sys_epoll_add_def fresh_def)
next
  case (ClientIO a)
  obtain cd where cd: "map_of clients a = Some cd" using r ClientIO by (cases "map_of clients a") (auto simp: handle_event_def)
  have u: "loop_blocks (update_client clients a x) = loop_blocks clients" for x
    unfolding loop_blocks_def client_blocks_def by (metis list.set_map update_client_fst)
  show ?thesis
    using r ok ClientIO cd free_client [OF _ cd]
    by (auto simp: handle_event_mem_def handle_event_def u server_ok_def split: client_result.splits)
qed

definition left_over :: "client_list \<Rightarrow> world \<Rightarrow> bool" where
  "left_over left w \<longleftrightarrow> left = [] \<or> distinct (map fst left) \<and> accepted_fds w = client_fds left + deleted_fds w"

lemma client_blocks_Nil [simp]: "client_blocks [] = {}"
  by (simp add: client_blocks_def)

lemma handle_event_mem_exited:
  assumes s: "server_ok clients" "accounted clients w" and f: "fresh e clients"
    and r: "run_state (handle_event os sc sockfd epollfd e clients) w = (Exited x, w')"
  shows "\<exists>left. handle_event_mem os sc sockfd e clients w (loop_blocks clients) = Some (client_blocks left) \<and> left_over left w'"
proof (cases e)
  case (ClientIO a)
  with r show ?thesis by (auto simp: handle_event_def split: option.splits client_result.splits)
next
  case (NewConnection addr)
  let ?fd = "os_accept os w sockfd"
  show ?thesis
  proof (cases "?fd = -1")
    case True
    then have "w' = w @ [Accept (-1), Close epollfd]"
      using r NewConnection by (auto simp: handle_event_def accept_client_def tcp_accept_connection_def sys_accept_def sys_close_def)
    then have "left_over clients w'" using s by (simp add: left_over_def accounted_def server_ok_def)
    with True NewConnection show ?thesis
      by (auto simp: handle_event_mem_def accept_client_mem_def tcp_accept_connection_def sys_accept_def release_loop)
  next
    case False
    then obtain a where a: "addr = Some a" "\<not> os_epoll_add os (w @ [Accept ?fd]) ?fd" "a \<notin> fst ` set clients"
      using r f NewConnection
      by (auto simp: handle_event_def accept_client_def tcp_accept_connection_def sys_accept_def sys_epoll_add_def fresh_def Let_def
          split: option.splits if_splits)
    let ?cs = "(a, new_client ?fd) # clients"
    have "(do { m \<leftarrow> logs_destroy (loop_blocks ?cs); m \<leftarrow> c_free BlkEvents m; m \<leftarrow> free_clients_mem ?cs m; free_server_conf m }) = Some {}"
      using s(1) a(3) by (intro release_refused) (auto simp: server_ok_def)
    with False a NewConnection show ?thesis
      by (intro exI [of _ "[]"])
         (simp add: handle_event_mem_def accept_client_mem_def tcp_accept_connection_def sys_accept_def sys_epoll_add_def add_client_def
           malloc_client [OF a(3), of "new_client ?fd"] left_over_def del: free_clients_mem.simps)
  qed
qed

lemma serving_step:
  "serving os sc sockfd epollfd clients w \<Longrightarrow> fresh e clients \<Longrightarrow> run_state (handle_event os sc sockfd epollfd e clients) w = (Running c, v) \<Longrightarrow>
   handle_event_mem os sc sockfd e clients w (loop_blocks clients) = Some (loop_blocks c) \<and> serving os sc sockfd epollfd c v"
  using serving.event handle_event_mem_running serving_inv by metis

lemma handle_batch_mem_run:
  "serving os sc sockfd epollfd clients w \<Longrightarrow> batch_fresh os sc sockfd epollfd es clients w \<Longrightarrow>
   case run_state (handle_batch os sc sockfd epollfd es clients) w of
     (Running c, v) \<Rightarrow> handle_batch_mem os sc sockfd epollfd es clients w (loop_blocks clients) = Some (loop_blocks c) \<and> serving os sc sockfd epollfd c v
   | (Exited x, v) \<Rightarrow> \<exists>left. handle_batch_mem os sc sockfd epollfd es clients w (loop_blocks clients) = Some (client_blocks left) \<and> left_over left v
   | (Crashed, v) \<Rightarrow> True"
proof (induction es arbitrary: clients w)
  case (Cons e es)
  obtain s v where r: "run_state (handle_event os sc sockfd epollfd e clients) w = (s, v)" by fastforce
  have f: "fresh e clients" using Cons.prems(2) by simp
  show ?case
  proof (cases s)
    case (Running c)
    have m: "handle_batch_mem os sc sockfd epollfd (e # es) clients w (loop_blocks clients) = handle_batch_mem os sc sockfd epollfd es c v (loop_blocks c)"
      and "serving os sc sockfd epollfd c v" using serving_step [OF Cons.prems(1) f] r Running by simp_all
    then show ?thesis
      using Cons.IH [of c v] Cons.prems(2) unfolding m by (simp add: r Running)
  next
    case (Exited x)
    with handle_event_mem_exited [OF _ _ f] serving_inv [OF Cons.prems(1)] r show ?thesis by fastforce
  qed (simp add: r)
qed simp

lemma epoll_loop_releases:
  "serving os sc sockfd epollfd clients w \<Longrightarrow> loop_fresh os sc sockfd epollfd bs clients w \<Longrightarrow>
   run_state (epoll_loop os sc sockfd epollfd bs clients) w = (Exited r, w') \<Longrightarrow>
   \<exists>left. epoll_loop_mem os sc sockfd epollfd bs clients w (loop_blocks clients) = Some (client_blocks left) \<and> left_over left w'"
proof (induction bs arbitrary: clients w)
  case (Cons b bs)
  show ?case
  proof (cases b)
    case (Inl x)
    with Cons.prems serving_inv [OF Cons.prems(1)] show ?thesis
      by (intro exI [of _ clients]) (auto simp: release_loop sys_close_def left_over_def accounted_def server_ok_def)
  next
    case (Inr batch)
    obtain s v where h: "run_state (handle_batch os sc sockfd epollfd batch clients) w = (s, v)" by fastforce
    have "batch_fresh os sc sockfd epollfd batch clients w" using Cons.prems(2) Inr by simp
    from handle_batch_mem_run [OF Cons.prems(1) this] h Cons.prems(2,3) Inr show ?thesis
      by (cases s) (auto intro: Cons.IH)
  qed
qed simp

lemma traces_start: "traces (\<lambda>e. event_accepts e = {#} \<and> event_dels e = {#}) (tcp_start_connection os n port k)"
  unfolding tcp_start_connection_def by (intro tracing) (simp_all add: event_accepts_def event_dels_def)

lemma traces_counts:
  assumes "traces (\<lambda>e. event_accepts e = {#} \<and> event_dels e = {#}) m"
  shows "accepted_fds (snd (run_state m w)) = accepted_fds w \<and> deleted_fds (snd (run_state m w)) = deleted_fds w"
proof -
  obtain es where es: "snd (run_state m w) = w @ es" "list_all (\<lambda>e. event_accepts e = {#} \<and> event_dels e = {#}) es"
    using assms by (auto simp: traces_def)
  from es(2) have "accepted_fds es = {#} \<and> deleted_fds es = {#}" by (induction es) auto
  with es(1) show ?thesis by simp
qed

lemma epoll_server_releases:
  assumes "accepted_fds w = {#}" "deleted_fds w = {#}" "epoll_fresh os sc waits w"
    and "run_state (epoll_server os sc calloc_ok waits) w = (Exited r, w')"
  shows "\<exists>left. epoll_server_mem os sc calloc_ok waits w server_blocks = Some (client_blocks left) \<and> left_over left w'"
proof -
  have ev: "c_malloc BlkEvents server_blocks = Some (loop_blocks [])" by (simp add: loop_blocks_def) code_simp
  obtain fd ret v where t: "run_state (tcp_start_connection os False (listen_port sc) 16) w = ((fd, ret), v)" using prod_cases3 surj_pair by metis
  have q: "accepted_fds v = {#} \<and> deleted_fds v = {#}"
    using traces_counts [OF traces_start, of os False "listen_port sc" 16 w] assms(1,2) t by simp
  let ?v = "v @ [EpollAdd (the fd)]" and ?ep = "os_epoll_create os v"
  show ?thesis
  proof (cases "fst (run_state (set_non_blocking os (the fd)) v) = 0 \<and> initialize_events calloc_ok = 0 \<and> ?ep \<noteq> -1 \<and> os_epoll_add os v (the fd)")
    case True
    have "serving os sc (the fd) ?ep [] ?v" using q by (intro serving.start) simp_all
    moreover have "loop_fresh os sc (the fd) ?ep waits [] ?v"
      using assms(3) t True by (simp add: epoll_fresh_def sys_epoll_create_def sys_epoll_add_def)
    moreover have "run_state (epoll_loop os sc (the fd) ?ep waits []) ?v = (Exited r, w')"
      using assms(4) t True by (simp add: epoll_server_def sys_epoll_create_def sys_epoll_add_def Let_def split_beta)
    ultimately obtain left where "epoll_loop_mem os sc (the fd) ?ep waits [] ?v (loop_blocks []) = Some (client_blocks left)" "left_over left w'"
      using epoll_loop_releases [of os sc "the fd" ?ep "[]" ?v waits r w'] by auto
    with t True show ?thesis
      by (intro exI [of _ left]) (simp add: epoll_server_mem_def ev split_beta sys_epoll_create_def sys_epoll_add_def)
  next
    case False
    with t show ?thesis
      by (intro exI [of _ "[]"]) (auto simp: epoll_server_mem_def ev release_loop release_server split_beta sys_epoll_create_def
          sys_epoll_add_def left_over_def)
  qed
qed

text \<open>The start: what initialisation leaves for \<^verbatim>\<open>main\<close>.\<close>

lemma conf_live:
  assumes "fst (run_state (initialize_server_conf lib malloc_ok open_dir f) w) = Some sc"
  shows "initialize_server_conf_mem lib malloc_ok f {} = Some conf_blocks"
  using assms
  by (auto simp: initialize_server_conf_def initialize_server_conf_mem_def mem_defs conf_blocks_def Let_def split: prod.splits if_splits)

lemma log_live:
  assumes "fst (run_state (logs_init_file malloc_ok d mk fo mu date nm) w) = LogOpened p"
  shows "logs_init_file_mem malloc_ok d mk fo mu nm conf_blocks = Some server_blocks"
  using assms
  by (auto simp: logs_init_file_def logs_init_file_mem_def mem_defs conf_blocks_def log_blocks_def Let_def split: if_splits option.splits)

lemma log_failed:
  assumes "fst (run_state (logs_init_file malloc_ok d mk fo mu date nm) w) = LogFailed"
  shows "logs_init_file_mem malloc_ok d mk fo mu nm conf_blocks \<bind> free_server_conf = Some (if malloc_ok then {BlkLog} else {})"
proof -
  have "logs_init_file_mem malloc_ok d mk fo mu nm conf_blocks = Some (if malloc_ok then insert BlkLog conf_blocks else conf_blocks)"
    using assms
    by (auto simp: logs_init_file_def logs_init_file_mem_def mem_defs conf_blocks_def log_blocks_def Let_def split: if_splits option.splits)
  then show ?thesis by (auto simp: free_server_conf_live conf_blocks_def)
qed

lemma startup_counts:
  assumes "run_state (initialize_server_conf lib malloc_ok open_dir f) [] = (Some sc, v)"
    and "run_state (logs_init_file log_malloc d mk fo mu date (Some nm)) v = (lf, u)"
  shows "accepted_fds u = {#} \<and> deleted_fds u = {#}"
proof -
  have v: "v = [OpenDir (server_root sc) (root_fd sc)]"
    using conf_events [of lib malloc_ok open_dir f "[]"] assms(1) by auto
  obtain es where es: "u = v @ es" "\<forall>e \<in> set es. (\<exists>ok. e = MkDir ''logs'' ok) \<or> (\<exists>ok. e = FOpen (log_path nm date) ok)"
    using logs_init_file_events [of log_malloc d mk fo mu date nm v] assms(2) by auto
  from es(2) have "accepted_fds es = {#} \<and> deleted_fds es = {#}"
    by (induction es) (auto simp: event_accepts_def event_dels_def)
  then show ?thesis by (simp add: es(1) v event_accepts_def event_dels_def)
qed

text \<open>The main thread joins the workers in order and has joined all of them when it goes on.\<close>

definition joined_exited :: "pool \<Rightarrow> bool" where
  "joined_exited p \<longleftrightarrow> (\<forall>i. mpc p = MJoinWait i \<or> (\<exists>fd. mpc p = MJoinShut i fd) \<longrightarrow> i < length (workers p)) \<and> joined p \<le> length (workers p)
     \<and> (\<forall>j < joined p. w_pc (workers p ! j) = WExit)"

lemma joined_signal:
  "length (workers p') = length (workers p) \<Longrightarrow> mpc p' = mpc p \<or> mpc p' = signal_not_full (mpc p) \<Longrightarrow>
   joined p' = joined p \<and> (mpc p' = MJoinWait i \<longleftrightarrow> mpc p = MJoinWait i) \<and> (mpc p' = MJoinShut i fd \<longleftrightarrow> mpc p = MJoinShut i fd)"
  by (cases "mpc p") (auto simp: joined_def signal_not_full_def)

lemma worker_step_shape:
  assumes "worker_step os sc i p = Some p'" and "i < length (workers p)"
  shows "(\<exists>ws. workers p' = (workers p)[i := ws]) \<and> w_pc (workers p ! i) \<noteq> WExit \<and> (mpc p' = mpc p \<or> mpc p' = signal_not_full (mpc p))"
  using assms(1) by (cases rule: worker_step_cases) (auto simp: set_worker_def)

lemma joined_exited_update:
  assumes "joined_exited p" "workers p' = (workers p)[i := ws]" "w_pc (workers p ! i) \<noteq> WExit" "mpc p' = mpc p \<or> mpc p' = signal_not_full (mpc p)"
  shows "joined_exited p'"
proof -
  have "length (workers p') = length (workers p)" using assms(2) by simp
  note j = joined_signal [OF this assms(4)]
  have "\<not> i < joined p" using assms(1,3) by (auto simp: joined_exited_def)
  then show ?thesis using assms(1,2) j by (auto simp: joined_exited_def)
qed

lemma main_step_joined_exited:
  assumes "joined_exited p" "main_step os sc sockfd v p = Some p'"
  shows "joined_exited p'"
proof (cases "mpc p")
  case (MJoinWait i)
  with assms show ?thesis by (auto simp: main_step_def joined_exited_def joined_def less_Suc_eq split: if_splits)
next
  case (MPush fd)
  with assms(2) show ?thesis
    by (auto simp: main_step_def joined_exited_def joined_def Let_def split: if_splits option.splits qres.splits)
qed (insert assms, auto simp: main_step_def joined_exited_def joined_def Let_def split_beta split: if_splits option.splits)

lemma pool_env_joined_exited: "joined_exited p \<Longrightarrow> pool_env p p' \<Longrightarrow> joined_exited p'"
proof (erule pool_env.cases)
  fix q i
  assume "joined_exited p" "p = q" "p' = set_worker i (goto WLoop (workers q ! i)) q" "w_pc (workers q ! i) = WWait"
  then show "joined_exited p'" by (intro joined_exited_update [of p p' i]) (simp_all add: set_worker_def)
qed (auto simp: joined_exited_def joined_def split: main_pc.splits)

lemma pool_run_joined_exited: "pool_run os sc sockfd p0 p \<Longrightarrow> joined_exited p0 \<Longrightarrow> joined_exited p"
proof (induction rule: pool_run.induct)
  case (step p p')
  then show ?case
    by (auto elim!: pool_step.cases intro: main_step_joined_exited joined_exited_update dest: worker_step_shape)
qed (auto intro: pool_env_joined_exited)

lemma pool_run_exit:
  assumes "pool_run os sc sockfd p0 p" "mpc p0 = MAccept" "mpc p = MExit r"
  shows "\<forall>ws \<in> set (workers p). w_pc ws = WExit"
proof -
  have "joined_exited p" using pool_run_joined_exited [OF assms(1)] assms(2) by (simp add: joined_exited_def joined_def)
  with assms(3) show ?thesis by (auto simp: joined_exited_def joined_def in_set_conv_nth)
qed

text \<open>What the start of the pool leaves.\<close>

lemma queue_create_live:
  "queue_create_mem alloc server_blocks = Some (if alloc 0 \<and> alloc 1 \<and> alloc 2 then (True, server_blocks \<union> queue_blocks) else (False, server_blocks))"
  by (auto simp: queue_create_mem_def mem_defs block_defs)

lemma threads_live:
  "c_malloc BlkThreads (server_blocks \<union> queue_blocks) = Some (insert BlkThreads (server_blocks \<union> queue_blocks))"
  "c_malloc BlkArgs (insert BlkThreads (server_blocks \<union> queue_blocks)) = Some pool_blocks"
  "c_free BlkArgs {BlkThreads, BlkArgs} = Some {BlkThreads}" "c_free BlkThreads {BlkThreads} = Some {}"
  by code_simp+

lemmas pool_live = queue_create_live threads_live release_server release_pool

lemma pool_init_live:
  assumes "fst (run_state (pool_init os sc alloc create frames) w) = Inr (sockfd, p)"
  shows "pool_init_mem os sc alloc create w server_blocks = Some pool_blocks"
proof -
  have a: "alloc 0" "alloc 1" "alloc 2" "alloc 3" "alloc 4" "0 \<le> pool_size sc" "0 \<le> queue_size sc" "list_all create [0..<nat (pool_size sc)]"
    "snd (fst (run_state (tcp_start_connection os False (listen_port sc) (backlog sc)) w)) \<noteq> -1"
    using assms by (auto simp: pool_init_def queue_create_def split_beta Let_def split: if_splits option.splits)
  then show ?thesis by (simp add: pool_init_mem_def pool_live)
qed

lemma pool_init_failed:
  assumes "fst (run_state (pool_init os sc alloc create frames) w) = Inl r"
  shows "pool_init_mem os sc alloc create w server_blocks = Some {} \<or>
    \<not> alloc 4 \<and> pool_init_mem os sc alloc create w server_blocks = Some {BlkThreads}"
proof -
  let ?sock = "snd (fst (run_state (tcp_start_connection os False (listen_port sc) (backlog sc)) w)) = -1"
  have "\<not> (0 \<le> pool_size sc \<and> 0 \<le> queue_size sc \<and> alloc 0 \<and> alloc 1 \<and> alloc 2) \<or> ?sock \<or> \<not> alloc 3 \<or> \<not> alloc 4
      \<or> \<not> list_all create [0..<nat (pool_size sc)]"
    using assms by (auto simp: pool_init_def queue_create_def split_beta Let_def)
  then show ?thesis
    by (cases ?sock; cases "alloc 3"; cases "alloc 4") (auto simp: pool_init_mem_def pool_live)
qed

end
