(* ===== verification/MainProperties.thy ===== *)
theory MainProperties
  imports PoolConfined PoolProperties Lifetime
begin

text \<open>The properties of the program as a whole: how it starts, what it may do once it runs, and what it frees.\<close>

section \<open>Starting\<close>

text \<open>An instance of the library: it never finds the file and answers with the defaults of the table.\<close>

fun lookup_int :: "cfg_opt list \<Rightarrow> bytes \<Rightarrow> int" where
  "lookup_int [] n = 0"
| "lookup_int (CFG_INT m d # opts) n = (if m = n then d else lookup_int opts n)"
| "lookup_int (CFG_STR m s # opts) n = lookup_int opts n"

fun lookup_str :: "cfg_opt list \<Rightarrow> bytes \<Rightarrow> bytes" where
  "lookup_str [] n = []"
| "lookup_str (CFG_STR m s # opts) n = (if m = n then s else lookup_str opts n)"
| "lookup_str (CFG_INT m d # opts) n = lookup_str opts n"

definition no_file :: "cfg_opt list confuse" where
  "no_file = \<lparr>cfg_parse = \<lambda>opts f. (CFG_FILE_ERROR, opts), cfg_getint = lookup_int, cfg_getstr = lookup_str\<rparr>"

definition demo_startup :: startup where
  "demo_startup = \<lparr>st_malloc = True, st_open_dir = \<lambda>p. if p = ''www/'' then 6 else -1, st_log_malloc = True, st_logs_is_dir = None, st_mkdir = True,
     st_fopen = True, st_mutex = True, st_date = ''now'', st_calloc = True\<rparr>"

text \<open>The timeout of a socket is the configured number of milliseconds, with less than a second in its second field.\<close>

lemma socket_timeout_exact:
  assumes "0 \<le> timeout_ms sc" and "socket_timeout sc = (s, us)"
  shows "s * 1000000 + us = timeout_ms sc * 1000 \<and> 0 \<le> us \<and> us < 1000000"
proof -
  have d: "timeout_ms sc sdiv 1000 = timeout_ms sc div 1000" "timeout_ms sc smod 1000 = timeout_ms sc mod 1000"
    using assms(1) by (auto simp: signed_divide_int_def signed_modulo_int_def sgn_if)
  have "s = timeout_ms sc div 1000" "us = (timeout_ms sc mod 1000) * 1000"
    using assms(2) by (simp_all add: socket_timeout_def d)
  then show ?thesis by (simp, presburger)
qed

section \<open>Running\<close>

text \<open>The calls made while the server starts: its document root, the directory of the logs, its log file.\<close>

definition startup_call :: "server_conf \<Rightarrow> bytes \<Rightarrow> event \<Rightarrow> bool" where
  "startup_call sc date e \<longleftrightarrow> e = OpenDir (server_root sc) (root_fd sc) \<or> (\<exists>ok. e = MkDir ''logs'' ok)
     \<or> (\<exists>ok. e = FOpen (log_path (conf_log_file sc) date) ok)"

text \<open>
  C3: confinement of the whole program. Whatever the configuration, the kernel and the clients do, the server either
  gives up, having tried to open at most its configured document root, or that root is open and it makes at most three
  calls to start (the root, the directory logs, the log file logs/name_date.log); from then on every file it opens it
  opens below the root, and every program it starts is one of the two interpreters. This covers a run up to the moment
  it first stores outside its own memory, where the model ends it. The configuration file itself is read by libconfuse.
\<close>
theorem main_confined:
  "\<exists>start rest. snd (run_state (main lib st os waits) w) = w @ start @ rest \<and>
    (case fst (run_state (initialize_server_conf lib (st_malloc st) (st_open_dir st) ''server.conf'') w) of
       None \<Rightarrow> rest = [] \<and> (start = [] \<or> (\<exists>fd. start = [OpenDir (cfg_getstr lib (snd (cfg_parse lib conf_opts ''server.conf'')) ''server_root'') fd]))
     | Some sc \<Rightarrow> 0 \<le> root_fd sc \<and> server_root sc = cfg_getstr lib (snd (cfg_parse lib conf_opts ''server.conf'')) ''server_root''
         \<and> length start \<le> 3 \<and> list_all (startup_call sc (st_date st)) start \<and> list_all (server_event (root_fd sc)) rest)"
proof -
  let ?i = "initialize_server_conf lib (st_malloc st) (st_open_dir st) ''server.conf''"
  obtain conf v where i: "run_state ?i w = (conf, v)" by fastforce
  obtain es where es: "v = w @ es" "case conf of
      None \<Rightarrow> es = [] \<or> (\<exists>root fd. es = [OpenDir root fd] \<and> root = cfg_getstr lib (snd (cfg_parse lib conf_opts ''server.conf'')) ''server_root'' \<and> fd < 0)
    | Some sc \<Rightarrow> es = [OpenDir (server_root sc) (root_fd sc)] \<and> 0 \<le> root_fd sc
        \<and> server_root sc = cfg_getstr lib (snd (cfg_parse lib conf_opts ''server.conf'')) ''server_root''"
    using conf_events [of lib "st_malloc st" "st_open_dir st" "''server.conf''" w] i by auto
  show ?thesis
  proof (cases conf)
    case None
    with i es show ?thesis by (intro exI [of _ es] exI [of _ "[]"]) (auto simp: main_def)
  next
    case (Some sc)
    let ?l = "logs_init_file (st_log_malloc st) (st_logs_is_dir st) (st_mkdir st) (st_fopen st) (st_mutex st) (st_date st) (Some (conf_log_file sc))"
    obtain fs where fs: "snd (run_state ?l v) = v @ fs" "length fs \<le> 2"
      "\<forall>e \<in> set fs. (\<exists>ok. e = MkDir ''logs'' ok) \<or> (\<exists>ok. e = FOpen (log_path (conf_log_file sc) (st_date st)) ok)"
      using logs_init_file_events by blast
    have "\<exists>rest. snd (run_state (main lib st os waits) w) = snd (run_state ?l v) @ rest \<and> list_all (server_event (root_fd sc)) rest"
      using i Some traces_epoll_server [of sc os "st_calloc st" waits] by (auto simp: main_def traces_def split: log_init.split)
    then obtain rest where "snd (run_state (main lib st os waits) w) = w @ (es @ fs) @ rest" "list_all (server_event (root_fd sc)) rest"
      using fs(1) es(1) by auto
    with i Some es(2) fs(2,3) show ?thesis
      by (intro exI [of _ "es @ fs"] exI [of _ rest]) (auto simp: list_all_iff startup_call_def)
  qed
qed

text \<open>
  C13: confinement of the threaded server. In every interleaving of the main thread, the workers, the signal and
  spurious wake-ups, the events added to the history open files only below the document root and start only the
  two interpreters.
\<close>
theorem pool_confined:
  assumes "pool_run os sc sockfd p0 p"
  shows "\<exists>es. hist p = hist p0 @ es \<and> list_all (server_event (root_fd sc)) es"
  using pool_run_adds [OF assms] by (simp add: adds_def)

theorem pool_confined_witness:
  "\<exists>w es. hist (pool_of (queue_with [4] 1) WLoop (MPushWait 4) False w) = es \<and> list_all (server_event (root_fd pool_conf)) es"
proof -
  obtain w where r: "pool_run (accepting 4) pool_conf 3 (pool_of (queue_with [0] 0) WLoop MAccept False [])
      (pool_of (queue_with [4] 1) WLoop (MPushWait 4) False w)"
    using demo_blocked by blast
  from pool_confined [OF this] show ?thesis by (auto simp: pool_of_def)
qed

text \<open>
  C36: the workers stay inside their buffers. In every interleaving, whatever the clients send and whatever the
  uninitialised stacks of the threads hold, no handler of the threaded server gives a system call memory behind the
  buffer its request was read into: the target, the query and the body it passes to a script are bytes of that buffer.
\<close>
theorem pool_in_bounds:
  assumes "\<forall>i. frame_sized (frames i)" and "0 < queue_size sc"
    and "run_state (pool_init os sc alloc create frames) w = (Inr (sockfd, p0), w')" and "pool_run os sc sockfd p0 p"
  shows "\<exists>es. hist p = hist p0 @ es \<and> list_all in_bounds es"
  using pool_run_in_bounds [OF assms(4)] pool_init_fresh [OF assms(1-3)] by (simp add: fresh_pool_def adds_def)

theorem pool_in_bounds_witness:
  "\<exists>w es. hist (pool_of (queue_with [4] 1) WLoop (MPushWait 4) False w) = es \<and> list_all in_bounds es"
proof -
  obtain w where i: "run_state (pool_init (accepting 4) pool_conf (\<lambda>_. True) (\<lambda>_. True) (\<lambda>_. zero_frame)) []
     = (Inr (3, pool_of (queue_with [0] 0) WLoop MAccept False w), w)" using demo_init by blast
  obtain w' where r: "pool_run (accepting 4) pool_conf 3 (pool_of (queue_with [0] 0) WLoop MAccept False w) (pool_of (queue_with [4] 1) WLoop (MPushWait 4) False w')"
    using demo_blocked by blast
  have "\<forall>i :: nat. frame_sized zero_frame" "0 < queue_size pool_conf" using zero_frame_ok by (simp_all add: pool_conf_def)
  from pool_in_bounds [OF this i r] obtain es
    where e: "hist (pool_of (queue_with [4] 1) WLoop (MPushWait 4) False w') = w @ es" "list_all in_bounds es" by (auto simp: pool_of_def)
  then have "hist (pool_of (queue_with [4] 1) WLoop (MPushWait 4) False es) = es" by (simp add: pool_of_def)
  with e(2) show ?thesis by blast
qed

section \<open>Releasing memory\<close>


text \<open>One client connects, then \<^verbatim>\<open>epoll_wait\<close> is interrupted: its structure is never freed.\<close>

definition default_conf :: server_conf where
  "default_conf = \<lparr>server_root = ''www/'', root_fd = 6, listen_port = 8000, server_signature = ''Server'', conf_log_file = ''server_logs'',
     timeout_ms = 1000, queue_size = 32, pool_size = 8, backlog = 10\<rparr>"

lemma demo_conf_loaded: "run_state (initialize_server_conf no_file True (st_open_dir demo_startup) ''server.conf'') [] = (Some default_conf, [OpenDir ''www/'' 6])"
  by code_simp

lemma demo_startup_simps [simp]:
  "st_malloc demo_startup" "st_log_malloc demo_startup" "st_logs_is_dir demo_startup = None" "st_mkdir demo_startup" "st_fopen demo_startup"
  "st_mutex demo_startup" "st_date demo_startup = ''now''" "st_calloc demo_startup" "conf_log_file default_conf = ''server_logs''"
  by (simp_all add: demo_startup_def default_conf_def)

lemma demo_log_opened: "run_state (logs_init_file True None True True True ''now'' (Some ''server_logs'')) v =
    (LogOpened ''logs/server_logs_now.log'', v @ [MkDir ''logs'' True, FOpen ''logs/server_logs_now.log'' True])"
  by (simp add: logs_init_file_def log_path_def Let_def)

text \<open>The loop on \<open>demo_os\<close>: one connection, then the interruption.\<close>

abbreviation demo_waits :: "(bool + ready list) list" where
  "demo_waits \<equiv> [Inr [NewConnection (Some 100)], Inl True]"

lemma demo_start:
  "run_state (tcp_start_connection demo_os False port 16) v = ((Some 3, 0), v @ [Socket 3])"
  "fst (run_state (set_non_blocking demo_os fd) v) = 0"
  "run_state (sys_epoll_create demo_os) v = (9, v)" "run_state (sys_epoll_add demo_os fd) v = (True, v @ [EpollAdd fd])"
  by (simp_all add: tcp_start_connection_def set_non_blocking_def sys_socket_def sys_setsockopt_def sys_bind_def sys_listen_def
      sys_getfl_def sys_setfl_def sys_epoll_create_def sys_epoll_add_def demo_os_def)

lemma demo_accepted:
  "run_state (handle_event demo_os sc 3 9 (NewConnection (Some 100)) []) v = (Running [(100, new_client 4)], v @ [Accept 4, EpollAdd 4])"
  by (simp add: handle_event_def accept_client_def tcp_accept_connection_def sys_accept_def demo_start Let_def add_client_def)
     (simp add: demo_os_def)

lemmas demo_run = demo_conf_loaded demo_log_opened demo_start demo_accepted initialize_events_def sys_close_def split_beta

lemma demo_main: "fst (run_state (main no_file demo_startup demo_os demo_waits) []) = Exited 0"
  by (simp add: main_def epoll_server_def demo_run Let_def)

lemma demo_fresh: "main_fresh no_file demo_startup demo_os demo_waits []"
  by (simp add: main_fresh_def epoll_fresh_def demo_run fresh_def)

lemma demo_mem: "main_mem no_file demo_startup demo_os demo_waits [] = Some {BlkClient 100}"
proof -
  have "initialize_server_conf_mem no_file True ''server.conf'' {} = Some conf_blocks"
    by (rule conf_live [where open_dir = "st_open_dir demo_startup" and w = "[]" and sc = default_conf]) (simp add: demo_conf_loaded)
  moreover have "logs_init_file_mem True None True True True (Some ''server_logs'') conf_blocks = Some server_blocks"
    by (rule log_live [where w = "[]" and date = "''now''" and p = "''logs/server_logs_now.log''"]) (simp add: demo_log_opened)
  moreover have "c_malloc BlkEvents server_blocks = Some (loop_blocks [])" by (simp add: loop_blocks_def) code_simp
  moreover have "c_malloc (BlkClient 100) (loop_blocks []) = Some (loop_blocks [(100, new_client 4)])" by (rule malloc_client) simp
  ultimately show ?thesis
    by (simp add: main_mem_def epoll_server_mem_def demo_run handle_event_mem_def accept_client_mem_def tcp_accept_connection_def sys_accept_def
        release_loop client_blocks_def) (simp add: demo_os_def client_blocks_def)
qed


text \<open>
  C18: the memory the threads share. When \<^verbatim>\<open>main\<close> comes to the end of the pool every worker has returned, so nothing
  it frees there is still in use; it frees the queue, the configuration, the log and its arrays once each, and
  nothing is left, whether or not the listening socket could be closed.
\<close>
theorem pool_memory_released:
  assumes "run_state (pool_init os sc alloc create frames) w = (Inr (sockfd, p0), w')"
    and "pool_run os sc sockfd p0 p" and "mpc p = MExit r"
  shows "(\<forall>ws \<in> set (workers p). w_pc ws = WExit)
    \<and> (pool_init_mem os sc alloc create w (conf_blocks \<union> log_blocks) \<bind> pool_exit_mem r) = Some {}"
proof -
  have "mpc p0 = MAccept"
    using assms(1) by (auto simp: pool_init_def split_beta Let_def split: if_splits option.splits)
  from pool_run_exit [OF assms(2) this assms(3)] pool_init_live [of os sc alloc create frames w sockfd p0] assms(1) show ?thesis
    by (simp add: release_pool)
qed

lemma pool_run_steps: "(pool_step os sc sockfd)\<^sup>*\<^sup>* p q \<Longrightarrow> pool_run os sc sockfd p0 p \<Longrightarrow> pool_run os sc sockfd p0 q"
  by (induction rule: rtranclp_induct) (auto intro: pool_run.step)

theorem pool_memory_released_witness:
  "\<exists>(q :: pool) r. mpc q = MExit r \<and> (\<forall>ws \<in> set (workers q). w_pc ws = WExit)
    \<and> (pool_init_mem (accepting 4) pool_conf (\<lambda>_. True) (\<lambda>_. True) [] (conf_blocks \<union> log_blocks) \<bind> pool_exit_mem r) = Some {}"
proof -
  obtain w where i: "run_state (pool_init (accepting 4) pool_conf (\<lambda>_. True) (\<lambda>_. True) (\<lambda>_. zero_frame)) []
     = (Inr (3, pool_of (queue_with [0] 0) WLoop MAccept False w), w)" using demo_init by blast
  obtain w' where r: "pool_run (accepting 4) pool_conf 3 (pool_of (queue_with [0] 0) WLoop MAccept False w) (pool_of (queue_with [4] 1) WLoop MAccept True w')"
    using demo_queued demo_interrupted by blast
  let ?p = "pool_of (queue_with [4] 1) WLoop MAccept True w'"
  have z: "\<forall>i :: nat. frame_inv True zero_frame" "0 < queue_size pool_conf" using zero_frame_ok by (simp_all add: pool_conf_def)
  have "pool_ok True ?p" using pool_run_ok [OF r] pool_init_fresh [OF z i] by (simp add: fresh_pool_def)
  then have d: "down True ?p" by (simp add: down_def joined_def pool_of_def)
  obtain q where q: "(pool_step (accepting 4) pool_conf 3)\<^sup>*\<^sup>* ?p q" "\<forall>q'. \<not> pool_step (accepting 4) pool_conf 3 q q'"
    using down_ends [OF d] by blast
  obtain x where x: "mpc q = MExit x" using down_progress [OF down_steps [OF q(1) d] q(2)] by blast
  from pool_memory_released [OF i pool_run_steps [OF q(1) r] x] x show ?thesis by blast
qed

end
