(* ===== verification/Spec2Isabelle.thy ===== *)
theory Spec2Isabelle
  imports ParserProperties HttpProperties MessageProperties ServerProperties PoolProperties
    ResponseProperties ChunkedProperties MainProperties
begin

text \<open>
  barehttp, a small HTTP/1.0 server in C.

  \<^bold>\<open>The program.\<close> \<^verbatim>\<open>main\<close> (\<^verbatim>\<open>src/server.c\<close>) reads the configuration with libconfuse, opens the log
  (\<^verbatim>\<open>srclib/logs.c\<close>) and enters \<^verbatim>\<open>epoll_server\<close>, a loop over ready descriptors that keeps a structure per client;
  compiled without \<^verbatim>\<open>USE_EPOLL\<close> it starts a pool of threads instead, which take connections from a queue
  (\<^verbatim>\<open>srclib/queue.c\<close>). Either way bytes are read through \<^verbatim>\<open>srclib/tcp.c\<close> into a buffer of 8192, the head is parsed
  by \<^verbatim>\<open>srclib/picohttpparser.c\<close> through \<^verbatim>\<open>http_parse_request\<close>, and \<^verbatim>\<open>http_process_request\<close> (\<^verbatim>\<open>srclib/http.c\<close>)
  answers with a file, the output of a script or an error page.

  \<^bold>\<open>Conventions.\<close> A buffer is a list of bytes (\<open>Prelude\<close>), a \<^verbatim>\<open>char *\<close> into it an offset; a parsing routine returns
  \<open>PRet\<close>, \<open>PBad\<close> (-1), \<open>PPartial\<close> (-2) or \<open>PFault\<close>, an access outside the buffer or the array it was given. A field
  of type \<^verbatim>\<open>int\<close> is an \<open>int\<close> with the wrap-around written out where it can happen (\<open>wrap32\<close>, \<open>recv_len\<close>, \<open>size_dec\<close>), the 64-bit
  sizes of the chunked decoder are \<open>64 word\<close>; the casts of consumed lengths to \<^verbatim>\<open>int\<close> are exact for buffers below 2 GiB. The kernel is the record \<open>os\<close> of \<open>Posix\<close>: each call's result is an arbitrary function of the
  history of calls, and the history is the state of the state monad. libconfuse is the record \<open>confuse\<close>.
  Uninitialised memory is a parameter too: the stacks of the threads (\<open>frames\<close>), the head of the client list
  (\<open>os_active_null\<close>), and the bytes behind a client's buffer, which a call that is given a pointer there reads and which the
  event \<open>ReadBeyond\<close> records. Bytes stored outside a structure end the run (\<open>Crashed\<close>, \<open>WCrash\<close>): what the
  program does with overwritten memory is not described. Theorems hold for every kernel, unless they say what they ask of it; the demo kernels only serve the instances.

  \<^bold>\<open>The parser.\<close> \<open>PicoParser\<close> has every macro and function of the request half and \<^verbatim>\<open>phr_parse_headers\<close>, \<open>PicoSSE\<close> the branches
  compiled for SSE4.2, \<open>PicoResponse\<close> the response half, \<open>ChunkedDecoder\<close> \<^verbatim>\<open>phr_decode_chunked\<close> with its buffer rewritten in
  place. \<open>PicoSafety\<close>: no access outside buffer and header array, the scan of eight bytes a round equals the
  scan of one. \<open>PicoGrammar\<close> and \<open>PicoRoundtrip\<close>: what is accepted is well formed, and what is well formed is accepted
  with its own fields. \<open>PicoStream\<close>, \<open>PicoResume\<close>: later bytes do not change a verdict, and a call resumed with \<^verbatim>\<open>last_len\<close>
  accepts what a fresh one does. \<open>PicoGate\<close> states this once as the locales \<open>incremental_parser\<close> and \<open>gated_parser\<close>, which
  \<open>PicoReuse\<close> (requests, into a structure with old contents) and \<open>PicoResponseGate\<close> (responses) meet. \<open>ChunkedProps\<close>, \<open>ChunkedPieces\<close> and
  \<open>ChunkedRoundtrip\<close>: the decoder follows a reference automaton that reads one byte at a time, so cutting the input
  does not matter (locale \<open>stream_decoder\<close>) and the chunked encoding is undone. The properties are in
  \<open>ParserProperties\<close>, \<open>ResponseProperties\<close> and \<open>ChunkedProperties\<close>.

  \<^bold>\<open>Requests and answers.\<close> \<open>HttpMessage\<close> has the pure half of \<^verbatim>\<open>srclib/http.c\<close>: the request structure as the parser sees it
  through pointers of another width, the body length, the traversal check, paths, types, the response text; \<open>HttpDate\<close> the
  dates; \<open>HttpServe\<close> the handlers of GET, POST, OPTIONS, files, scripts and errors. \<open>HttpHandlers\<close> shows which
  calls they can make and that a request inside the buffer is never read beyond it, \<open>HttpRoute\<close> that GET and POST decide as a short specification of the URL does.
  Properties: \<open>HttpProperties\<close>, \<open>MessageProperties\<close>.

  \<^bold>\<open>The server.\<close> \<open>TcpLogs\<close> has \<^verbatim>\<open>srclib/tcp.c\<close> and \<^verbatim>\<open>srclib/logs.c\<close>, \<open>EpollServer\<close> the event loop, \<open>ServerMain\<close> the configuration
  and \<^verbatim>\<open>main\<close>. \<open>EpollProps\<close>: the invariant of a client, how a head arrives does not matter, every connection is in the
  list or closed, and only the body phase leaves the buffer. Properties: \<open>ServerProperties\<close>, and \<open>MainProperties\<close> for the whole
  program: after the three calls of its start (document root, log directory, log file) it opens files only below the
  document root and starts only the two interpreters.

  \<^bold>\<open>The pool.\<close> \<open>ClientQueue\<close> has the ring and its contract, the locale \<open>bounded_fifo\<close>; \<open>ThreadPool\<close> the threads, whose steps (tests
  of \<^verbatim>\<open>sigint\<close>, critical sections, the work between them) are interleaved in any order (\<open>pool_step\<close>), with the signal and
  spurious wake-ups at any time (\<open>pool_env\<close>). \<^verbatim>\<open>accept\<close>, and reading and answering one request, are single steps that may
  never be taken (\<open>stuck\<close>). \<open>WorkerProps\<close>, \<open>PoolProps\<close>, \<open>PoolShutdown\<close> and \<open>PoolConfined\<close>: the reachable states, each connection is
  held by one thread, no wake-up is lost, shutdown takes a bounded number of steps, and where it hangs. The invariants take a
  flag \<open>z\<close>: without it nothing is assumed of the uninitialised request on a worker's stack, with it the padding
  behind its number of headers is zero, and then no worker crashes. Properties: \<open>PoolProperties\<close>.

  \<^bold>\<open>Memory.\<close> \<open>Lifetime\<close> follows allocation and release of the shared structures and of those of the clients on every path of \<^verbatim>\<open>main\<close>, \<^verbatim>\<open>epoll_server\<close> and the
  pool: nothing is freed twice or used after it was freed, and the leaks are named.

  \<^bold>\<open>Loops and bounds.\<close> Every loop of the code is a total function, with a measure on the bytes left where it is not
  structural; no fuel is used. The loops that need the world to go on are cut by it: \<open>epoll_loop\<close> takes the list of
  what \<^verbatim>\<open>epoll_wait\<close> returns, of any length, and the pool is a step relation. The only bounds are the code's own
  arrays.

  \<^bold>\<open>Not modelled.\<close> \<^verbatim>\<open>http_debug_request\<close> and the other messages to the terminal; \<^verbatim>\<open>http_free_request\<close>, which has no caller; \<^verbatim>\<open>pthread_detach\<close>,
  which one exit calls for threads it has already joined; a \<^verbatim>\<open>strdup\<close> that fails; the interleaving of other threads with the
  calls inside one reading and answering of a request; the Python tests and the web content.
\<close>

section \<open>The queue\<close>

text \<open>
  C14: the queue hands out connections in the order they came. Whatever schedule of pushes and pops is
  run on a queue that \<^verbatim>\<open>queue_create\<close> returned, the connections accepted so far are those
  delivered, in the same order, followed by those still waiting, and no more than
  \<^verbatim>\<open>max_size\<close> wait.
\<close>
theorem queue_fifo:
  assumes "queue_create alloc n queue_max = Some q" and "0 < queue_max"
    and "ring.run es q = (accepted, delivered, q')"
  shows "accepted = delivered @ queue_list q' \<and> qsize q' \<le> queue_max"
  using ring.run_fifo [OF _ assms(3)] queue_create_ok [OF assms(1,2)] by (auto simp: queue_ok_def)

theorem queue_fifo_witness:
  "fst (ring.run [Some 5, Some 6, None, Some 7, Some 8] (the (queue_create (\<lambda>_. True) 1 2))) = [5, 6, 7]"
proof -
  obtain cq where q: "queue_create (\<lambda>_. True) 1 2 = Some cq" by (simp add: queue_create_def)
  obtain a d r where r: "ring.run [Some 5, Some 6, None, Some 7, Some 8] cq = (a, d, r)" using prod_cases3 by blast
  have "d = [5] \<and> queue_list r = [6, 7]"
    using q r by (auto simp: queue_create_def push_opt_def pop_opt_def queue_push_def queue_pop_def queue_list_def upt_rec)
  with queue_fifo [OF q _ r] r q show ?thesis by simp
qed

end
